(* ===== verification/Ubi_Prelude.thy ===== *)
theory Ubi_Prelude
  imports
    "HOL-Library.Word"
    "HOL-Library.Finite_Map"
    "HOL-Library.Product_Lexorder"
    "HOL-Library.Multiset"
begin

text \<open>
  The shared base of the library: the names of the model's machine types, Rust's saturating
  and wrapping integer arithmetic written out on natural numbers, big- and little-endian byte
  encodings with their round trips, sums over finite maps, canonical sorting, and the
  interfaces (locales) that several components implement: a keyed store, and an operation
  that leaves the state alone when it rejects.

  Conventions. An unsigned Rust integer is a natural number below its width's bound; each
  saturating or wrapping operation is written out. \<^verbatim>\<open>[u8; 20]\<close> and \<^verbatim>\<open>[u8; 32]\<close> are
  the words they spell in big-endian order, so that the byte-wise order the code sorts by is
  the order of the word. A \<^verbatim>\<open>HashMap\<close> is a finite map and a \<^verbatim>\<open>HashSet\<close> a finite set;
  the code only ever iterates them sorted.
\<close>

section \<open>Types\<close>

type_synonym u8 = nat
type_synonym u32 = nat
type_synonym u64 = nat
type_synonym u128 = nat
type_synonym usize = nat
type_synonym i64 = int
type_synonym byte = "8 word"
type_synonym address = "160 word"
type_synonym hash = "256 word"

named_theorems arith_defs \<open>unfold Rust's integer operations\<close>
named_theorems state_defs \<open>unfold the accessors and updates of the in-memory state\<close>
named_theorems const_defs \<open>unfold the protocol's constants\<close>

section \<open>Rust integer arithmetic\<close>

definition U64_MAX :: nat where
  [arith_defs]: "U64_MAX = 18446744073709551615"

definition U128_MAX :: nat where
  [arith_defs]: "U128_MAX = 340282366920938463463374607431768211455"

lemma U64_MAX_pow: "U64_MAX = 2 ^ 64 - 1"
  by (simp add: U64_MAX_def)

lemma U128_MAX_pow: "U128_MAX = 2 ^ 128 - 1"
  by (simp add: U128_MAX_def)

definition sat_add64 :: "u64 \<Rightarrow> u64 \<Rightarrow> u64" where
  [arith_defs]: "sat_add64 a b = min (a + b) U64_MAX"

definition sat_mul64 :: "u64 \<Rightarrow> u64 \<Rightarrow> u64" where
  [arith_defs]: "sat_mul64 a b = min (a * b) U64_MAX"

definition sat_add128 :: "u128 \<Rightarrow> u128 \<Rightarrow> u128" where
  [arith_defs]: "sat_add128 a b = min (a + b) U128_MAX"

definition sat_mul128 :: "u128 \<Rightarrow> u128 \<Rightarrow> u128" where
  [arith_defs]: "sat_mul128 a b = min (a * b) U128_MAX"

text \<open>An unsigned \<^verbatim>\<open>saturating_sub\<close> is subtraction on naturals.\<close>

abbreviation (input) sat_sub :: "nat \<Rightarrow> nat \<Rightarrow> nat" where
  "sat_sub a b \<equiv> a - b"

text \<open>A bare \<^verbatim>\<open>+= 1\<close> on a \<^verbatim>\<open>u64\<close> counter wraps in the release profile.\<close>

definition incr64 :: "u64 \<Rightarrow> u64" where
  [arith_defs]: "incr64 n = (n + 1) mod (U64_MAX + 1)"

definition I64_MIN :: int where
  [arith_defs]: "I64_MIN = - 9223372036854775808"

definition I64_MAX :: int where
  [arith_defs]: "I64_MAX = 9223372036854775807"

definition i64_sat_sub :: "i64 \<Rightarrow> i64 \<Rightarrow> i64" where
  [arith_defs]: "i64_sat_sub a b = max I64_MIN (min I64_MAX (a - b))"

lemma sat_add128_le [simp]: "sat_add128 a b \<le> U128_MAX"
  by (simp add: sat_add128_def)

lemma sat_add128_exact [simp]: "a + b \<le> U128_MAX \<Longrightarrow> sat_add128 a b = a + b"
  by (simp add: sat_add128_def)

lemma sat_mul128_le [simp]: "sat_mul128 a b \<le> U128_MAX"
  by (simp add: sat_mul128_def)

lemma sat_add64_le [simp]: "sat_add64 a b \<le> U64_MAX"
  by (simp add: sat_add64_def)

lemma sat_add64_exact: "a + b \<le> U64_MAX \<Longrightarrow> sat_add64 a b = a + b"
  by (simp add: sat_add64_def)

lemma sat_add128_mono: "a \<le> a' \<Longrightarrow> b \<le> b' \<Longrightarrow> sat_add128 a b \<le> sat_add128 a' b'"
  by (auto simp: sat_add128_def min_def)

lemma sat_mul128_mono: "b \<le> b' \<Longrightarrow> sat_mul128 a b \<le> sat_mul128 a b'"
  using mult_le_mono2 [of b b' a] unfolding sat_mul128_def by linarith

lemma incr64_le [simp]: "incr64 n \<le> U64_MAX"
  by (simp add: incr64_def less_Suc_eq_le [symmetric])

lemma incr64_exact: "n < U64_MAX \<Longrightarrow> incr64 n = n + 1"
  by (simp add: incr64_def)

lemma i64_sat_sub_range [simp]: "I64_MIN \<le> i64_sat_sub a b" "i64_sat_sub a b \<le> I64_MAX"
  by (simp_all add: i64_sat_sub_def I64_MIN_def I64_MAX_def)

section \<open>Fixed-width byte encodings\<close>

text \<open>\<^verbatim>\<open>to_be_bytes\<close> and \<^verbatim>\<open>from_be_bytes\<close> at a width of \<open>k\<close> bytes.\<close>

primrec le_bytes :: "nat \<Rightarrow> nat \<Rightarrow> byte list" where
  "le_bytes 0 n = []"
| "le_bytes (Suc k) n = of_nat (n mod 256) # le_bytes k (n div 256)"

definition be_bytes :: "nat \<Rightarrow> nat \<Rightarrow> byte list" where
  "be_bytes k n = rev (le_bytes k n)"

primrec le_nat :: "byte list \<Rightarrow> nat" where
  "le_nat [] = 0"
| "le_nat (b # bs) = unat b + 256 * le_nat bs"

definition be_nat :: "byte list \<Rightarrow> nat" where
  "be_nat bs = le_nat (rev bs)"

lemma unat_byte_lt: "unat (b :: byte) < 256"
  and unat_address_lt: "unat (a :: address) < 2 ^ 160"
  and unat_hash_lt: "unat (h :: hash) < 2 ^ 256"
  using unsigned_less [where w = b and 'a = nat] unsigned_less [where w = a and 'a = nat]
    unsigned_less [where w = h and 'a = nat]
  by simp_all

lemma length_le_bytes [simp]: "length (le_bytes k n) = k"
  by (induction k arbitrary: n) auto

lemma length_be_bytes [simp]: "length (be_bytes k n) = k"
  by (simp add: be_bytes_def)

lemma unat_of_nat_byte [simp]: "unat (of_nat (n mod 256) :: byte) = n mod 256"
  by (simp add: unat_of_nat)

lemma le_nat_le_bytes: "le_nat (le_bytes k n) = n mod 256 ^ k"
proof (induction k arbitrary: n)
  case (Suc k)
  show ?case
    by (simp add: Suc.IH mod_mult2_eq)
qed simp

lemma be_nat_be_bytes: "n < 256 ^ k \<Longrightarrow> be_nat (be_bytes k n) = n"
  by (simp add: be_nat_def be_bytes_def le_nat_le_bytes)

lemma le_nat_bound: "le_nat bs < 256 ^ length bs"
proof (induction bs)
  case (Cons b bs)
  have "unat b < 256"
    by (rule unat_byte_lt)
  moreover have "256 * (le_nat bs + 1) \<le> 256 * 256 ^ length bs"
    using Cons.IH by (intro mult_le_mono2) simp
  ultimately show ?case
    by simp
qed simp

lemma be_nat_bound: "be_nat bs < 256 ^ length bs"
  using le_nat_bound [of "rev bs"] by (simp add: be_nat_def)

lemma le_bytes_le_nat: "le_bytes (length bs) (le_nat bs) = bs"
proof (induction bs)
  case (Cons b bs)
  have "unat b < 256"
    by (rule unat_byte_lt)
  then show ?case
    by (simp add: Cons.IH div_mult2_eq)
qed simp

lemma be_bytes_be_nat: "length bs = k \<Longrightarrow> be_bytes k (be_nat bs) = bs"
  using le_bytes_le_nat [of "rev bs"] by (auto simp: be_bytes_def be_nat_def)

lemma be_bytes_inject:
  "m < 256 ^ k \<Longrightarrow> n < 256 ^ k \<Longrightarrow> be_bytes k m = be_bytes k n \<longleftrightarrow> m = n"
  by (metis be_nat_be_bytes)

text \<open>An address or a hash as the byte array the code stores.\<close>

definition addr_bytes :: "address \<Rightarrow> byte list" where
  "addr_bytes a = be_bytes 20 (unat a)"

definition hash_bytes :: "hash \<Rightarrow> byte list" where
  "hash_bytes h = be_bytes 32 (unat h)"

definition addr_of_bytes :: "byte list \<Rightarrow> address" where
  "addr_of_bytes bs = of_nat (be_nat bs)"

definition hash_of_bytes :: "byte list \<Rightarrow> hash" where
  "hash_of_bytes bs = of_nat (be_nat bs)"

lemma length_addr_bytes [simp]: "length (addr_bytes a) = 20"
  and length_hash_bytes [simp]: "length (hash_bytes h) = 32"
  by (simp_all add: addr_bytes_def hash_bytes_def)

lemma addr_of_addr_bytes [simp]: "addr_of_bytes (addr_bytes a) = a"
  using unat_address_lt [of a] by (simp add: addr_of_bytes_def addr_bytes_def be_nat_be_bytes)

lemma hash_of_hash_bytes [simp]: "hash_of_bytes (hash_bytes h) = h"
  using unat_hash_lt [of h] by (simp add: hash_of_bytes_def hash_bytes_def be_nat_be_bytes)

lemma addr_bytes_inject [simp]: "addr_bytes a = addr_bytes b \<longleftrightarrow> a = b"
  by (metis addr_of_addr_bytes)

lemma hash_bytes_inject [simp]: "hash_bytes a = hash_bytes b \<longleftrightarrow> a = b"
  by (metis hash_of_hash_bytes)

lemma hash_bytes_hash_of: "length bs = 32 \<Longrightarrow> hash_bytes (hash_of_bytes bs) = bs"
  using be_nat_bound [of bs]
  by (simp add: hash_bytes_def hash_of_bytes_def unat_of_nat be_bytes_be_nat)

lemma addr_bytes_addr_of: "length bs = 20 \<Longrightarrow> addr_bytes (addr_of_bytes bs) = bs"
  using be_nat_bound [of bs]
  by (simp add: addr_bytes_def addr_of_bytes_def unat_of_nat be_bytes_be_nat)

section \<open>Sorting and deduplicating\<close>

text \<open>\<^verbatim>\<open>v.sort_unstable(); v.dedup()\<close>: \<^verbatim>\<open>dedup\<close> drops adjacent repeats.\<close>

definition sort_dedup :: "'a :: linorder list \<Rightarrow> 'a list" where
  "sort_dedup xs = remdups_adj (sort xs)"

lemma set_sort_dedup [simp]: "set (sort_dedup xs) = set xs"
  by (simp add: sort_dedup_def)

lemma sorted_sort_dedup [simp]: "sorted (sort_dedup xs)"
  by (simp add: sort_dedup_def sorted_remdups_adj)

lemma distinct_remdups_adj_sorted: "sorted xs \<Longrightarrow> distinct (remdups_adj xs)"
  by (induction xs rule: remdups_adj.induct) (auto simp: less_le)

lemma distinct_sort_dedup [simp]: "distinct (sort_dedup xs)"
  by (simp add: sort_dedup_def distinct_remdups_adj_sorted)

lemma sort_dedup_canonical: "set xs = set ys \<Longrightarrow> sort_dedup xs = sort_dedup ys"
  by (simp add: sorted_distinct_set_unique)

lemma sort_dedup_sorted_list_of_set: "sort_dedup xs = sorted_list_of_set (set xs)"
  by (simp add: sorted_distinct_set_unique)

lemma sort_dedup_idem: "sorted xs \<Longrightarrow> distinct xs \<Longrightarrow> sort_dedup xs = xs"
  by (simp add: sorted_distinct_set_unique)

lemma find_SomeD: "List.find P xs = Some x \<Longrightarrow> x \<in> set xs \<and> P x"
  by (induction xs) (auto split: if_splits)

section \<open>Finite maps: values in key order, sums\<close>

lemma sorted_list_of_fset_facts [simp]:
  "sorted (sorted_list_of_fset A)" "distinct (sorted_list_of_fset A)"
  by (simp_all add: sorted_list_of_fset.rep_eq)

definition fm_values :: "('k :: linorder, 'v) fmap \<Rightarrow> 'v list" where
  "fm_values m = map snd (sorted_list_of_fmap m)"

lemma fm_values_eq:
  "fm_values m = map (\<lambda>k. the (fmlookup m k)) (sorted_list_of_fset (fmdom m))"
  by (simp add: fm_values_def sorted_list_of_fmap_def)

lemma set_fm_values: "set (fm_values m) = {v. \<exists>k. fmlookup m k = Some v}"
  by (force simp: fm_values_eq fmlookup_dom_iff image_iff)

definition fm_sum :: "('v \<Rightarrow> nat) \<Rightarrow> ('k, 'v) fmap \<Rightarrow> nat" where
  "fm_sum f m = (\<Sum>k\<in>fmdom' m. f (the (fmlookup m k)))"

abbreviation opt_val :: "('v \<Rightarrow> nat) \<Rightarrow> 'v option \<Rightarrow> nat" where
  "opt_val f x \<equiv> case_option 0 f x"

lemma fm_sum_empty [simp]: "fm_sum f fmempty = 0"
  by (simp add: fm_sum_def)

lemma fm_sum_fmdrop: "fm_sum f m = opt_val f (fmlookup m k) + fm_sum f (fmdrop k m)"
proof -
  have eq: "fm_sum f (fmdrop k m) = (\<Sum>x\<in>fmdom' m - {k}. f (the (fmlookup m x)))"
    unfolding fm_sum_def fmdom'_drop by (rule sum.cong) auto
  show ?thesis
  proof (cases "fmlookup m k")
    case None
    then have "k \<notin> fmdom' m"
      by (simp add: fmdom'_notI)
    with None eq show ?thesis by (simp add: fm_sum_def)
  next
    case (Some w)
    then have "k \<in> fmdom' m"
      by (rule fmdom'I)
    with Some eq show ?thesis
      by (simp add: fm_sum_def sum.remove [of "fmdom' m" k])
  qed
qed

lemma fm_sum_fmupd:
  "fm_sum f (fmupd k v m) + opt_val f (fmlookup m k) = fm_sum f m + f v"
proof -
  have "fmdrop k (fmupd k v m) = fmdrop k m"
    by (rule fmdrop_fmupd_same)
  then show ?thesis
    using fm_sum_fmdrop [of f m k] fm_sum_fmdrop [of f "fmupd k v m" k] by simp
qed

lemma fm_sum_fmupd_fresh: "fmlookup m k = None \<Longrightarrow> fm_sum f (fmupd k v m) = fm_sum f m + f v"
  using fm_sum_fmupd [of f k v m] by simp

lemma fm_sum_fmupd_same:
  "opt_val f (fmlookup m k) = f v \<Longrightarrow> fm_sum f (fmupd k v m) = fm_sum f m"
  using fm_sum_fmupd [of f k v m] by simp

lemma opt_val_le_fm_sum: "opt_val f (fmlookup m k) \<le> fm_sum f m"
  using fm_sum_fmdrop [of f m k] by simp

lemma fm_sum_two_le:
  assumes "i \<noteq> j"
  shows "opt_val f (fmlookup m i) + opt_val f (fmlookup m j) \<le> fm_sum f m"
  using fm_sum_fmdrop [of f m i] opt_val_le_fm_sum [of f "fmdrop i m" j] assms by simp

section \<open>Interfaces\<close>

text \<open>
  A keyed store: writing a record makes it readable under its own key and leaves every other
  key alone. Accounts, streams, humans, cases, jurors, contracts, execution cases and trust
  anchors are stores of this kind.
\<close>

locale keyed_store =
  fixes lookup :: "'s \<Rightarrow> 'k \<Rightarrow> 'v option"
    and store :: "'s \<Rightarrow> 'v \<Rightarrow> 's"
    and key :: "'v \<Rightarrow> 'k"
  assumes lookup_store: "lookup (store s v) k = (if k = key v then Some v else lookup s k)"
begin

definition keys_agree :: "'s \<Rightarrow> bool" where
  "keys_agree s \<longleftrightarrow> (\<forall>k v. lookup s k = Some v \<longrightarrow> key v = k)"

lemma keys_agree_store: "keys_agree s \<Longrightarrow> keys_agree (store s v)"
  by (auto simp: keys_agree_def lookup_store)

lemma last_write_wins: "key v = key w \<Longrightarrow> lookup (store (store s v) w) = lookup (store s w)"
  by (auto simp: lookup_store fun_eq_iff)

lemma store_same_noop: "lookup s (key v) = Some v \<Longrightarrow> lookup (store s v) = lookup s"
  by (auto simp: lookup_store fun_eq_iff)

lemma writes_commute:
  "key v \<noteq> key w \<Longrightarrow> lookup (store (store s v) w) = lookup (store (store s w) v)"
  by (auto simp: lookup_store fun_eq_iff)

end

text \<open>
  A fail-closed operation: a rejected call returns the state it was given. Then a run of such
  calls ends in the state that the accepted calls alone would have reached.
\<close>

locale fail_closed =
  fixes exec :: "'s \<Rightarrow> 'i \<Rightarrow> ('e + 'a) \<times> 's"
  assumes rejected_unchanged: "exec s i = (Inl e, s') \<Longrightarrow> s' = s"
begin

primrec run :: "'s \<Rightarrow> 'i list \<Rightarrow> 's" where
  "run s [] = s"
| "run s (i # is) = run (snd (exec s i)) is"

primrec accepted :: "'s \<Rightarrow> 'i list \<Rightarrow> 'i list" where
  "accepted s [] = []"
| "accepted s (i # is) =
     (case exec s i of (Inl _, s') \<Rightarrow> accepted s' is | (Inr _, s') \<Rightarrow> i # accepted s' is)"

lemma run_accepted: "run s (accepted s is) = run s is"
proof (induction "is" arbitrary: s)
  case (Cons i rest)
  show ?case
  proof (cases "exec s i")
    case (Pair r s')
    then show ?thesis
      using Cons.IH rejected_unchanged [of s i _ s'] by (cases r) auto
  qed
qed simp

lemma rejected_twice: "exec s i = (Inl e, s') \<Longrightarrow> exec s' i = (Inl e, s')"
  using rejected_unchanged by fastforce

end

end
