(* ===== verification/Sponge.thy ===== *)
theory Sponge
  imports Ubi_Prelude
begin

unbundle bit_operations_syntax

text \<open>
  The 256-bit FNV-1a digest, which the source writes three times: one-shot as
  \<^verbatim>\<open>fnv1a_256\<close> (\<^verbatim>\<open>contracts.rs\<close>), as the streaming \<^verbatim>\<open>Hasher256\<close> of the state root
  (\<^verbatim>\<open>state_root.rs\<close>) and as \<^verbatim>\<open>CscaSponge\<close> (\<^verbatim>\<open>zkpoh.rs\<close>). All 64-bit arithmetic is on
  words and wraps. The lemmas show that the three agree and that a streaming writer absorbs
  the concatenation of its inputs.
\<close>

section \<open>The shared mixing steps\<close>

definition FNV_PRIME :: "64 word" where
  "FNV_PRIME = 0x100000001B3"

definition avalanche :: "64 word \<Rightarrow> 64 word" where
  "avalanche h0 =
     (let h1 = (h0 XOR drop_bit 30 h0) * 0xBF58476D1CE4E5B9;
          h2 = (h1 XOR drop_bit 27 h1) * 0x94D049BB133111EB
      in h2 XOR drop_bit 31 h2)"

definition fnv_byte :: "64 word \<Rightarrow> byte \<Rightarrow> 64 word" where
  "fnv_byte h b = (h XOR ucast b) * FNV_PRIME"

definition lane_bases :: "64 word list" where
  "lane_bases = [0xcbf29ce484222325, 0x84222325cbf29ce4 * FNV_PRIME,
     0x10000000000001B3, 0xff00ff00ff00ff00]"

definition digest_of_lanes :: "64 word list \<Rightarrow> hash" where
  "digest_of_lanes lanes = hash_of_bytes (concat (map (\<lambda>h. be_bytes 8 (unat (avalanche h))) lanes))"

section \<open>The one-shot digest\<close>

definition fnv1a_lane :: "byte list \<Rightarrow> nat \<Rightarrow> 64 word \<Rightarrow> 64 word" where
  "fnv1a_lane data lane base = foldl fnv_byte (base XOR (of_nat lane + 1) * FNV_PRIME) data"

definition fnv1a_256 :: "byte list \<Rightarrow> hash" where
  "fnv1a_256 data = digest_of_lanes (map2 (fnv1a_lane data) [0..<4] lane_bases)"

section \<open>The streaming hasher of the state root\<close>

type_synonym hasher256 = "64 word list"

definition hasher_new :: hasher256 where
  "hasher_new = map2 (\<lambda>i l. l XOR (of_nat i + 1) * FNV_PRIME) [0..<4] lane_bases"

definition hasher_write :: "byte list \<Rightarrow> hasher256 \<Rightarrow> hasher256" where
  "hasher_write data lanes = map (\<lambda>lane. foldl fnv_byte lane data) lanes"

definition hasher_u64 :: "u64 \<Rightarrow> hasher256 \<Rightarrow> hasher256" where
  "hasher_u64 v = hasher_write (be_bytes 8 v)"

definition hasher_u128 :: "u128 \<Rightarrow> hasher256 \<Rightarrow> hasher256" where
  "hasher_u128 v = hasher_write (be_bytes 16 v)"

text \<open>Two's complement, big-endian.\<close>

definition hasher_i64 :: "i64 \<Rightarrow> hasher256 \<Rightarrow> hasher256" where
  "hasher_i64 v = hasher_write (be_bytes 8 (nat (v mod 2 ^ 64)))"

definition hasher_u8 :: "u8 \<Rightarrow> hasher256 \<Rightarrow> hasher256" where
  "hasher_u8 v = hasher_write [of_nat v]"

definition hasher_bytes :: "byte list \<Rightarrow> hasher256 \<Rightarrow> hasher256" where
  "hasher_bytes data h = hasher_write data (hasher_u64 (length data) h)"

definition hasher_finish :: "hasher256 \<Rightarrow> hash" where
  "hasher_finish = digest_of_lanes"

section \<open>The trust-anchor sponge\<close>

definition csca_sponge_new :: hasher256 where
  "csca_sponge_new = map2 (\<lambda>i l. l XOR (of_nat i + 1) * FNV_PRIME) [0..<4] lane_bases"

definition csca_sponge_write :: "byte list \<Rightarrow> hasher256 \<Rightarrow> hasher256" where
  "csca_sponge_write data lanes = map (\<lambda>z. foldl fnv_byte z data) lanes"

definition csca_sponge_u64 :: "u64 \<Rightarrow> hasher256 \<Rightarrow> hasher256" where
  "csca_sponge_u64 v = csca_sponge_write (be_bytes 8 v)"

definition csca_sponge_u8 :: "u8 \<Rightarrow> hasher256 \<Rightarrow> hasher256" where
  "csca_sponge_u8 v = csca_sponge_write [of_nat v]"

definition csca_sponge_bytes :: "byte list \<Rightarrow> hasher256 \<Rightarrow> hasher256" where
  "csca_sponge_bytes data h = csca_sponge_write data (csca_sponge_u64 (length data) h)"

definition csca_sponge_finish :: "hasher256 \<Rightarrow> hash" where
  "csca_sponge_finish = digest_of_lanes"

section \<open>Lemmas\<close>

lemma hasher_write_append: "hasher_write (a @ b) h = hasher_write b (hasher_write a h)"
  by (simp add: hasher_write_def)

lemma hasher_write_Nil [simp]: "hasher_write [] h = h"
  by (simp add: hasher_write_def)

lemma hasher_writes_concat: "fold hasher_write chunks h = hasher_write (concat chunks) h"
  by (induction chunks arbitrary: h) (simp_all add: hasher_write_append)

text \<open>
  The three copies of the digest agree, and the streaming form is the one-shot digest of
  everything written so far.
\<close>

lemma streaming_eq_one_shot: "hasher_finish (hasher_write data hasher_new) = fnv1a_256 data"
  by (simp add: hasher_finish_def hasher_write_def hasher_new_def fnv1a_256_def fnv1a_lane_def
      lane_bases_def upt_rec)

lemma streamed_chunks: "hasher_finish (fold hasher_write chunks hasher_new) = fnv1a_256 (concat chunks)"
  by (simp add: hasher_writes_concat streaming_eq_one_shot)

lemma csca_sponge_eq_hasher:
  "csca_sponge_new = hasher_new" "csca_sponge_write = hasher_write"
  "csca_sponge_u64 = hasher_u64" "csca_sponge_u8 = hasher_u8"
  "csca_sponge_bytes = hasher_bytes" "csca_sponge_finish = hasher_finish"
  by (simp_all add: fun_eq_iff csca_sponge_new_def hasher_new_def csca_sponge_write_def
      hasher_write_def csca_sponge_u64_def hasher_u64_def csca_sponge_u8_def hasher_u8_def
      csca_sponge_bytes_def hasher_bytes_def csca_sponge_finish_def hasher_finish_def)

end
