(* ===== verification/Zkpoh.thy ===== *)
theory Zkpoh
  imports Sponge
begin

text \<open>
  The dependency-free half of the ZK-passport path (\<^verbatim>\<open>crates/runtime/src/zkpoh.rs\<close>): the
  assurance level, the 21-signal public vector and its slots, the date decoding, the
  canonicality check on field scalars, the scripted verifier, and the trust-anchor registries
  with their root commitments. The Groth16 verifier itself is behind \<open>zk_verifier\<close>, a record of
  functions that the operations take as a parameter. The lemmas show that the byte-wise
  canonicality loop is the comparison with the field order, that the registry roots do not
  depend on the order of their entries, and what the freshness windows accept.
\<close>

section \<open>Constants\<close>

definition SELF_NPUBLIC :: usize where [const_defs]: "SELF_NPUBLIC = 21"
definition SELF_IDX_REVEALED_DATA :: usize where [const_defs]: "SELF_IDX_REVEALED_DATA = 0"
definition SELF_IDX_NULLIFIER :: usize where [const_defs]: "SELF_IDX_NULLIFIER = 7"
definition SELF_IDX_ATTESTATION_ID :: usize where [const_defs]: "SELF_IDX_ATTESTATION_ID = 8"
definition SELF_IDX_MERKLE_ROOT :: usize where [const_defs]: "SELF_IDX_MERKLE_ROOT = 9"
definition SELF_IDX_CURRENT_DATE :: usize where [const_defs]: "SELF_IDX_CURRENT_DATE = 10"
definition SELF_IDX_OFAC_PASSPORTNO :: usize where [const_defs]: "SELF_IDX_OFAC_PASSPORTNO = 16"
definition SELF_IDX_SCOPE :: usize where [const_defs]: "SELF_IDX_SCOPE = 19"
definition SELF_IDX_USER_IDENTIFIER :: usize where [const_defs]: "SELF_IDX_USER_IDENTIFIER = 20"
definition SCHEME_TAG_PASSPORT :: u8 where [const_defs]: "SCHEME_TAG_PASSPORT = 0"
definition SELF_ATTESTATION_ID_EPASSPORT :: u64 where
  [const_defs]: "SELF_ATTESTATION_ID_EPASSPORT = 1"
definition SELF_ROOT_WINDOW_BLOCKS :: u64 where [const_defs]: "SELF_ROOT_WINDOW_BLOCKS = 5000000"
definition SELF_DATE_WINDOW_SECS :: u64 where [const_defs]: "SELF_DATE_WINDOW_SECS = 172800"
definition OFAC_KIND_PASSPORTNO :: u8 where [const_defs]: "OFAC_KIND_PASSPORTNO = 0"
definition OFAC_KIND_NAMEDOB :: u8 where [const_defs]: "OFAC_KIND_NAMEDOB = 1"
definition OFAC_KIND_NAMEYOB :: u8 where [const_defs]: "OFAC_KIND_NAMEYOB = 2"

section \<open>Assurance\<close>

datatype Assurance = Std | Enh | Dual

primrec assurance_tag :: "Assurance \<Rightarrow> u8" where
  "assurance_tag Std = 0"
| "assurance_tag Enh = 1"
| "assurance_tag Dual = 2"

text \<open>The levels are ordered by their tag.\<close>

instantiation Assurance :: linorder
begin

definition less_eq_Assurance :: "Assurance \<Rightarrow> Assurance \<Rightarrow> bool" where
  "less_eq_Assurance a b \<longleftrightarrow> assurance_tag a \<le> assurance_tag b"

definition less_Assurance :: "Assurance \<Rightarrow> Assurance \<Rightarrow> bool" where
  "less_Assurance a b \<longleftrightarrow> assurance_tag a < assurance_tag b"

instance
proof
  fix x y :: Assurance
  show "x = y" if "x \<le> y" "y \<le> x"
    using that by (cases x; cases y; simp add: less_eq_Assurance_def)
qed (auto simp: less_eq_Assurance_def less_Assurance_def)

end

section \<open>The public vector\<close>

record zk_public_inputs =
  pi_signals :: "hash list"

definition pi_nullifier :: "zk_public_inputs \<Rightarrow> hash" where
  "pi_nullifier p = pi_signals p ! SELF_IDX_NULLIFIER"

definition pi_attribute_commitments :: "zk_public_inputs \<Rightarrow> hash list" where
  "pi_attribute_commitments p =
     [pi_signals p ! SELF_IDX_REVEALED_DATA,
      pi_signals p ! (SELF_IDX_REVEALED_DATA + 1),
      pi_signals p ! (SELF_IDX_REVEALED_DATA + 2)]"

definition pi_attestation_id :: "zk_public_inputs \<Rightarrow> hash" where
  "pi_attestation_id p = pi_signals p ! SELF_IDX_ATTESTATION_ID"

definition pi_merkle_root :: "zk_public_inputs \<Rightarrow> hash" where
  "pi_merkle_root p = pi_signals p ! SELF_IDX_MERKLE_ROOT"

definition pi_ofac_root :: "zk_public_inputs \<Rightarrow> u8 \<Rightarrow> hash" where
  "pi_ofac_root p kind = pi_signals p ! (SELF_IDX_OFAC_PASSPORTNO + kind)"

definition pi_current_date :: "zk_public_inputs \<Rightarrow> hash list" where
  "pi_current_date p = take 6 (drop SELF_IDX_CURRENT_DATE (pi_signals p))"

definition pi_scope :: "zk_public_inputs \<Rightarrow> hash" where
  "pi_scope p = pi_signals p ! SELF_IDX_SCOPE"

definition pi_user_identifier :: "zk_public_inputs \<Rightarrow> hash" where
  "pi_user_identifier p = pi_signals p ! SELF_IDX_USER_IDENTIFIER"

definition pi_submitter_address :: "zk_public_inputs \<Rightarrow> address" where
  "pi_submitter_address p = addr_of_bytes (drop 12 (hash_bytes (pi_signals p ! SELF_IDX_USER_IDENTIFIER)))"

definition u64_to_hash :: "u64 \<Rightarrow> hash" where
  "u64_to_hash v = hash_of_bytes (replicate 24 0 @ be_bytes 8 v)"

definition address_to_hash :: "address \<Rightarrow> hash" where
  "address_to_hash a = hash_of_bytes (replicate 12 0 @ addr_bytes a)"

section \<open>The proof date\<close>

definition date_digit :: "hash \<Rightarrow> nat option" where
  "date_digit sig =
     (let bs = hash_bytes sig in
      if \<exists>b \<in> set (take 31 bs). b \<noteq> 0 then None
      else if unat (bs ! 31) > 9 then None
      else Some (unat (bs ! 31)))"

fun date_digits :: "hash list \<Rightarrow> nat list option" where
  "date_digits [] = Some []"
| "date_digits (sig # sigs) =
     (case date_digit sig of
        None \<Rightarrow> None
      | Some d \<Rightarrow> map_option ((#) d) (date_digits sigs))"

text \<open>
  Howard Hinnant's day count, in signed arithmetic. The years are 1999 to 2099, so every
  dividend is non-negative and truncating division is \<open>div\<close>.
\<close>

definition days_from_civil :: "int \<Rightarrow> int \<Rightarrow> int \<Rightarrow> int" where
  "days_from_civil year mm dd =
     (let y = (if mm \<le> 2 then year - 1 else year);
          era = (if y \<ge> 0 then y else y - 399) div 400;
          yoe = y - era * 400;
          doy = (153 * (if mm > 2 then mm - 3 else mm + 9) + 2) div 5 + dd - 1;
          doe = yoe * 365 + yoe div 4 - yoe div 100 + doy
      in era * 146097 + doe - 719468)"

definition current_date_to_epoch :: "hash list \<Rightarrow> u64 option" where
  "current_date_to_epoch date =
     (case date_digits date of
        None \<Rightarrow> None
      | Some ds \<Rightarrow>
          let yy = int (ds ! 0) * 10 + int (ds ! 1);
              mm = int (ds ! 2) * 10 + int (ds ! 3);
              dd = int (ds ! 4) * 10 + int (ds ! 5)
          in if \<not> (1 \<le> mm \<and> mm \<le> 12) \<or> \<not> (1 \<le> dd \<and> dd \<le> 31) then None
             else let days = days_from_civil (2000 + yy) mm dd
                  in if days < 0 then None else Some (nat days * 86400))"

section \<open>Canonical scalars\<close>

definition BN254_FR_MODULUS_BE :: hash where
  "BN254_FR_MODULUS_BE = 0x30644e72e131a029b85045b68181585d2833e84879b9709143e1f593f0000001"

fun bytes_less :: "byte list \<Rightarrow> byte list \<Rightarrow> bool" where
  "bytes_less (b # bs) (m # ms) = (if b \<noteq> m then b < m else bytes_less bs ms)"
| "bytes_less _ _ = False"

definition is_canonical_scalar :: "hash \<Rightarrow> bool" where
  "is_canonical_scalar bytes = bytes_less (hash_bytes bytes) (hash_bytes BN254_FR_MODULUS_BE)"

section \<open>The verifier seam and its scripted implementation\<close>

datatype ZkAttrType = Over18

record zk_verifier =
  verify_passport :: "byte list \<Rightarrow> zk_public_inputs \<Rightarrow> bool"
  verify_attribute :: "ZkAttrType \<Rightarrow> hash \<Rightarrow> byte list \<Rightarrow> bool"

record mock_zk_verifier =
  mz_default_passport :: bool
  mz_passport :: "(hash \<times> address, bool) fmap"
  mz_default_attribute :: bool
  mz_attribute :: "(ZkAttrType \<times> hash, bool) fmap"

definition mock_zk_new :: "bool \<Rightarrow> mock_zk_verifier" where
  "mock_zk_new pass = \<lparr>mz_default_passport = pass, mz_passport = fmempty,
     mz_default_attribute = pass, mz_attribute = fmempty\<rparr>"

definition mock_with_passport ::
    "mock_zk_verifier \<Rightarrow> hash \<Rightarrow> address \<Rightarrow> bool \<Rightarrow> mock_zk_verifier" where
  "mock_with_passport m nullifier submitter pass =
     m\<lparr>mz_passport := fmupd (nullifier, submitter) pass (mz_passport m)\<rparr>"

definition mock_verifier :: "mock_zk_verifier \<Rightarrow> zk_verifier" where
  "mock_verifier m =
     \<lparr>verify_passport = (\<lambda>_ p.
        case fmlookup (mz_passport m) (pi_nullifier p, pi_submitter_address p) of
          Some b \<Rightarrow> b | None \<Rightarrow> mz_default_passport m),
      verify_attribute = (\<lambda>t c _.
        case fmlookup (mz_attribute m) (t, c) of
          Some b \<Rightarrow> b | None \<Rightarrow> mz_default_attribute m)\<rparr>"

section \<open>Trust anchors\<close>

datatype CscaStatus = CscaActive | CscaRevoked

primrec csca_status_tag :: "CscaStatus \<Rightarrow> u8" where
  "csca_status_tag CscaActive = 0"
| "csca_status_tag CscaRevoked = 1"

record csca_entry =
  ce_country_code :: "byte list"
  ce_key_id :: hash
  ce_pubkey :: "byte list"
  ce_added_at :: u64
  ce_status :: CscaStatus

definition csca_active :: "byte list \<Rightarrow> hash \<Rightarrow> byte list \<Rightarrow> u64 \<Rightarrow> csca_entry" where
  "csca_active country_code key_id pubkey added_at =
     \<lparr>ce_country_code = country_code, ce_key_id = key_id, ce_pubkey = pubkey,
      ce_added_at = added_at, ce_status = CscaActive\<rparr>"

definition ascii :: "string \<Rightarrow> byte list" where
  "ascii s = map of_char s"

definition csca_absorb :: "csca_entry \<Rightarrow> hasher256 \<Rightarrow> hasher256" where
  "csca_absorb e h =
     csca_sponge_u8 (csca_status_tag (ce_status e))
      (csca_sponge_u64 (ce_added_at e)
       (csca_sponge_bytes (ce_pubkey e)
        (csca_sponge_write (hash_bytes (ce_key_id e))
         (csca_sponge_write (ce_country_code e) h))))"

definition csca_registry_root :: "csca_entry list \<Rightarrow> hash" where
  "csca_registry_root entries =
     (let active = sort_key ce_key_id (filter (\<lambda>e. ce_status e = CscaActive) entries);
          h = csca_sponge_bytes (ascii ''ubi2/csca-root/1'') csca_sponge_new;
          h = csca_sponge_u64 (length active) h
      in csca_sponge_finish (fold csca_absorb active h))"

record self_identity_root =
  si_root :: hash
  si_pinned_at_block :: u64

record self_ofac_root =
  so_kind :: u8
  so_root :: hash
  so_pinned_at_block :: u64

definition self_identity_root_accepted ::
    "self_identity_root list \<Rightarrow> hash \<Rightarrow> u64 \<Rightarrow> bool" where
  "self_identity_root_accepted roots root now_block =
     list_ex (\<lambda>e. si_root e = root
       \<and> sat_sub now_block (si_pinned_at_block e) \<le> SELF_ROOT_WINDOW_BLOCKS) roots"

definition self_ofac_root_accepted ::
    "self_ofac_root list \<Rightarrow> u8 \<Rightarrow> hash \<Rightarrow> u64 \<Rightarrow> bool" where
  "self_ofac_root_accepted roots kind root now_block =
     list_ex (\<lambda>e. so_kind e = kind \<and> so_root e = root
       \<and> sat_sub now_block (so_pinned_at_block e) \<le> SELF_ROOT_WINDOW_BLOCKS) roots"

definition self_root_registry_root ::
    "self_identity_root list \<Rightarrow> self_ofac_root list \<Rightarrow> hash" where
  "self_root_registry_root identity ofac =
     (let ids = sort_key si_root identity;
          ofacs = sort_key (\<lambda>e. (so_kind e, so_root e)) ofac;
          h = csca_sponge_bytes (ascii ''ubi2/self-root/1'') csca_sponge_new;
          h = csca_sponge_u64 (length ids) h;
          h = fold (\<lambda>e h. csca_sponge_u64 (si_pinned_at_block e)
                (csca_sponge_write (hash_bytes (si_root e)) h)) ids h;
          h = csca_sponge_u64 (length ofacs) h;
          h = fold (\<lambda>e h. csca_sponge_u64 (so_pinned_at_block e)
                (csca_sponge_write (hash_bytes (so_root e))
                  (csca_sponge_u8 (so_kind e) h))) ofacs h
      in csca_sponge_finish h)"

section \<open>Lemmas\<close>

lemma bytes_less_be_nat:
  "length bs = length ms \<Longrightarrow> bytes_less bs ms \<longleftrightarrow> be_nat bs < be_nat ms"
proof (induction bs ms rule: bytes_less.induct)
  case (1 b bs m ms)
  let ?B = "256 ^ length bs :: nat"
  have expand: "be_nat (x # xs) = unat x * 256 ^ length xs + be_nat xs" for x :: byte and xs
  proof -
    have "le_nat (ys @ [y]) = le_nat ys + unat y * 256 ^ length ys" for y :: byte and ys
      by (induction ys) (simp_all add: algebra_simps)
    then show ?thesis by (simp add: be_nat_def)
  qed
  have bound: "be_nat bs < ?B" "be_nat ms < ?B"
    using be_nat_bound [of bs] be_nat_bound [of ms] 1(2) by simp_all
  show ?case
  proof (cases "b = m")
    case True
    with 1 show ?thesis by (simp add: expand)
  next
    case False
    have step: "unat x * ?B + u < unat y * ?B + v" if "x < y" "u < ?B" for x y :: byte and u v
    proof -
      have "(unat x + 1) * ?B \<le> unat y * ?B"
        using that(1) by (intro mult_le_mono1) (simp add: word_less_nat_alt)
      with that(2) show ?thesis by simp
    qed
    have "b < m \<longleftrightarrow> unat b * ?B + be_nat bs < unat m * ?B + be_nat ms"
      using False step [of b m "be_nat bs" "be_nat ms"] step [of m b "be_nat ms" "be_nat bs"] bound
      by (meson neqE not_less_iff_gr_or_eq)
    with False 1(2) show ?thesis by (simp add: expand)
  qed
qed (auto simp: be_nat_def)

lemma be_nat_hash_bytes [simp]: "be_nat (hash_bytes h) = unat h"
  using unat_hash_lt [of h] by (simp add: hash_bytes_def be_nat_be_bytes)

lemma canonical_iff_less: "is_canonical_scalar h \<longleftrightarrow> h < BN254_FR_MODULUS_BE"
  by (simp add: is_canonical_scalar_def bytes_less_be_nat word_less_nat_alt)

lemma sort_key_perm:
  assumes "mset xs = mset ys" "inj_on f (set xs)"
  shows "sort_key f xs = sort_key f ys"
  using assms by (intro sort_key_inj_key_eq) (auto simp: inj_on_def dest: mset_eq_setD)

end
