(* ===== verification/Accounts.thy ===== *)
theory Accounts
  imports Ubi_Prelude
begin

text \<open>
  Accounts and the fee schedule (\<^verbatim>\<open>crates/runtime/src/lib.rs\<close>): the protocol constants, the
  account record, streaming emission (\<^verbatim>\<open>pending_emission\<close>, \<^verbatim>\<open>balance\<close>, \<^verbatim>\<open>settle\<close>), the
  per-kind gas and the fee it costs, and the round-robin proposer index. The lemmas show that
  emission is exactly one UBI per hour, that settling neither creates value nor changes the
  balance read at the same instant, and that splitting a period over two settlements loses at
  most one base unit.
\<close>

section \<open>Constants\<close>

definition UBI :: u128 where [const_defs]: "UBI = 1000000000000000000"
definition EMISSION_PERIOD_SECS :: u64 where [const_defs]: "EMISSION_PERIOD_SECS = 3600"
definition GAS_PRICE_WEI :: u128 where [const_defs]: "GAS_PRICE_WEI = 1000000000"
definition GAS_TRANSFER :: u64 where [const_defs]: "GAS_TRANSFER = 21000"
definition GAS_STREAM :: u64 where [const_defs]: "GAS_STREAM = 60000"
definition GAS_HUMANITY :: u64 where [const_defs]: "GAS_HUMANITY = 80000"
definition GAS_ZKPOH :: u64 where [const_defs]: "GAS_ZKPOH = 250000"
definition GAS_CSCA_GOV :: u64 where [const_defs]: "GAS_CSCA_GOV = 80000"
definition GAS_ONBOARD :: u64 where [const_defs]: "GAS_ONBOARD = 0"
definition GAS_CONTRACT :: u64 where [const_defs]: "GAS_CONTRACT = 120000"
definition GAS_PER_TEXT_BYTE :: u64 where [const_defs]: "GAS_PER_TEXT_BYTE = 16"
definition MAX_CONTRACT_TEXT_BYTES :: usize where [const_defs]: "MAX_CONTRACT_TEXT_BYTES = 8192"
definition MAX_CONTRACT_PARTIES :: usize where [const_defs]: "MAX_CONTRACT_PARTIES = 16"
definition EPOCH_BLOCKS :: u64 where [const_defs]: "EPOCH_BLOCKS = 100"
definition VIEW_MAX :: u32 where [const_defs]: "VIEW_MAX = 1024"
definition MAX_RATE :: u128 where [const_defs]: "MAX_RATE = 1000 * UBI div EMISSION_PERIOD_SECS"

text \<open>The reserved addresses \<^verbatim>\<open>0x...5542\<close> and \<^verbatim>\<open>0x...5043\<close>.\<close>

definition TREASURY :: address where [const_defs]: "TREASURY = 0x5542"
definition CONTRACT_HUB :: address where [const_defs]: "CONTRACT_HUB = 0x5043"

definition gas_for_deploy :: "usize \<Rightarrow> u64" where
  "gas_for_deploy text_len = sat_add64 GAS_CONTRACT (sat_mul64 GAS_PER_TEXT_BYTE text_len)"

definition fee_for_gas :: "u64 \<Rightarrow> u128" where
  "fee_for_gas gas = gas * GAS_PRICE_WEI"

definition proposer_index :: "u64 \<Rightarrow> u32 \<Rightarrow> usize \<Rightarrow> usize" where
  "proposer_index height view n = (if n = 0 then 0 else (height + view) mod n)"

datatype FeeError = InsufficientForFee u128 u128  \<comment> \<open>have, fee\<close>

section \<open>The account record and emission\<close>

record account =
  acc_address :: address
  acc_verified :: bool
  acc_verified_at :: u64
  acc_settled_balance :: u128
  acc_last_settled_at :: u64
  acc_nonce :: u64

text \<open>\<^verbatim>\<open>Account { address, ..Default::default() }\<close>\<close>

definition fresh_account :: "address \<Rightarrow> account" where
  "fresh_account a = \<lparr>acc_address = a, acc_verified = False, acc_verified_at = 0,
     acc_settled_balance = 0, acc_last_settled_at = 0, acc_nonce = 0\<rparr>"

definition emission_since :: "account \<Rightarrow> u64" where
  "emission_since a = max (acc_last_settled_at a) (acc_verified_at a)"

definition pending_emission :: "account \<Rightarrow> u64 \<Rightarrow> u128" where
  "pending_emission a now =
     (if \<not> acc_verified a then 0
      else let since = max (acc_last_settled_at a) (acc_verified_at a);
               elapsed = sat_sub now since
           in sat_mul128 UBI elapsed div EMISSION_PERIOD_SECS)"

definition acc_balance :: "account \<Rightarrow> u64 \<Rightarrow> u128" where
  "acc_balance a now = sat_add128 (acc_settled_balance a) (pending_emission a now)"

definition settle :: "account \<Rightarrow> u64 \<Rightarrow> account" where
  "settle a now =
     (let pending = pending_emission a now;
          a' = a\<lparr>acc_settled_balance := sat_add128 (acc_settled_balance a) pending\<rparr>
      in if now > acc_last_settled_at a then a'\<lparr>acc_last_settled_at := now\<rparr> else a')"

text \<open>The ranges of the record's machine integers.\<close>

definition account_ok :: "account \<Rightarrow> bool" where
  "account_ok a \<longleftrightarrow> acc_verified_at a \<le> U64_MAX \<and> acc_settled_balance a \<le> U128_MAX
     \<and> acc_last_settled_at a \<le> U64_MAX \<and> acc_nonce a \<le> U64_MAX"

section \<open>Lemmas\<close>

lemma fresh_account_simps [simp]:
  "acc_address (fresh_account a) = a" "acc_verified (fresh_account a) = False"
  "acc_settled_balance (fresh_account a) = 0" "acc_nonce (fresh_account a) = 0"
  "acc_verified_at (fresh_account a) = 0" "acc_last_settled_at (fresh_account a) = 0"
  by (simp_all add: fresh_account_def)

lemma pending_fresh [simp]: "pending_emission (fresh_account a) now = 0"
  by (simp add: pending_emission_def)

lemma balance_fresh [simp]: "acc_balance (fresh_account a) now = 0"
  by (simp add: acc_balance_def)

lemma account_ok_fresh [simp]: "account_ok (fresh_account a)"
  by (simp add: account_ok_def)

lemma settle_frame [simp]:
  "acc_address (settle a now) = acc_address a" "acc_verified (settle a now) = acc_verified a"
  "acc_verified_at (settle a now) = acc_verified_at a" "acc_nonce (settle a now) = acc_nonce a"
  by (simp_all add: settle_def Let_def)

lemma settle_last [simp]: "acc_last_settled_at (settle a now) = max (acc_last_settled_at a) now"
  by (simp add: settle_def Let_def)

lemma settle_settled_balance [simp]: "acc_settled_balance (settle a now) = acc_balance a now"
  by (simp add: settle_def Let_def acc_balance_def)

lemma pending_after_settle [simp]: "t \<le> now \<Longrightarrow> pending_emission (settle a now) t = 0"
  by (auto simp: pending_emission_def Let_def sat_mul128_def)

lemma balance_le [simp]: "acc_balance a now \<le> U128_MAX"
  by (simp add: acc_balance_def)

lemma balance_after_settle [simp]: "acc_balance (settle a now) now = acc_balance a now"
  by (simp add: acc_balance_def [of "settle a now"])

lemma settle_idem: "settle (settle a now) now = settle a now"
  by (rule account.equality) simp_all

lemma account_ok_settle [simp]: "account_ok a \<Longrightarrow> now \<le> U64_MAX \<Longrightarrow> account_ok (settle a now)"
  by (simp add: account_ok_def)

lemma settled_le_balance: "account_ok a \<Longrightarrow> acc_settled_balance a \<le> acc_balance a now"
  by (simp add: account_ok_def acc_balance_def sat_add128_def)

text \<open>The product \<^verbatim>\<open>UBI * elapsed\<close> cannot saturate for a 64-bit clock.\<close>

lemma emission_no_saturation: "t \<le> U64_MAX \<Longrightarrow> sat_mul128 UBI t = UBI * t"
  by (simp add: sat_mul128_def arith_defs const_defs)

lemma pending_verified:
  assumes "acc_verified a" and "now \<le> U64_MAX"
  shows "pending_emission a now = UBI * (now - emission_since a) div EMISSION_PERIOD_SECS"
  using assms emission_no_saturation [of "now - emission_since a"]
  by (simp add: pending_emission_def emission_since_def Let_def)

lemma pending_mono:
  assumes "t \<le> t'"
  shows "pending_emission a t \<le> pending_emission a t'"
  using assms by (simp add: pending_emission_def Let_def div_le_mono sat_mul128_mono)

lemma balance_mono: "t \<le> t' \<Longrightarrow> acc_balance a t \<le> acc_balance a t'"
  by (simp add: acc_balance_def sat_add128_mono pending_mono)

text \<open>Splitting a truncated quotient loses at most one.\<close>

lemma div_add_bounds:
  fixes x y d :: nat
  assumes "0 < d"
  shows "x div d + y div d \<le> (x + y) div d" and "(x + y) div d \<le> x div d + y div d + 1"
proof -
  have "(x + y) div d = x div d + y div d + (x mod d + y mod d) div d"
    by (rule div_add1_eq)
  moreover have "(x mod d + y mod d) div d < 2"
    using add_strict_mono [OF mod_less_divisor [OF assms, of x] mod_less_divisor [OF assms, of y]]
    by (intro less_mult_imp_div_less) simp
  ultimately show "x div d + y div d \<le> (x + y) div d"
    and "(x + y) div d \<le> x div d + y div d + 1"
    by simp_all
qed

lemma pending_split:
  assumes "acc_verified a" "emission_since a \<le> t" "t \<le> t'" "t' \<le> U64_MAX"
  shows "pending_emission a t + pending_emission (settle a t) t' \<le> pending_emission a t'"
    and "pending_emission a t' \<le> pending_emission a t + pending_emission (settle a t) t' + 1"
proof -
  let ?x = "UBI * (t - emission_since a)" and ?y = "UBI * (t' - t)"
  have since: "emission_since (settle a t) = t"
    using assms by (simp add: emission_since_def)
  have sum: "UBI * (t' - emission_since a) = ?x + ?y"
    using assms by (simp flip: add_mult_distrib2)
  have "pending_emission a t' = (?x + ?y) div EMISSION_PERIOD_SECS"
    using assms by (simp add: pending_verified sum)
  moreover have "pending_emission a t = ?x div EMISSION_PERIOD_SECS"
    using assms by (simp add: pending_verified)
  moreover have "pending_emission (settle a t) t' = ?y div EMISSION_PERIOD_SECS"
    using assms since by (simp add: pending_verified)
  ultimately show "pending_emission a t + pending_emission (settle a t) t' \<le> pending_emission a t'"
    and "pending_emission a t' \<le> pending_emission a t + pending_emission (settle a t) t' + 1"
    using div_add_bounds [of EMISSION_PERIOD_SECS ?x ?y]
    by (simp_all add: EMISSION_PERIOD_SECS_def)
qed

end
