(* ===== verification/Streams.thy ===== *)
theory Streams
  imports Accounts
begin

text \<open>
  The collateralised payment stream (\<^verbatim>\<open>Stream\<close> and its methods in
  \<^verbatim>\<open>crates/runtime/src/lib.rs\<close>). The lemmas show solvency (a stream never accrues more than
  its deposit), monotone accrual, that an uninterrupted stream has paid its whole deposit at
  \<^verbatim>\<open>t_end\<close>, and that a stopped stream accrues nothing further. The well-formedness predicate
  \<open>stream_ok\<close> is the invariant every stream operation keeps.
\<close>

datatype StreamStatus = Active | Stopped u64 | Completed

record stream =
  st_id :: u64
  st_from :: address
  st_to :: address
  st_rate :: u128
  st_deposit :: u128
  st_drawn :: u128
  st_started_at :: u64
  st_status :: StreamStatus

datatype StreamError =
    SelfStream
  | ZeroRate
  | ZeroDeposit
  | RateTooHigh u128 u128
  | StreamInsufficientBalance u128 u128
  | NoSuchStream u64
  | NotSender
  | NotActive

definition t_end :: "stream \<Rightarrow> u64" where
  "t_end s =
     (if st_rate s = 0 then st_started_at s
      else let whole = st_deposit s div st_rate s;
               rem = st_deposit s mod st_rate s
           in sat_add64
                (sat_add64 (st_started_at s) (if whole \<le> U64_MAX then whole else U64_MAX))
                (if rem > 0 then 1 else 0))"

definition end_or_stop :: "stream \<Rightarrow> u64" where
  "end_or_stop s =
     (case st_status s of Stopped at \<Rightarrow> min at (t_end s) | _ \<Rightarrow> t_end s)"

definition accrued :: "stream \<Rightarrow> u64 \<Rightarrow> u128" where
  "accrued s now =
     (let until = min now (end_or_stop s);
          elapsed = sat_sub until (st_started_at s)
      in min (sat_mul128 (st_rate s) elapsed) (st_deposit s))"

text \<open>What an immediate settlement still owes, and what the sender's collateral still holds.\<close>

definition owed :: "stream \<Rightarrow> u64 \<Rightarrow> u128" where
  "owed s now = sat_sub (accrued s now) (st_drawn s)"

definition locked :: "stream \<Rightarrow> nat" where
  "locked s = (case st_status s of Stopped _ \<Rightarrow> 0 | _ \<Rightarrow> st_deposit s - st_drawn s)"

definition stream_ok :: "stream \<Rightarrow> bool" where
  "stream_ok s \<longleftrightarrow>
     0 < st_rate s \<and> st_rate s \<le> MAX_RATE \<and> 0 < st_deposit s \<and> st_deposit s \<le> U128_MAX
     \<and> st_drawn s \<le> st_deposit s \<and> st_started_at s \<le> U64_MAX \<and> st_from s \<noteq> st_to s
     \<and> (case st_status s of
          Active \<Rightarrow> st_drawn s < st_deposit s
        | Stopped at \<Rightarrow> accrued s at \<le> st_drawn s
        | Completed \<Rightarrow> st_drawn s = st_deposit s)"

section \<open>Lemmas\<close>

lemma accrued_le_deposit [simp]: "accrued s now \<le> st_deposit s"
  by (simp add: accrued_def Let_def)

lemma t_end_frame [simp]:
  "t_end (s\<lparr>st_drawn := d\<rparr>) = t_end s" "t_end (s\<lparr>st_status := x\<rparr>) = t_end s"
  by (simp_all add: t_end_def)

text \<open>Accrual is monotone in the instant up to which it counts.\<close>

lemma accrued_le_accrued:
  assumes "min t (end_or_stop s) \<le> min t' (end_or_stop s')"
    and "st_rate s = st_rate s'" "st_started_at s = st_started_at s'" "st_deposit s = st_deposit s'"
  shows "accrued s t \<le> accrued s' t'"
  unfolding accrued_def Let_def assms(2-4)
  by (intro min.mono sat_mul128_mono diff_le_mono assms(1) order_refl)

lemma accrued_mono: "t \<le> t' \<Longrightarrow> accrued s t \<le> accrued s t'"
  by (rule accrued_le_accrued) auto

lemma accrued_before_start: "now \<le> st_started_at s \<Longrightarrow> accrued s now = 0"
  by (simp add: accrued_def Let_def sat_mul128_def)

lemma accrued_drawn [simp]: "accrued (s\<lparr>st_drawn := d\<rparr>) now = accrued s now"
  by (simp add: accrued_def end_or_stop_def split: StreamStatus.split)

lemma accrued_stop_le:
  "st_status s = Active \<or> st_status s = Completed \<Longrightarrow>
     accrued (s\<lparr>st_status := Stopped at\<rparr>) now \<le> accrued s at"
  by (rule accrued_le_accrued) (auto simp: end_or_stop_def)

lemma accrued_frozen: "st_status s = Stopped at \<Longrightarrow> accrued s now \<le> accrued s at"
  by (rule accrued_le_accrued) (auto simp: end_or_stop_def)

lemma accrued_completed [simp]:
  "st_status s = Active \<Longrightarrow> accrued (s\<lparr>st_status := Completed\<rparr>) now = accrued s now"
  by (simp add: accrued_def end_or_stop_def split: StreamStatus.split)

text \<open>With room for the end time in 64 bits, the deposit is fully paid at \<^verbatim>\<open>t_end\<close>.\<close>

lemma t_end_covers:
  assumes "0 < st_rate s" and "st_started_at s + st_deposit s div st_rate s + 1 \<le> U64_MAX"
  shows "st_deposit s \<le> st_rate s * (t_end s - st_started_at s)"
    and "st_started_at s \<le> t_end s"
proof -
  let ?w = "st_deposit s div st_rate s" and ?r = "st_deposit s mod st_rate s"
  have t: "t_end s = st_started_at s + ?w + (if ?r > 0 then 1 else 0)"
    using assms by (simp add: t_end_def Let_def sat_add64_def)
  have "?r \<le> st_rate s * (if ?r > 0 then 1 else 0)"
    using mod_less_divisor [OF assms(1), of "st_deposit s"] by simp
  then have "st_rate s * ?w + ?r \<le> st_rate s * (?w + (if ?r > 0 then 1 else 0))"
    by (simp only: add_mult_distrib2 add_le_cancel_left)
  then show "st_deposit s \<le> st_rate s * (t_end s - st_started_at s)"
    by (simp only: t mult_div_mod_eq) simp
  show "st_started_at s \<le> t_end s"
    by (simp add: t)
qed

lemma accrued_full:
  assumes "st_status s = Active" "0 < st_rate s" "st_deposit s \<le> U128_MAX"
    and "st_started_at s + st_deposit s div st_rate s + 1 \<le> U64_MAX" "t_end s \<le> now"
  shows "accrued s now = st_deposit s"
proof -
  have "st_deposit s \<le> sat_mul128 (st_rate s) (t_end s - st_started_at s)"
    using t_end_covers [OF assms(2,4)] assms(3) by (simp add: sat_mul128_def)
  then show ?thesis
    using assms by (simp add: accrued_def Let_def end_or_stop_def)
qed

text \<open>The closed form of the accrual of an active stream.\<close>

lemma accrued_exact:
  assumes "st_status s = Active" "0 < st_rate s" "st_deposit s \<le> U128_MAX"
    and "st_started_at s + st_deposit s div st_rate s + 1 \<le> U64_MAX"
  shows "accrued s now = min (st_rate s * (now - st_started_at s)) (st_deposit s)"
proof (cases "t_end s \<le> now")
  case True
  have "st_rate s * (t_end s - st_started_at s) \<le> st_rate s * (now - st_started_at s)"
    using True by (intro mult_le_mono2) simp
  then have "st_deposit s \<le> st_rate s * (now - st_started_at s)"
    using t_end_covers(1) [OF assms(2,4)] by linarith
  then show ?thesis
    using accrued_full [OF assms True] by simp
next
  case False
  then show ?thesis
    using assms(1,3) by (simp add: accrued_def Let_def end_or_stop_def sat_mul128_def)
qed

lemma stream_ok_drawn: "stream_ok s \<Longrightarrow> st_drawn s \<le> st_deposit s"
  by (simp add: stream_ok_def)

lemma owed_inactive: "stream_ok s \<Longrightarrow> st_status s \<noteq> Active \<Longrightarrow> owed s now = 0"
  using accrued_frozen [of s _ now] order_trans
  by (cases "st_status s") (fastforce simp: stream_ok_def owed_def)+

lemma owed_le_locked: "stream_ok s \<Longrightarrow> owed s now \<le> locked s"
  using owed_inactive [of s now] accrued_le_deposit [of s now]
  by (cases "st_status s") (auto simp: owed_def locked_def simp del: accrued_le_deposit)

end
