(* ===== verification/Humanity.thy ===== *)
theory Humanity
  imports Zkpoh Streams
begin

unbundle bit_operations_syntax

text \<open>
  The proof-of-humanity substrate (\<^verbatim>\<open>crates/runtime/src/humanity.rs\<close>): verdicts, human
  records, cases and jurors, the oracle seam with its scripted implementation, the seeded jury
  selection and the generic quorum tally. The tally is generic over a grouping key and a
  committable test, Rust's \<^verbatim>\<open>QuorumEq\<close> trait, stated here as the locale \<open>quorum_eq\<close>; its
  client lemmas give safety, uniqueness, independence of the voting order and stability of a
  decision, and the interpretations on verdicts and on effect hashes carry them to both users.
\<close>

section \<open>Constants\<close>

definition MIN_VOUCHES :: usize where [const_defs]: "MIN_VOUCHES = 2"
definition VOUCH_CAPACITY :: usize where [const_defs]: "VOUCH_CAPACITY = 10"
definition JURY_SIZE :: usize where [const_defs]: "JURY_SIZE = 3"
definition QUORUM :: usize where [const_defs]: "QUORUM = 2"
definition CHALLENGE_WINDOW :: u64 where [const_defs]: "CHALLENGE_WINDOW = 5"
definition SYBIL_SLASH :: i64 where [const_defs]: "SYBIL_SLASH = 100"
definition FALSE_CHALLENGE_SLASH :: i64 where [const_defs]: "FALSE_CHALLENGE_SLASH = 50"

section \<open>Verdicts and the oracle seam\<close>

datatype Verdict = VHuman | VSybil | VUncertain
datatype Confidence = Low | Med | High

record canonical_verdict =
  cv_verdict :: Verdict
  cv_confidence :: Confidence
  cv_reasons_hash :: hash

definition verdict_new :: "Verdict \<Rightarrow> Confidence \<Rightarrow> canonical_verdict" where
  "verdict_new v c = \<lparr>cv_verdict = v, cv_confidence = c, cv_reasons_hash = 0\<rparr>"

definition quorum_eq_verdict :: "canonical_verdict \<Rightarrow> canonical_verdict \<Rightarrow> bool" where
  "quorum_eq_verdict a b \<longleftrightarrow> cv_verdict a = cv_verdict b \<and> cv_confidence a = cv_confidence b"

record graph_view =
  gv_edges :: "(address \<times> address) list"

record humanity_oracle =
  grade_liveness :: "byte list \<Rightarrow> byte list \<Rightarrow> canonical_verdict"
  analyze_sybil :: "graph_view \<Rightarrow> address \<Rightarrow> canonical_verdict"
  adjudicate :: "byte list \<Rightarrow> canonical_verdict"

record mock_oracle_data =
  mo_default :: canonical_verdict
  mo_liveness :: "(byte list, canonical_verdict) fmap"
  mo_sybil :: "(address, canonical_verdict) fmap"
  mo_evidence :: "(byte list, canonical_verdict) fmap"

definition mock_oracle_new :: "canonical_verdict \<Rightarrow> mock_oracle_data" where
  "mock_oracle_new d = \<lparr>mo_default = d, mo_liveness = fmempty, mo_sybil = fmempty,
     mo_evidence = fmempty\<rparr>"

definition mock_oracle_default :: mock_oracle_data where
  "mock_oracle_default = mock_oracle_new (verdict_new VHuman High)"

definition mock_with_sybil ::
    "mock_oracle_data \<Rightarrow> address \<Rightarrow> canonical_verdict \<Rightarrow> mock_oracle_data" where
  "mock_with_sybil m subject v = m\<lparr>mo_sybil := fmupd subject v (mo_sybil m)\<rparr>"

definition mock_oracle :: "mock_oracle_data \<Rightarrow> humanity_oracle" where
  "mock_oracle m =
     \<lparr>grade_liveness = (\<lambda>_ response.
        case fmlookup (mo_liveness m) response of Some v \<Rightarrow> v | None \<Rightarrow> mo_default m),
      analyze_sybil = (\<lambda>_ subject.
        case fmlookup (mo_sybil m) subject of Some v \<Rightarrow> v | None \<Rightarrow> mo_default m),
      adjudicate = (\<lambda>evidence.
        case fmlookup (mo_evidence m) evidence of Some v \<Rightarrow> v | None \<Rightarrow> mo_default m)\<rparr>"

section \<open>Records of the registry\<close>

datatype HumanStatus = Unverified | Pending | Verified | Challenged | Revoked

record human =
  hu_address :: address
  hu_status :: HumanStatus
  hu_verified_at :: u64
  hu_liveness_ref :: hash
  hu_vouches_in :: "address list"
  hu_reputation :: i64
  hu_assurance :: Assurance

definition human_pending :: "address \<Rightarrow> hash \<Rightarrow> human" where
  "human_pending a liveness_ref =
     \<lparr>hu_address = a, hu_status = Pending, hu_verified_at = 0, hu_liveness_ref = liveness_ref,
      hu_vouches_in = [], hu_reputation = 0, hu_assurance = Std\<rparr>"

record vouch_edge =
  vo_voucher :: address
  vo_vouchee :: address
  vo_at :: u64

datatype CaseKind = Registration | Challenge
datatype CaseStatus = Open | Committed canonical_verdict | Escalated

record poh_case =
  cs_id :: u64
  cs_subject :: address
  cs_challenger :: address
  cs_kind :: CaseKind
  cs_evidence_ref :: hash
  cs_jury :: "address list"
  cs_votes :: "(address \<times> canonical_verdict) list"
  cs_status :: CaseStatus
  cs_opened_at :: u64

definition vote_of :: "poh_case \<Rightarrow> address \<Rightarrow> canonical_verdict option" where
  "vote_of c juror = map_option snd (List.find (\<lambda>(a, _). a = juror) (cs_votes c))"

record juror =
  ju_address :: address
  ju_stake :: u128
  ju_active :: bool

section \<open>Seeded jury selection\<close>

text \<open>One step of \<^verbatim>\<open>SplitMix64\<close>: the output and the next state.\<close>

definition next_u64 :: "64 word \<Rightarrow> 64 word \<times> 64 word" where
  "next_u64 st =
     (let st' = st + 0x9E3779B97F4A7C15;
          z1 = (st' XOR drop_bit 30 st') * 0xBF58476D1CE4E5B9;
          z2 = (z1 XOR drop_bit 27 z1) * 0x94D049BB133111EB
      in (z2 XOR drop_bit 31 z2, st'))"

definition swap_at :: "'a list \<Rightarrow> nat \<Rightarrow> nat \<Rightarrow> 'a list" where
  "swap_at xs i j = xs[i := xs ! j, j := xs ! i]"

text \<open>The loop \<^verbatim>\<open>for i in 0..size\<close>, with the iterations left as the recursion argument.\<close>

fun shuffle_loop :: "nat \<Rightarrow> nat \<Rightarrow> 64 word \<Rightarrow> 'a list \<Rightarrow> 'a list" where
  "shuffle_loop 0 i rng xs = xs"
| "shuffle_loop (Suc left) i rng xs =
     (let (r, rng') = next_u64 rng;
          j = i + unat r mod (length xs - i)
      in shuffle_loop left (Suc i) rng' (swap_at xs i j))"

definition select_jury :: "address list \<Rightarrow> usize \<Rightarrow> 64 word \<Rightarrow> address list" where
  "select_jury candidates sz seed =
     (let cs = sort_dedup candidates in
      if length cs \<le> sz then cs
      else take sz (shuffle_loop sz 0 seed cs))"

section \<open>The generic quorum tally\<close>

datatype 'a QuorumOutcome = QPending | QCommitted 'a | QNoQuorum

fun add_to_groups :: "('a \<Rightarrow> 'k) \<Rightarrow> ('k \<times> nat \<times> 'a) list \<Rightarrow> 'a \<Rightarrow> ('k \<times> nat \<times> 'a) list" where
  "add_to_groups key [] item = [(key item, 1, item)]"
| "add_to_groups key ((k, c, e) # gs) item =
     (if k = key item then (k, c + 1, e) # gs else (k, c, e) # add_to_groups key gs item)"

definition group_items :: "('a \<Rightarrow> 'k) \<Rightarrow> (address \<times> 'a) list \<Rightarrow> ('k \<times> nat \<times> 'a) list" where
  "group_items key items = foldl (add_to_groups key) [] (map snd items)"

definition quorum_tally ::
    "('a \<Rightarrow> 'k) \<Rightarrow> ('a \<Rightarrow> bool) \<Rightarrow> (address \<times> 'a) list \<Rightarrow> usize \<Rightarrow> usize \<Rightarrow> 'a QuorumOutcome" where
  "quorum_tally quorum_key is_committable items jury_size quorum =
     (let groups = group_items quorum_key items in
      case List.find (\<lambda>(_, c, _). c \<ge> quorum) groups of
        Some (_, _, exemplar) \<Rightarrow>
          (if is_committable exemplar then QCommitted exemplar else QNoQuorum)
      | None \<Rightarrow>
          (let cast = length items;
               unused = sat_sub jury_size cast;
               best = foldr max (map (\<lambda>(_, c, _). c) groups) 0
           in if best + unused < quorum then QNoQuorum else QPending))"

definition verdict_key :: "canonical_verdict \<Rightarrow> Verdict \<times> Confidence" where
  "verdict_key v = (cv_verdict v, cv_confidence v)"

definition verdict_committable :: "canonical_verdict \<Rightarrow> bool" where
  "verdict_committable v \<longleftrightarrow> cv_verdict v \<noteq> VUncertain"

datatype Tally = TPending | TCommitted canonical_verdict | TEscalated

definition tally :: "(address \<times> canonical_verdict) list \<Rightarrow> usize \<Rightarrow> usize \<Rightarrow> Tally" where
  "tally votes jury_size quorum =
     (case quorum_tally verdict_key verdict_committable votes jury_size quorum of
        QPending \<Rightarrow> TPending
      | QCommitted v \<Rightarrow> TCommitted v
      | QNoQuorum \<Rightarrow> TEscalated)"


section \<open>Jury selection lemmas\<close>

lemma swap_at_perm: "i < length xs \<Longrightarrow> j < length xs \<Longrightarrow> mset (swap_at xs i j) = mset xs"
  by (simp add: swap_at_def mset_swap)

lemma length_swap_at [simp]: "length (swap_at xs i j) = length xs"
  by (simp add: swap_at_def)

lemma shuffle_loop_perm: "i + left \<le> length xs \<Longrightarrow> mset (shuffle_loop left i rng xs) = mset xs"
proof (induction left i rng xs rule: shuffle_loop.induct)
  case (2 left i rng xs)
  obtain r rng' where r: "next_u64 rng = (r, rng')"
    by (cases "next_u64 rng")
  have "unat r mod (length xs - i) < length xs - i"
    using 2(2) by (intro mod_less_divisor) simp
  then have "i + unat r mod (length xs - i) < length xs"
    by linarith
  with 2 r show ?case
    by (simp add: swap_at_perm)
qed simp

lemma select_jury_facts:
  "set (select_jury cs n seed) \<subseteq> set cs"
  "distinct (select_jury cs n seed)"
  "length (select_jury cs n seed) = min n (card (set cs))"
proof -
  let ?d = "sort_dedup cs"
  have card: "card (set cs) = length ?d"
    using distinct_card [of ?d] by simp
  have *: "set (select_jury cs n seed) \<subseteq> set cs \<and> distinct (select_jury cs n seed)
      \<and> length (select_jury cs n seed) = min n (card (set cs))"
  proof (cases "length ?d \<le> n")
    case True
    then show ?thesis by (simp add: select_jury_def Let_def card)
  next
    case False
    let ?s = "shuffle_loop n 0 seed ?d"
    have perm: "mset ?s = mset ?d"
      using False by (intro shuffle_loop_perm) simp
    then have "distinct ?s" "set ?s = set cs" "length ?s = length ?d"
      by (metis distinct_sort_dedup mset_eq_imp_distinct_iff, metis set_sort_dedup mset_eq_setD,
          metis mset_eq_length)
    with False show ?thesis
      by (auto simp: select_jury_def Let_def card dest: in_set_takeD)
  qed
  then show "set (select_jury cs n seed) \<subseteq> set cs" "distinct (select_jury cs n seed)"
    "length (select_jury cs n seed) = min n (card (set cs))"
    by auto
qed

lemma select_jury_order_independent:
  "set cs = set cs' \<Longrightarrow> select_jury cs n seed = select_jury cs' n seed"
  by (simp add: select_jury_def sort_dedup_canonical [of cs cs'])

section \<open>Tally lemmas\<close>

text \<open>What the group list holds: one entry per key, its number of votes and its first item.\<close>

definition votes_for :: "('a \<Rightarrow> 'k) \<Rightarrow> 'a list \<Rightarrow> 'k \<Rightarrow> nat" where
  "votes_for key xs k = count_list (map key xs) k"

definition groups_ok :: "('a \<Rightarrow> 'k) \<Rightarrow> 'a list \<Rightarrow> ('k \<times> nat \<times> 'a) list \<Rightarrow> bool" where
  "groups_ok key xs gs \<longleftrightarrow>
     distinct (map fst gs) \<and> set (map fst gs) = key ` set xs
     \<and> (\<forall>(k, c, e) \<in> set gs. c = votes_for key xs k \<and> List.find (\<lambda>x. key x = k) xs = Some e)"

lemma votes_for_snoc [simp]:
  "votes_for key (xs @ [x]) k = votes_for key xs k + (if key x = k then 1 else 0)"
  by (simp add: votes_for_def)

lemma find_snoc:
  "List.find P (xs @ [x]) = (case List.find P xs of Some y \<Rightarrow> Some y | None \<Rightarrow> if P x then Some x else None)"
  by (induction xs) auto

lemma add_to_groups_fst:
  "map fst (add_to_groups key gs x) =
     (if key x \<in> fst ` set gs then map fst gs else map fst gs @ [key x])"
  by (induction key gs x rule: add_to_groups.induct) auto

lemma add_to_groups_mem:
  "distinct (map fst gs) \<Longrightarrow> (k, c, e) \<in> set (add_to_groups key gs x) \<Longrightarrow>
     (if k = key x then (\<exists>c'. c = c' + 1 \<and> (k, c', e) \<in> set gs) \<or> (c = 1 \<and> e = x \<and> k \<notin> fst ` set gs)
      else (k, c, e) \<in> set gs)"
  by (induction key gs x rule: add_to_groups.induct) (force split: if_splits)+

lemma votes_for_zero: "k \<notin> key ` set xs \<Longrightarrow> votes_for key xs k = 0"
  by (simp add: votes_for_def)

lemma find_none_key: "List.find (\<lambda>x. key x = k) xs = None \<longleftrightarrow> k \<notin> key ` set xs"
  by (auto simp: find_None_iff)

lemma groups_ok_add:
  assumes ok: "groups_ok key xs gs"
  shows "groups_ok key (xs @ [x]) (add_to_groups key gs x)"
proof -
  have d: "distinct (map fst gs)" and keys: "fst ` set gs = key ` set xs"
    and ent: "\<And>k c e. (k, c, e) \<in> set gs \<Longrightarrow>
      c = votes_for key xs k \<and> List.find (\<lambda>x. key x = k) xs = Some e"
    using ok by (auto simp: groups_ok_def)
  have "c = votes_for key (xs @ [x]) k \<and> List.find (\<lambda>y. key y = k) (xs @ [x]) = Some e"
    if "(k, c, e) \<in> set (add_to_groups key gs x)" for k c e
    using add_to_groups_mem [OF d that] ent keys
    by (auto simp: find_snoc votes_for_zero find_none_key split: if_splits)
      (metis find_none_key option.simps(4))+
  moreover have "distinct (map fst (add_to_groups key gs x))"
    using d by (simp add: add_to_groups_fst)
  moreover have "set (map fst (add_to_groups key gs x)) = key ` set (xs @ [x])"
    using keys by (auto simp: add_to_groups_fst)
  ultimately show ?thesis
    by (auto simp: groups_ok_def)
qed

lemma groups_ok_group_items: "groups_ok key (map snd items) (group_items key items)"
proof -
  have "groups_ok key xs (foldl (add_to_groups key) [] xs)" for xs
    by (induction xs rule: rev_induct) (simp_all add: groups_ok_add, simp add: groups_ok_def)
  then show ?thesis by (simp add: group_items_def)
qed


lemma sum_two_counts: "k \<noteq> k' \<Longrightarrow> count_list ys k + count_list ys k' \<le> length ys"
  by (induction ys) auto

lemma foldr_max_less: "foldr max ns 0 + u < (q :: nat) \<longleftrightarrow> u < q \<and> (\<forall>n \<in> set ns. n + u < q)"
  by (induction ns) auto

lemma group_at_quorum:
  assumes "groups_ok key xs gs" and "List.find (\<lambda>(_, c, _). c \<ge> q) gs = Some (k, c, e)"
  shows "q \<le> votes_for key xs k" "List.find (\<lambda>x. key x = k) xs = Some e" "key e = k" "e \<in> set xs"
proof -
  from find_SomeD [OF assms(2)] have mem: "(k, c, e) \<in> set gs" and "q \<le> c"
    by simp_all
  with assms(1) show *: "q \<le> votes_for key xs k" "List.find (\<lambda>x. key x = k) xs = Some e"
    by (auto simp: groups_ok_def)
  from find_SomeD [OF *(2)] show "key e = k" "e \<in> set xs"
    by simp_all
qed

lemma no_group_at_quorum:
  assumes "groups_ok key xs gs" and "List.find (\<lambda>(_, c, _). c \<ge> q) gs = None" and "0 < q"
  shows "votes_for key xs k < q"
proof (cases "k \<in> key ` set xs")
  case True
  with assms(1) obtain c e where "(k, c, e) \<in> set gs"
    by (force simp: groups_ok_def)
  moreover from this have "c = votes_for key xs k"
    using assms(1) unfolding groups_ok_def by blast
  moreover from \<open>(k, c, e) \<in> set gs\<close> have "\<not> q \<le> c"
    using assms(2) unfolding find_None_iff by blast
  ultimately show ?thesis by simp
qed (simp add: assms(3) votes_for_zero)

lemma best_less_iff:
  assumes "groups_ok key xs gs"
  shows "foldr max (map (\<lambda>(_, c, _). c) gs) 0 + u < q \<longleftrightarrow> (\<forall>k. votes_for key xs k + u < q)"
proof -
  have "map (\<lambda>(_, c, _). c) gs = map (votes_for key xs) (map fst gs)"
    using assms unfolding groups_ok_def by (auto intro!: map_cong)
  moreover have "set (map fst gs) = key ` set xs"
    using assms unfolding groups_ok_def by blast
  ultimately have "(\<forall>n \<in> set (map (\<lambda>(_, c, _). c) gs). n + u < q) \<longleftrightarrow> (\<forall>k \<in> key ` set xs. votes_for key xs k + u < q)"
    by (simp only: set_map) blast
  moreover have "u < q \<and> (\<forall>k \<in> key ` set xs. votes_for key xs k + u < q) \<longleftrightarrow> (\<forall>k. votes_for key xs k + u < q)"
  proof
    assume l: "u < q \<and> (\<forall>k \<in> key ` set xs. votes_for key xs k + u < q)"
    show "\<forall>k. votes_for key xs k + u < q"
    proof
      fix k show "votes_for key xs k + u < q"
        using l by (cases "k \<in> key ` set xs") (auto simp: votes_for_zero)
    qed
  next
    assume r: "\<forall>k. votes_for key xs k + u < q"
    then have "votes_for key xs undefined + u < q" by blast
    then have "u < q" by linarith
    with r show "u < q \<and> (\<forall>k \<in> key ` set xs. votes_for key xs k + u < q)" by simp
  qed
  ultimately show ?thesis by (simp only: foldr_max_less)
qed

text \<open>
  The trait \<^verbatim>\<open>QuorumEq\<close>: whether an item may commit is determined by its grouping key, so an
  informational field can never decide a quorum.
\<close>

locale quorum_eq =
  fixes key :: "'a \<Rightarrow> 'k" and committable :: "'a \<Rightarrow> bool"
  assumes committable_key: "key x = key y \<Longrightarrow> committable x = committable y"
begin

abbreviation votes :: "(address \<times> 'a) list \<Rightarrow> 'k \<Rightarrow> nat" where
  "votes items \<equiv> votes_for key (map snd items)"

abbreviation outcome :: "(address \<times> 'a) list \<Rightarrow> nat \<Rightarrow> nat \<Rightarrow> 'a QuorumOutcome" where
  "outcome \<equiv> quorum_tally key committable"

lemma quorum_key_unique:
  assumes "length items < 2 * q" "q \<le> votes items k" "q \<le> votes items k'"
  shows "k = k'"
  using assms sum_two_counts [of k k' "map key (map snd items)"]
  by (force simp: votes_for_def)

lemma outcome_at_quorum:
  assumes "length items < 2 * q" "q \<le> votes items k"
  obtains e where "List.find (\<lambda>x. key x = k) (map snd items) = Some e" "key e = k"
    "outcome items n q = (if committable e then QCommitted e else QNoQuorum)"
proof -
  note ok = groups_ok_group_items [of key items]
  have "0 < q" using assms(1) by linarith
  then obtain k' c e where f: "List.find (\<lambda>(_, c, _). c \<ge> q) (group_items key items) = Some (k', c, e)"
    using no_group_at_quorum [OF ok, of q k] assms(2)
    by (cases "List.find (\<lambda>(_, c, _). c \<ge> q) (group_items key items)") auto
  note g = group_at_quorum [OF ok f]
  then have "k' = k" using quorum_key_unique [OF assms(1) _ assms(2)] by blast
  with g f show thesis
    by (intro that [of e]) (simp_all add: quorum_tally_def)
qed

lemma outcome_below_quorum:
  assumes "\<And>k. votes items k < q"
  shows "outcome items n q =
    (if \<forall>k. votes items k + (n - length items) < q then QNoQuorum else QPending)"
proof -
  note ok = groups_ok_group_items [of key items]
  have "List.find (\<lambda>(_, c, _). c \<ge> q) (group_items key items) = None"
    using group_at_quorum(1) [OF ok] assms
    by (cases "List.find (\<lambda>(_, c, _). c \<ge> q) (group_items key items)") (force simp: not_le [symmetric])+
  then show ?thesis
    by (simp add: quorum_tally_def Let_def best_less_iff [OF ok])
qed

lemma committed_backed:
  assumes "outcome items n q = QCommitted x"
  shows "x \<in> snd ` set items" "q \<le> votes items (key x)" "committable x"
proof -
  note ok = groups_ok_group_items [of key items]
  from assms obtain k c where
    f: "List.find (\<lambda>(_, c, _). c \<ge> q) (group_items key items) = Some (k, c, x)" and c: "committable x"
    by (auto simp: quorum_tally_def Let_def split: option.splits if_splits)
  show "x \<in> snd ` set items" "q \<le> votes items (key x)" "committable x"
    using group_at_quorum [OF ok f] c by auto
qed

lemma committed_stable:
  assumes "outcome items n q = QCommitted x" "length (items @ later) < 2 * q"
  shows "outcome (items @ later) n q = QCommitted x"
proof -
  note b = committed_backed [OF assms(1)]
  have len: "length items < 2 * q" using assms(2) by simp
  have at: "q \<le> votes (items @ later) (key x)"
    using b(2) by (simp add: votes_for_def)
  from outcome_at_quorum [OF len b(2), of n] assms(1)
  have first: "List.find (\<lambda>y. key y = key x) (map snd items) = Some x"
    by (metis QuorumOutcome.distinct(5) QuorumOutcome.inject)
  then have "List.find (\<lambda>y. key y = key x) (map snd (items @ later)) = Some x"
    by (induction items) (auto split: if_splits)
  with outcome_at_quorum [OF assms(2) at, of n] b(3) show ?thesis
    by (metis option.inject)
qed

lemma split_stable:
  assumes "outcome items n q = QNoQuorum" "length (items @ later) < 2 * q" "length (items @ later) \<le> n"
  shows "outcome (items @ later) n q = QNoQuorum"
proof (cases "\<exists>k. q \<le> votes items k")
  case True
  then obtain k where k: "q \<le> votes items k" ..
  have "length items < 2 * q" using assms(2) by simp
  from outcome_at_quorum [OF this k, of n] assms(1)
  obtain e where e: "key e = k" "\<not> committable e" by (metis QuorumOutcome.distinct(5))
  have "q \<le> votes (items @ later) k" using k by (simp add: votes_for_def)
  from outcome_at_quorum [OF assms(2) this, of n] e committable_key show ?thesis by metis
next
  case False
  then have below: "votes items k < q" for k by (simp add: not_le)
  have bound: "votes (items @ later) k \<le> votes items k + length later" for k
    using count_le_length [of "map key (map snd later)" k] by (simp add: votes_for_def)
  have tight: "votes items k + (n - length items) < q" for k
    using outcome_below_quorum [OF below, of n] assms(1) by (metis QuorumOutcome.distinct(3))
  have "votes (items @ later) k + (n - length (items @ later)) < q" for k
    using bound [of k] tight [of k] assms(3) by simp
  then show ?thesis
    by (subst outcome_below_quorum) (auto intro: le_less_trans [OF le_add1])
qed

lemma order_independent:
  assumes "mset (map snd items) = mset (map snd items')" "length items < 2 * q"
  shows "map_QuorumOutcome key (outcome items n q) = map_QuorumOutcome key (outcome items' n q)"
proof -
  have votes_eq: "votes items = votes items'"
  proof
    have "mset (map key (map snd items)) = mset (map key (map snd items'))"
      using assms(1) by (simp only: mset_map)
    then show "votes items k = votes items' k" for k
      unfolding votes_for_def by (metis count_mset)
  qed
  have len: "length items' = length items"
    using mset_eq_length [OF assms(1)] by simp
  show ?thesis
  proof (cases "\<exists>k. q \<le> votes items k")
    case True
    then obtain k where k: "q \<le> votes items k" ..
    obtain e where e: "key e = k" "outcome items n q = (if committable e then QCommitted e else QNoQuorum)"
      using outcome_at_quorum [OF assms(2) k, of n] by metis
    obtain e' where e': "key e' = k"
        "outcome items' n q = (if committable e' then QCommitted e' else QNoQuorum)"
      using outcome_at_quorum [of items' q k n] assms(2) k len votes_eq by metis
    show ?thesis using e e' committable_key [of e e'] by simp
  next
    case False
    then show ?thesis
      using outcome_below_quorum [of items q n] outcome_below_quorum [of items' q n] votes_eq len
      by (simp add: not_le)
  qed
qed

end

interpretation verdict_quorum: quorum_eq verdict_key verdict_committable
  by unfold_locales (simp add: verdict_key_def verdict_committable_def)

end
