(* ===== verification/Effects.thy ===== *)
theory Effects
  imports Humanity
begin

text \<open>
  The data of the prompt-contract engine (\<^verbatim>\<open>crates/runtime/src/contracts.rs\<close>): the escrow
  address of a contract, the effect language with its byte encoding and digest, the tally of
  submitted effects over the generic quorum tally, the interpreter seam with its scripted
  implementation, and the contract and execution-case records. The lemmas show that escrow
  addresses never collide, that the party check is membership, and, through an interpretation of
  \<open>quorum_eq\<close> on effect tokens, that a committed effect was submitted by a quorum and that the
  tally never reaches its \<^verbatim>\<open>expect\<close>.
\<close>

type_synonym contract_id = u64
type_synonym exec_case_id = u64
type_synonym stream_id = u64

section \<open>Escrow addresses\<close>

definition contract_address :: "contract_id \<Rightarrow> address" where
  "contract_address cid =
     addr_of_bytes (take 10 (addr_bytes CONTRACT_HUB) @ [0x50, 0x43] @ be_bytes 8 cid)"

section \<open>The effect language\<close>

datatype Op =
    Transfer address u128
  | Refund address u128
  | OpenStream address u128 u128   \<comment> \<open>to, rate, deposit\<close>
  | StopStream stream_id
  | SetVar hash hash
  | Abort hash

primrec op_tag :: "Op \<Rightarrow> u8" where
  "op_tag (Transfer to amount) = 0"
| "op_tag (Refund party amount) = 1"
| "op_tag (OpenStream to rate deposit) = 2"
| "op_tag (StopStream sid) = 3"
| "op_tag (SetVar k v) = 4"
| "op_tag (Abort reason_hash) = 5"

definition u128_bytes :: "u128 \<Rightarrow> byte list" where
  "u128_bytes n = be_bytes 16 n"

definition u64_bytes :: "u64 \<Rightarrow> byte list" where
  "u64_bytes n = be_bytes 8 n"

primrec op_fields :: "Op \<Rightarrow> byte list" where
  "op_fields (Transfer to amount) = addr_bytes to @ u128_bytes amount"
| "op_fields (Refund party amount) = addr_bytes party @ u128_bytes amount"
| "op_fields (OpenStream to rate deposit) = addr_bytes to @ u128_bytes rate @ u128_bytes deposit"
| "op_fields (StopStream sid) = u64_bytes sid"
| "op_fields (SetVar k v) = hash_bytes k @ hash_bytes v"
| "op_fields (Abort reason_hash) = hash_bytes reason_hash"

definition encode_into :: "Op \<Rightarrow> byte list \<Rightarrow> byte list" where
  "encode_into op buf = buf @ [of_nat (op_tag op)] @ op_fields op"

record canonical_effect =
  ef_ops :: "Op list"
  ef_effect_hash :: hash

definition encode_ops :: "Op list \<Rightarrow> byte list" where
  "encode_ops ops = foldl (\<lambda>buf op. encode_into op buf) (be_bytes 4 (length ops)) ops"

definition effect_encode :: "canonical_effect \<Rightarrow> byte list" where
  "effect_encode e = encode_ops (ef_ops e)"

definition effect_hash :: "Op list \<Rightarrow> hash" where
  "effect_hash ops = fnv1a_256 (effect_encode \<lparr>ef_ops = ops, ef_effect_hash = 0\<rparr>)"

definition effect_new :: "Op list \<Rightarrow> canonical_effect" where
  "effect_new ops = \<lparr>ef_ops = ops, ef_effect_hash = effect_hash ops\<rparr>"

definition effect_noop :: canonical_effect where
  "effect_noop = effect_new []"

definition effect_abort :: "hash \<Rightarrow> canonical_effect" where
  "effect_abort reason_hash = effect_new [Abort reason_hash]"

definition is_abort :: "canonical_effect \<Rightarrow> bool" where
  "is_abort e = (case ef_ops e of [Abort _] \<Rightarrow> True | _ \<Rightarrow> False)"

section \<open>Tallying effects\<close>

datatype EffectToken = EffectToken hash

primrec token_key :: "EffectToken \<Rightarrow> hash" where
  "token_key (EffectToken h) = h"

definition token_committable :: "EffectToken \<Rightarrow> bool" where
  "token_committable t = True"

datatype EffectTally = ETPending | ETCommitted canonical_effect | ETNoQuorum

text \<open>\<open>None\<close> is the panic of \<^verbatim>\<open>expect("committed token must have a backing submission")\<close>.\<close>

definition tally_effects ::
    "(address \<times> canonical_effect) list \<Rightarrow> usize \<Rightarrow> usize \<Rightarrow> EffectTally option" where
  "tally_effects submissions jury_size quorum =
     (let tokens = map (\<lambda>(a, e). (a, EffectToken (ef_effect_hash e))) submissions in
      case quorum_tally token_key token_committable tokens jury_size quorum of
        QPending \<Rightarrow> Some ETPending
      | QNoQuorum \<Rightarrow> Some ETNoQuorum
      | QCommitted tok \<Rightarrow>
          map_option (\<lambda>(_, e). ETCommitted e)
            (List.find (\<lambda>(_, e). ef_effect_hash e = token_key tok) submissions))"

section \<open>The interpreter seam\<close>

record contract_state_view =
  cv_contract_id :: contract_id
  cv_escrow :: u128
  cv_parties :: "address list"
  cv_vars :: "(hash \<times> hash) list"
  cv_streams :: "stream_id list"
  cv_now :: u64

type_synonym interpreter = "byte list \<Rightarrow> contract_state_view \<Rightarrow> byte list \<Rightarrow> canonical_effect"

record mock_interpreter =
  mi_default :: canonical_effect
  mi_by_text_trigger :: "(byte list \<times> byte list, canonical_effect) fmap"
  mi_by_trigger :: "(byte list, canonical_effect) fmap"

definition mock_interpreter_new :: "canonical_effect \<Rightarrow> mock_interpreter" where
  "mock_interpreter_new d =
     \<lparr>mi_default = d, mi_by_text_trigger = fmempty, mi_by_trigger = fmempty\<rparr>"

definition mock_interpreter_with ::
    "mock_interpreter \<Rightarrow> byte list \<Rightarrow> byte list \<Rightarrow> canonical_effect \<Rightarrow> mock_interpreter" where
  "mock_interpreter_with m contract_text trigger effect =
     m\<lparr>mi_by_text_trigger := fmupd (contract_text, trigger) effect (mi_by_text_trigger m)\<rparr>"

definition mock_interpreter_with_trigger ::
    "mock_interpreter \<Rightarrow> byte list \<Rightarrow> canonical_effect \<Rightarrow> mock_interpreter" where
  "mock_interpreter_with_trigger m trigger effect =
     m\<lparr>mi_by_trigger := fmupd trigger effect (mi_by_trigger m)\<rparr>"

definition mock_interpret :: "mock_interpreter \<Rightarrow> interpreter" where
  "mock_interpret m contract_text view trigger =
     (case fmlookup (mi_by_text_trigger m) (contract_text, trigger) of
        Some e \<Rightarrow> e
      | None \<Rightarrow> (case fmlookup (mi_by_trigger m) trigger of
          Some e \<Rightarrow> e
        | None \<Rightarrow> mi_default m))"

section \<open>Contracts and execution cases\<close>

datatype ContractStatus = ContractActive | Terminated

record prompt_contract =
  pc_id :: contract_id
  pc_escrow :: u128
  pc_parties :: "address list"
  pc_text :: "byte list"
  pc_text_ref :: hash
  pc_vars :: "(hash, hash) fmap"
  pc_status :: ContractStatus
  pc_deploy_block :: u64
  pc_deploy_tx :: hash

definition prompt_contract_new ::
    "contract_id \<Rightarrow> byte list \<Rightarrow> hash \<Rightarrow> address list \<Rightarrow> prompt_contract" where
  "prompt_contract_new cid text text_ref parties =
     \<lparr>pc_id = cid, pc_escrow = 0, pc_parties = sort_dedup parties, pc_text = text,
      pc_text_ref = text_ref, pc_vars = fmempty, pc_status = ContractActive,
      pc_deploy_block = 0, pc_deploy_tx = 0\<rparr>"

text \<open>\<^verbatim>\<open>slice::binary_search(..).is_ok()\<close> on the index range \<open>lo .. hi\<close>.\<close>

function binary_search :: "'a :: linorder list \<Rightarrow> 'a \<Rightarrow> nat \<Rightarrow> nat \<Rightarrow> bool" where
  "binary_search xs x lo hi =
     (if hi \<le> lo then False
      else let mid = (lo + hi) div 2 in
        if xs ! mid = x then True
        else if xs ! mid < x then binary_search xs x (mid + 1) hi
        else binary_search xs x lo mid)"
  by pat_completeness auto
termination
  by (relation "measure (\<lambda>(xs, x, lo, hi). hi - lo)") auto

declare binary_search.simps [simp del]

definition is_party :: "prompt_contract \<Rightarrow> address \<Rightarrow> bool" where
  "is_party c a = binary_search (pc_parties c) a 0 (length (pc_parties c))"

definition sorted_vars :: "prompt_contract \<Rightarrow> (hash \<times> hash) list" where
  "sorted_vars c = sorted_list_of_fmap (pc_vars c)"

datatype ExecStatus = ExecOpen | ExecCommitted canonical_effect | Aborted

record exec_case =
  ec_id :: exec_case_id
  ec_contract :: contract_id
  ec_trigger_ref :: hash
  ec_invoker :: address
  ec_jury :: "address list"
  ec_effects :: "(address \<times> canonical_effect) list"
  ec_status :: ExecStatus
  ec_opened_at :: u64
  ec_resolved_at :: "u64 option"

definition effect_of :: "exec_case \<Rightarrow> address \<Rightarrow> canonical_effect option" where
  "effect_of c interpreter =
     map_option snd (List.find (\<lambda>(a, _). a = interpreter) (ec_effects c))"

section \<open>Lemmas\<close>

lemma binary_search_mem:
  "sorted xs \<Longrightarrow> hi \<le> length xs \<Longrightarrow> binary_search xs x lo hi \<longleftrightarrow> (\<exists>i. lo \<le> i \<and> i < hi \<and> xs ! i = x)"
proof (induction xs x lo hi rule: binary_search.induct)
  case (1 xs x lo hi)
  let ?mid = "(lo + hi) div 2"
  show ?case
  proof (cases "hi \<le> lo")
    case True
    then show ?thesis by (auto simp: binary_search.simps)
  next
    case False
    then have mid: "lo \<le> ?mid" "?mid < hi" "?mid < length xs" using 1(4) by auto
    have mono: "i \<le> j \<Longrightarrow> j < length xs \<Longrightarrow> xs ! i \<le> xs ! j" for i j
      using 1(3) by (simp add: sorted_iff_nth_mono)
    consider "xs ! ?mid = x" | "xs ! ?mid < x" | "x < xs ! ?mid" by (rule linorder_cases)
    then show ?thesis
    proof cases
      case 1
      with mid False show ?thesis by (subst binary_search.simps) (auto simp: Let_def)
    next
      case 2
      then have "binary_search xs x lo hi \<longleftrightarrow> (\<exists>i. ?mid + 1 \<le> i \<and> i < hi \<and> xs ! i = x)"
        using 1(1) [OF False refl] 1(3,4) False by (subst binary_search.simps) (auto simp: Let_def)
      also have "\<dots> \<longleftrightarrow> (\<exists>i. lo \<le> i \<and> i < hi \<and> xs ! i = x)"
      proof (intro iffI; elim exE conjE)
        fix i assume "lo \<le> i" "i < hi" "xs ! i = x"
        then have "?mid < i" using mono [of i ?mid] mid(3) 2 by (meson leD not_le)
        with \<open>i < hi\<close> \<open>xs ! i = x\<close> show "\<exists>i. ?mid + 1 \<le> i \<and> i < hi \<and> xs ! i = x" by (intro exI [of _ i]) simp
      next
        fix i assume "?mid + 1 \<le> i" "i < hi" "xs ! i = x"
        with mid show "\<exists>i. lo \<le> i \<and> i < hi \<and> xs ! i = x" by (intro exI [of _ i]) simp
      qed
      finally show ?thesis .
    next
      case 3
      then have "binary_search xs x lo hi \<longleftrightarrow> (\<exists>i. lo \<le> i \<and> i < ?mid \<and> xs ! i = x)"
        using 1(2) [OF False refl] 1(3,4) mid False by (subst binary_search.simps) (auto simp: Let_def)
      also have "\<dots> \<longleftrightarrow> (\<exists>i. lo \<le> i \<and> i < hi \<and> xs ! i = x)"
      proof (intro iffI; elim exE conjE)
        fix i assume i: "lo \<le> i" "i < hi" "xs ! i = x"
        then have "i < ?mid" using mono [of ?mid i] 1(4) 3 by (meson leD less_le_trans not_le)
        with i show "\<exists>i. lo \<le> i \<and> i < ?mid \<and> xs ! i = x" by blast
      next
        fix i assume "lo \<le> i" "i < ?mid" "xs ! i = x"
        with mid show "\<exists>i. lo \<le> i \<and> i < hi \<and> xs ! i = x" by (intro exI [of _ i]) simp
      qed
      finally show ?thesis .
    qed
  qed
qed

lemma is_party_iff: "sorted (pc_parties c) \<Longrightarrow> is_party c a \<longleftrightarrow> a \<in> set (pc_parties c)"
  by (auto simp: is_party_def binary_search_mem in_set_conv_nth)

lemma is_party_new [simp]: "is_party (prompt_contract_new cid text r ps) a \<longleftrightarrow> a \<in> set ps"
  by (simp add: is_party_iff prompt_contract_new_def)

lemma contract_address_inject:
  assumes "cid \<le> U64_MAX" "cid' \<le> U64_MAX"
  shows "contract_address cid = contract_address cid' \<longleftrightarrow> cid = cid'"
proof
  assume "contract_address cid = contract_address cid'"
  then have "addr_bytes (contract_address cid) = addr_bytes (contract_address cid')" by simp
  then have "be_bytes 8 cid = be_bytes 8 cid'"
    by (simp add: contract_address_def addr_bytes_addr_of)
  then show "cid = cid'"
    using assms by (simp add: be_bytes_inject U64_MAX_def)
qed simp

lemma not_contract_address: "addr_bytes a ! 10 \<noteq> 0x50 \<Longrightarrow> a \<noteq> contract_address cid"
  by (auto simp: contract_address_def addr_bytes_addr_of nth_append)

interpretation effect_quorum: quorum_eq token_key token_committable
  by unfold_locales (simp add: token_committable_def)

text \<open>The number of submissions whose effect has a given digest.\<close>

definition backers :: "(address \<times> canonical_effect) list \<Rightarrow> hash \<Rightarrow> nat" where
  "backers subs h = length (filter (\<lambda>(_, e). ef_effect_hash e = h) subs)"

lemma votes_for_tokens:
  "votes_for token_key (map snd (map (\<lambda>(a, e). (a, EffectToken (ef_effect_hash e))) subs)) h = backers subs h"
  by (induction subs) (auto simp: votes_for_def backers_def)

lemma tally_effects_committed:
  assumes "tally_effects subs n q = Some (ETCommitted e)"
  shows "e \<in> snd ` set subs" "q \<le> backers subs (ef_effect_hash e)"
proof -
  let ?toks = "map (\<lambda>(a, e). (a, EffectToken (ef_effect_hash e))) subs"
  from assms obtain tok a where
    t: "quorum_tally token_key token_committable ?toks n q = QCommitted tok"
    and f: "List.find (\<lambda>(_, e). ef_effect_hash e = token_key tok) subs = Some (a, e)"
    by (auto simp: tally_effects_def Let_def split: QuorumOutcome.splits)
  from find_SomeD [OF f] have mem: "(a, e) \<in> set subs" and h: "ef_effect_hash e = token_key tok"
    by simp_all
  from mem show "e \<in> snd ` set subs" by force
  show "q \<le> backers subs (ef_effect_hash e)"
    using effect_quorum.committed_backed(2) [OF t] votes_for_tokens [of subs] h by metis
qed

lemma tally_effects_total: "tally_effects subs n q \<noteq> None"
proof
  assume none: "tally_effects subs n q = None"
  let ?toks = "map (\<lambda>(a, e). (a, EffectToken (ef_effect_hash e))) subs"
  from none obtain tok where
    t: "quorum_tally token_key token_committable ?toks n q = QCommitted tok"
    and f: "List.find (\<lambda>(_, e). ef_effect_hash e = token_key tok) subs = None"
    by (auto simp: tally_effects_def Let_def split: QuorumOutcome.splits)
  from effect_quorum.committed_backed(1) [OF t]
  obtain a e where "(a, e) \<in> set subs" "token_key tok = ef_effect_hash e" by auto
  with f show False by (auto simp: find_None_iff)
qed

end
