(* ===== verification/Mem_State.thy ===== *)
theory Mem_State
  imports Effects
begin

text \<open>
  The in-memory consensus state (\<^verbatim>\<open>MemState\<close> and its implementation of the \<^verbatim>\<open>State\<close>
  trait in \<^verbatim>\<open>crates/runtime/src/lib.rs\<close>): the registries with their indexes and id counters,
  one definition per trait method, the combined balance, and the epoch validator snapshot. Every
  registry interprets \<open>keyed_store\<close>; the invariant \<open>keys_ok\<close> says each record sits under its own
  key and \<open>index_ok\<close> that the two per-account stream indexes list exactly the streams of the
  account, once each.
\<close>

record mem_state =
  ms_accounts :: "(address, account) fmap"
  ms_streams :: "(stream_id, stream) fmap"
  ms_outgoing :: "(address, stream_id list) fmap"
  ms_incoming :: "(address, stream_id list) fmap"
  ms_next_id :: stream_id
  ms_humans :: "(address, human) fmap"
  ms_vouches_out :: "(address, address list) fmap"
  ms_vouchers_of :: "(address, address list) fmap"
  ms_cases :: "(u64, poh_case) fmap"
  ms_next_case_id :: u64
  ms_jurors :: "(address, juror) fmap"
  ms_cleared_challenges :: "(address \<times> address) fset"
  ms_contracts :: "(contract_id, prompt_contract) fmap"
  ms_next_contract_id :: contract_id
  ms_exec_cases :: "(exec_case_id, exec_case) fmap"
  ms_next_exec_case_id :: exec_case_id
  ms_nullifiers :: "hash fset"
  ms_attribute_commitments :: "(address, hash list) fmap"
  ms_csca :: "(hash, csca_entry) fmap"
  ms_csca_governance :: "address option"
  ms_self_identity_roots :: "(hash, self_identity_root) fmap"
  ms_self_ofac_roots :: "(u8 \<times> hash, self_ofac_root) fmap"
  ms_self_scope :: "hash option"
  ms_epoch_validators :: "address list"

definition mem_state_new :: mem_state where
  "mem_state_new = \<lparr>
     ms_accounts = fmempty, ms_streams = fmempty, ms_outgoing = fmempty, ms_incoming = fmempty,
     ms_next_id = 0, ms_humans = fmempty, ms_vouches_out = fmempty, ms_vouchers_of = fmempty,
     ms_cases = fmempty, ms_next_case_id = 0, ms_jurors = fmempty, ms_cleared_challenges = {||},
     ms_contracts = fmempty, ms_next_contract_id = 0, ms_exec_cases = fmempty,
     ms_next_exec_case_id = 0, ms_nullifiers = {||}, ms_attribute_commitments = fmempty,
     ms_csca = fmempty, ms_csca_governance = None, ms_self_identity_roots = fmempty,
     ms_self_ofac_roots = fmempty, ms_self_scope = None, ms_epoch_validators = []\<rparr>"

section \<open>Accounts and streams\<close>

definition get :: "mem_state \<Rightarrow> address \<Rightarrow> account option" where
  [state_defs]: "get s a = fmlookup (ms_accounts s) a"

definition put :: "mem_state \<Rightarrow> account \<Rightarrow> mem_state" where
  [state_defs]: "put s acct = s\<lparr>ms_accounts := fmupd (acc_address acct) acct (ms_accounts s)\<rparr>"

text \<open>The idiom \<^verbatim>\<open>state.get(a).unwrap_or(Account { address: a, ..Default::default() })\<close>.\<close>

definition get_or_new :: "mem_state \<Rightarrow> address \<Rightarrow> account" where
  "get_or_new s a = (case get s a of Some acct \<Rightarrow> acct | None \<Rightarrow> fresh_account a)"

definition accounts :: "mem_state \<Rightarrow> account list" where
  "accounts s = fm_values (ms_accounts s)"

definition get_stream :: "mem_state \<Rightarrow> stream_id \<Rightarrow> stream option" where
  [state_defs]: "get_stream s sid = fmlookup (ms_streams s) sid"

text \<open>\<^verbatim>\<open>map.entry(k).or_default().push(x)\<close>, and \<^verbatim>\<open>get(k).cloned().unwrap_or_default()\<close>.\<close>

definition bucket :: "('k, 'v list) fmap \<Rightarrow> 'k \<Rightarrow> 'v list" where
  "bucket m k = (case fmlookup m k of Some xs \<Rightarrow> xs | None \<Rightarrow> [])"

definition push_bucket :: "'k \<Rightarrow> 'v \<Rightarrow> ('k, 'v list) fmap \<Rightarrow> ('k, 'v list) fmap" where
  "push_bucket k x m = fmupd k (bucket m k @ [x]) m"

definition put_stream :: "mem_state \<Rightarrow> stream \<Rightarrow> mem_state" where
  "put_stream s st =
     (let is_new = fmlookup (ms_streams s) (st_id st) = None;
          s1 = (if is_new then
                  s\<lparr>ms_outgoing := push_bucket (st_from st) (st_id st) (ms_outgoing s),
                    ms_incoming := push_bucket (st_to st) (st_id st) (ms_incoming s)\<rparr>
                else s)
      in s1\<lparr>ms_streams := fmupd (st_id st) st (ms_streams s1)\<rparr>)"

definition outgoing :: "mem_state \<Rightarrow> address \<Rightarrow> stream_id list" where
  "outgoing s a = sort (bucket (ms_outgoing s) a)"

definition incoming :: "mem_state \<Rightarrow> address \<Rightarrow> stream_id list" where
  "incoming s a = sort (bucket (ms_incoming s) a)"

definition next_stream_id :: "mem_state \<Rightarrow> stream_id \<times> mem_state" where
  [state_defs]: "next_stream_id s = (ms_next_id s, s\<lparr>ms_next_id := incr64 (ms_next_id s)\<rparr>)"

definition all_streams :: "mem_state \<Rightarrow> stream list" where
  "all_streams s = fm_values (ms_streams s)"

definition state_balance :: "mem_state \<Rightarrow> address \<Rightarrow> u64 \<Rightarrow> u128" where
  "state_balance s a now =
     (let base = (case get s a of Some acct \<Rightarrow> acc_balance acct now | None \<Rightarrow> 0);
          inflow = foldl (\<lambda>acc x. sat_add128 acc x) 0
            (map (\<lambda>st. sat_sub (accrued st now) (st_drawn st))
               (List.map_filter (get_stream s) (incoming s a)))
      in sat_add128 base inflow)"

definition state_nonce :: "mem_state \<Rightarrow> address \<Rightarrow> u64" where
  "state_nonce s a = (case get s a of Some acct \<Rightarrow> acc_nonce acct | None \<Rightarrow> 0)"

section \<open>Proof-of-humanity registry\<close>

definition get_human :: "mem_state \<Rightarrow> address \<Rightarrow> human option" where
  [state_defs]: "get_human s a = fmlookup (ms_humans s) a"

definition put_human :: "mem_state \<Rightarrow> human \<Rightarrow> mem_state" where
  [state_defs]: "put_human s h = s\<lparr>ms_humans := fmupd (hu_address h) h (ms_humans s)\<rparr>"

definition humans :: "mem_state \<Rightarrow> human list" where
  "humans s = fm_values (ms_humans s)"

definition push_once :: "'k \<Rightarrow> 'v \<Rightarrow> ('k, 'v list) fmap \<Rightarrow> ('k, 'v list) fmap" where
  "push_once k x m = fmupd k (let xs = bucket m k in if x \<in> set xs then xs else xs @ [x]) m"

definition put_vouch :: "mem_state \<Rightarrow> vouch_edge \<Rightarrow> mem_state" where
  "put_vouch s v =
     s\<lparr>ms_vouches_out := push_once (vo_voucher v) (vo_vouchee v) (ms_vouches_out s),
       ms_vouchers_of := push_once (vo_vouchee v) (vo_voucher v) (ms_vouchers_of s)\<rparr>"

definition vouches_out :: "mem_state \<Rightarrow> address \<Rightarrow> address list" where
  "vouches_out s a = sort (bucket (ms_vouches_out s) a)"

definition vouchers_of :: "mem_state \<Rightarrow> address \<Rightarrow> address list" where
  "vouchers_of s a = sort (bucket (ms_vouchers_of s) a)"

definition vouch_edges :: "mem_state \<Rightarrow> (address \<times> address) list" where
  "vouch_edges s =
     sort (concat (map (\<lambda>(voucher, vouchees). map (Pair voucher) vouchees)
       (sorted_list_of_fmap (ms_vouches_out s))))"

definition clear_vouch_edges :: "mem_state \<Rightarrow> address \<Rightarrow> mem_state" where
  "clear_vouch_edges s subject =
     s\<lparr>ms_vouches_out := fmmap (filter (\<lambda>v. v \<noteq> subject)) (fmdrop subject (ms_vouches_out s)),
       ms_vouchers_of := fmmap (filter (\<lambda>v. v \<noteq> subject)) (fmdrop subject (ms_vouchers_of s))\<rparr>"

definition state_graph_view :: "mem_state \<Rightarrow> graph_view" where
  "state_graph_view s = \<lparr>gv_edges = vouch_edges s\<rparr>"

definition record_challenge_cleared :: "mem_state \<Rightarrow> address \<Rightarrow> address \<Rightarrow> mem_state" where
  [state_defs]: "record_challenge_cleared s challenger subject =
     s\<lparr>ms_cleared_challenges := finsert (challenger, subject) (ms_cleared_challenges s)\<rparr>"

definition challenge_cleared :: "mem_state \<Rightarrow> address \<Rightarrow> address \<Rightarrow> bool" where
  [state_defs]: "challenge_cleared s challenger subject \<longleftrightarrow>
     (challenger, subject) |\<in>| ms_cleared_challenges s"

definition cleared_challenges_sorted :: "mem_state \<Rightarrow> (address \<times> address) list" where
  "cleared_challenges_sorted s = sorted_list_of_fset (ms_cleared_challenges s)"

definition get_case :: "mem_state \<Rightarrow> u64 \<Rightarrow> poh_case option" where
  [state_defs]: "get_case s cid = fmlookup (ms_cases s) cid"

definition put_case :: "mem_state \<Rightarrow> poh_case \<Rightarrow> mem_state" where
  [state_defs]: "put_case s c = s\<lparr>ms_cases := fmupd (cs_id c) c (ms_cases s)\<rparr>"

definition next_case_id :: "mem_state \<Rightarrow> u64 \<times> mem_state" where
  [state_defs]: "next_case_id s =
     (ms_next_case_id s, s\<lparr>ms_next_case_id := incr64 (ms_next_case_id s)\<rparr>)"

definition open_cases :: "mem_state \<Rightarrow> u64 list" where
  "open_cases s = sort (map cs_id (filter (\<lambda>c. cs_status c = Open) (fm_values (ms_cases s))))"

definition all_cases :: "mem_state \<Rightarrow> poh_case list" where
  "all_cases s = fm_values (ms_cases s)"

definition get_juror :: "mem_state \<Rightarrow> address \<Rightarrow> juror option" where
  [state_defs]: "get_juror s a = fmlookup (ms_jurors s) a"

definition put_juror :: "mem_state \<Rightarrow> juror \<Rightarrow> mem_state" where
  [state_defs]: "put_juror s j = s\<lparr>ms_jurors := fmupd (ju_address j) j (ms_jurors s)\<rparr>"

definition active_jurors :: "mem_state \<Rightarrow> address list" where
  "active_jurors s = sort (map ju_address (filter ju_active (fm_values (ms_jurors s))))"

definition set_epoch_validators :: "mem_state \<Rightarrow> address list \<Rightarrow> mem_state" where
  [state_defs]: "set_epoch_validators s vs = s\<lparr>ms_epoch_validators := sort_dedup vs\<rparr>"

section \<open>Contract registry\<close>

definition get_contract :: "mem_state \<Rightarrow> contract_id \<Rightarrow> prompt_contract option" where
  [state_defs]: "get_contract s cid = fmlookup (ms_contracts s) cid"

definition put_contract :: "mem_state \<Rightarrow> prompt_contract \<Rightarrow> mem_state" where
  [state_defs]: "put_contract s c = s\<lparr>ms_contracts := fmupd (pc_id c) c (ms_contracts s)\<rparr>"

definition next_contract_id :: "mem_state \<Rightarrow> contract_id \<times> mem_state" where
  [state_defs]: "next_contract_id s =
     (ms_next_contract_id s, s\<lparr>ms_next_contract_id := incr64 (ms_next_contract_id s)\<rparr>)"

definition contracts :: "mem_state \<Rightarrow> prompt_contract list" where
  "contracts s = fm_values (ms_contracts s)"

definition get_exec_case :: "mem_state \<Rightarrow> exec_case_id \<Rightarrow> exec_case option" where
  [state_defs]: "get_exec_case s cid = fmlookup (ms_exec_cases s) cid"

definition put_exec_case :: "mem_state \<Rightarrow> exec_case \<Rightarrow> mem_state" where
  [state_defs]: "put_exec_case s c = s\<lparr>ms_exec_cases := fmupd (ec_id c) c (ms_exec_cases s)\<rparr>"

definition next_exec_case_id :: "mem_state \<Rightarrow> exec_case_id \<times> mem_state" where
  [state_defs]: "next_exec_case_id s =
     (ms_next_exec_case_id s, s\<lparr>ms_next_exec_case_id := incr64 (ms_next_exec_case_id s)\<rparr>)"

definition exec_cases :: "mem_state \<Rightarrow> exec_case list" where
  "exec_cases s = fm_values (ms_exec_cases s)"

section \<open>ZK-passport registries\<close>

definition nullifier_used :: "mem_state \<Rightarrow> hash \<Rightarrow> bool" where
  [state_defs]: "nullifier_used s n \<longleftrightarrow> n |\<in>| ms_nullifiers s"

definition put_nullifier :: "mem_state \<Rightarrow> hash \<Rightarrow> mem_state" where
  [state_defs]: "put_nullifier s n = s\<lparr>ms_nullifiers := finsert n (ms_nullifiers s)\<rparr>"

definition nullifiers :: "mem_state \<Rightarrow> hash list" where
  "nullifiers s = sorted_list_of_fset (ms_nullifiers s)"

definition attribute_commitments :: "mem_state \<Rightarrow> address \<Rightarrow> hash list option" where
  [state_defs]: "attribute_commitments s a = fmlookup (ms_attribute_commitments s) a"

definition put_attribute_commitments :: "mem_state \<Rightarrow> address \<Rightarrow> hash list \<Rightarrow> mem_state" where
  [state_defs]: "put_attribute_commitments s a cs =
     s\<lparr>ms_attribute_commitments := fmupd a cs (ms_attribute_commitments s)\<rparr>"

definition attribute_store :: "mem_state \<Rightarrow> (address \<times> hash list) list" where
  "attribute_store s = sorted_list_of_fmap (ms_attribute_commitments s)"

definition get_csca :: "mem_state \<Rightarrow> hash \<Rightarrow> csca_entry option" where
  [state_defs]: "get_csca s k = fmlookup (ms_csca s) k"

definition put_csca :: "mem_state \<Rightarrow> csca_entry \<Rightarrow> mem_state" where
  [state_defs]: "put_csca s e = s\<lparr>ms_csca := fmupd (ce_key_id e) e (ms_csca s)\<rparr>"

definition csca_entries :: "mem_state \<Rightarrow> csca_entry list" where
  "csca_entries s = fm_values (ms_csca s)"

definition is_csca_governance :: "mem_state \<Rightarrow> address \<Rightarrow> bool" where
  [state_defs]: "is_csca_governance s a \<longleftrightarrow> ms_csca_governance s = Some a"

definition set_csca_governance :: "mem_state \<Rightarrow> address \<Rightarrow> mem_state" where
  [state_defs]: "set_csca_governance s a = s\<lparr>ms_csca_governance := Some a\<rparr>"

definition self_identity_roots :: "mem_state \<Rightarrow> self_identity_root list" where
  "self_identity_roots s = fm_values (ms_self_identity_roots s)"

definition put_self_identity_root :: "mem_state \<Rightarrow> self_identity_root \<Rightarrow> mem_state" where
  [state_defs]: "put_self_identity_root s e =
     s\<lparr>ms_self_identity_roots := fmupd (si_root e) e (ms_self_identity_roots s)\<rparr>"

definition self_ofac_roots :: "mem_state \<Rightarrow> self_ofac_root list" where
  "self_ofac_roots s = fm_values (ms_self_ofac_roots s)"

definition put_self_ofac_root :: "mem_state \<Rightarrow> self_ofac_root \<Rightarrow> mem_state" where
  [state_defs]: "put_self_ofac_root s e =
     s\<lparr>ms_self_ofac_roots := fmupd (so_kind e, so_root e) e (ms_self_ofac_roots s)\<rparr>"

definition retire_root :: "mem_state \<Rightarrow> hash \<Rightarrow> mem_state" where
  [state_defs]: "retire_root s root =
     s\<lparr>ms_self_identity_roots := fmdrop root (ms_self_identity_roots s),
       ms_self_ofac_roots := fmfilter (\<lambda>(_, r). r \<noteq> root) (ms_self_ofac_roots s)\<rparr>"

definition put_self_scope :: "mem_state \<Rightarrow> hash \<Rightarrow> mem_state" where
  [state_defs]: "put_self_scope s scope = s\<lparr>ms_self_scope := Some scope\<rparr>"

section \<open>The validator set\<close>

definition compute_validator_membership :: "mem_state \<Rightarrow> address list" where
  "compute_validator_membership s =
     sort_dedup (filter (\<lambda>a. map_option hu_status (get_human s a) = Some Verified)
       (active_jurors s))"

definition validator_set :: "mem_state \<Rightarrow> address list" where
  "validator_set s = ms_epoch_validators s"

definition refresh_epoch_validators :: "mem_state \<Rightarrow> u64 \<Rightarrow> mem_state" where
  "refresh_epoch_validators s height = set_epoch_validators s (compute_validator_membership s)"

definition genesis_is_verified :: "mem_state \<Rightarrow> address \<Rightarrow> u64 \<Rightarrow> bool" where
  "genesis_is_verified s a now =
     (case get s a of Some acct \<Rightarrow> acc_verified acct | None \<Rightarrow> False)"


section \<open>The registries are keyed stores\<close>

lemma get_put_stream [simp]: "get_stream (put_stream s st) k = (if k = st_id st then Some st else get_stream s k)"
  by (simp add: put_stream_def get_stream_def Let_def)

interpretation acct_store: keyed_store get put acc_address
  by unfold_locales (simp add: state_defs)

interpretation stream_store: keyed_store get_stream put_stream st_id
  by unfold_locales simp

interpretation human_store: keyed_store get_human put_human hu_address
  by unfold_locales (simp add: state_defs)

interpretation case_store: keyed_store get_case put_case cs_id
  by unfold_locales (simp add: state_defs)

interpretation juror_store: keyed_store get_juror put_juror ju_address
  by unfold_locales (simp add: state_defs)

interpretation contract_store: keyed_store get_contract put_contract pc_id
  by unfold_locales (simp add: state_defs)

interpretation exec_store: keyed_store get_exec_case put_exec_case ec_id
  by unfold_locales (simp add: state_defs)

interpretation csca_store: keyed_store get_csca put_csca ce_key_id
  by unfold_locales (simp add: state_defs)

lemmas store_lookups [simp] =
  acct_store.lookup_store human_store.lookup_store case_store.lookup_store
  juror_store.lookup_store contract_store.lookup_store exec_store.lookup_store
  csca_store.lookup_store

lemma put_frame [simp]:
  "get_stream (put s a) = get_stream s" "incoming (put s a) = incoming s"
  "outgoing (put s a) = outgoing s" "ms_next_id (put s a) = ms_next_id s"
  "ms_streams (put s a) = ms_streams s" "ms_incoming (put s a) = ms_incoming s"
  "ms_outgoing (put s a) = ms_outgoing s" "ms_contracts (put s a) = ms_contracts s"
  "ms_humans (put s a) = ms_humans s" "get_human (put s a) = get_human s"
  "get_contract (put s a) = get_contract s"
  by (simp_all add: state_defs incoming_def outgoing_def fun_eq_iff)

lemma put_stream_frame [simp]:
  "get (put_stream s st) = get s" "ms_accounts (put_stream s st) = ms_accounts s"
  "ms_next_id (put_stream s st) = ms_next_id s" "ms_contracts (put_stream s st) = ms_contracts s"
  "ms_streams (put_stream s st) = fmupd (st_id st) st (ms_streams s)"
  "ms_humans (put_stream s st) = ms_humans s" "get_human (put_stream s st) = get_human s"
  "get_contract (put_stream s st) = get_contract s"
  by (simp_all add: put_stream_def state_defs Let_def fun_eq_iff)

lemma get_or_new_put [simp]:
  "get_or_new (put s acct) a = (if a = acc_address acct then acct else get_or_new s a)"
  by (simp add: get_or_new_def)

lemma get_or_new_put_stream [simp]: "get_or_new (put_stream s st) = get_or_new s"
  by (simp add: get_or_new_def fun_eq_iff)

section \<open>The stream indexes\<close>

text \<open>
  What an index bucket must hold: the ids of the streams with the given endpoint, once each.
\<close>

definition index_ok :: "mem_state \<Rightarrow> bool" where
  "index_ok s \<longleftrightarrow>
     (\<forall>a. distinct (bucket (ms_incoming s) a) \<and> distinct (bucket (ms_outgoing s) a)
        \<and> set (bucket (ms_incoming s) a) = {k. \<exists>st. get_stream s k = Some st \<and> st_to st = a}
        \<and> set (bucket (ms_outgoing s) a) = {k. \<exists>st. get_stream s k = Some st \<and> st_from st = a})"

lemma bucket_push [simp]:
  "bucket (push_bucket k x m) k' = (if k' = k then bucket m k @ [x] else bucket m k')"
  by (simp add: bucket_def push_bucket_def)

lemma index_ok_new [simp]: "index_ok mem_state_new"
  by (simp add: index_ok_def mem_state_new_def bucket_def get_stream_def)

lemma put_stream_old:
  "get_stream s (st_id st) = Some old \<Longrightarrow>
     ms_incoming (put_stream s st) = ms_incoming s \<and> ms_outgoing (put_stream s st) = ms_outgoing s"
  by (simp add: put_stream_def get_stream_def Let_def)

lemma put_stream_fresh:
  "get_stream s (st_id st) = None \<Longrightarrow>
     ms_incoming (put_stream s st) = push_bucket (st_to st) (st_id st) (ms_incoming s)
     \<and> ms_outgoing (put_stream s st) = push_bucket (st_from st) (st_id st) (ms_outgoing s)"
  by (simp add: put_stream_def get_stream_def Let_def)

lemma index_ok_put_old:
  assumes "index_ok s" "get_stream s (st_id st) = Some old" "st_from old = st_from st" "st_to old = st_to st"
  shows "index_ok (put_stream s st)"
proof -
  have "(\<exists>x. get_stream (put_stream s st) k = Some x \<and> f x = a) \<longleftrightarrow> (\<exists>x. get_stream s k = Some x \<and> f x = a)"
    if "f old = f st" for f :: "stream \<Rightarrow> address" and k a
    using that assms(2) by auto
  from this [of st_to] this [of st_from] show ?thesis
    using assms put_stream_old [OF assms(2)] unfolding index_ok_def by simp
qed

lemma index_ok_put_fresh:
  assumes "index_ok s" "get_stream s (st_id st) = None"
  shows "index_ok (put_stream s st)"
proof -
  have fresh: "st_id st \<notin> set (bucket (ms_incoming s) a)" "st_id st \<notin> set (bucket (ms_outgoing s) a)" for a
    using assms by (auto simp: index_ok_def)
  have sets: "{k. \<exists>x. get_stream (put_stream s st) k = Some x \<and> f x = a}
      = {k. \<exists>x. get_stream s k = Some x \<and> f x = a} \<union> (if f st = a then {st_id st} else {})"
    for f :: "stream \<Rightarrow> address" and a
    using assms(2) by auto
  show ?thesis
    using assms(1) fresh unfolding index_ok_def sets by (simp add: put_stream_fresh [OF assms(2)])
qed

lemma index_ok_put [simp]: "index_ok (put s a) = index_ok s"
  by (simp add: index_ok_def)

lemma incoming_iff:
  "index_ok s \<Longrightarrow> k \<in> set (incoming s a) \<longleftrightarrow> (\<exists>st. get_stream s k = Some st \<and> st_to st = a)"
  by (simp add: index_ok_def incoming_def)

lemma outgoing_iff:
  "index_ok s \<Longrightarrow> k \<in> set (outgoing s a) \<longleftrightarrow> (\<exists>st. get_stream s k = Some st \<and> st_from st = a)"
  by (simp add: index_ok_def outgoing_def)

lemma distinct_incoming: "index_ok s \<Longrightarrow> distinct (incoming s a)"
  by (simp add: index_ok_def incoming_def)

section \<open>The validator snapshot\<close>

lemma active_jurors_iff:
  "juror_store.keys_agree s \<Longrightarrow>
     a \<in> set (active_jurors s) \<longleftrightarrow> (\<exists>j. get_juror s a = Some j \<and> ju_active j)"
  by (auto simp: active_jurors_def set_fm_values get_juror_def juror_store.keys_agree_def)

lemma validator_snapshot:
  assumes "juror_store.keys_agree s"
  shows "set (validator_set (refresh_epoch_validators s height)) =
      {a. (\<exists>j. get_juror s a = Some j \<and> ju_active j) \<and>
          (\<exists>h. get_human s a = Some h \<and> hu_status h = Verified)}"
    and "sorted (validator_set (refresh_epoch_validators s height))"
    and "distinct (validator_set (refresh_epoch_validators s height))"
  by (auto simp: validator_set_def refresh_epoch_validators_def set_epoch_validators_def
      compute_validator_membership_def active_jurors_iff [OF assms])

end
