(* ===== verification/Ledger.thy ===== *)
theory Ledger
  imports Mem_State
begin

text \<open>
  The value-moving operations of the runtime (\<^verbatim>\<open>crates/runtime/src/lib.rs\<close>): the gas fee,
  transfers, and opening, settling and stopping payment streams. An operation on
  \<^verbatim>\<open>&mut dyn State\<close> returns the state it leaves behind also when it fails, because a partial
  write of the code persists. The measure \<open>wealth now\<close> adds every account's balance at \<open>now\<close> and
  the collateral that the streams still hold; the lemmas show that every operation conserves it
  to the base unit, that the ledger invariant \<open>ledger_ok\<close> is kept, and that the reported balance is
  exactly what can be spent.
\<close>

datatype TransferError =
    BadNonce u64 u64               \<comment> \<open>expected, got\<close>
  | InsufficientBalance u128 u128  \<comment> \<open>have, need\<close>

section \<open>Operations\<close>

definition settle_stream :: "mem_state \<Rightarrow> stream_id \<Rightarrow> u64 \<Rightarrow> u128 \<times> mem_state" where
  "settle_stream s sid now =
     (case get_stream s sid of
        None \<Rightarrow> (0, s)
      | Some st \<Rightarrow>
          let ow = sat_sub (accrued st now) (st_drawn st);
              recipient = settle (get_or_new s (st_to st)) now;
              (recipient, st) =
                (if ow > 0 then
                   (recipient\<lparr>acc_settled_balance := sat_add128 (acc_settled_balance recipient) ow\<rparr>,
                    st\<lparr>st_drawn := sat_add128 (st_drawn st) ow\<rparr>)
                 else (recipient, st));
              s = put s recipient;
              st = (if st_drawn st \<ge> st_deposit st \<and> st_status st = Active
                    then st\<lparr>st_status := Completed\<rparr> else st)
          in (ow, put_stream s st))"

definition settle_incoming :: "mem_state \<Rightarrow> address \<Rightarrow> u64 \<Rightarrow> mem_state" where
  "settle_incoming s a now = fold (\<lambda>sid s. snd (settle_stream s sid now)) (incoming s a) s"

definition charge_fee :: "mem_state \<Rightarrow> address \<Rightarrow> u64 \<Rightarrow> u64 \<Rightarrow> (FeeError + u128) \<times> mem_state" where
  "charge_fee s frm gas now =
     (let fee = fee_for_gas gas;
          s = settle_incoming s frm now;
          sender = settle (get_or_new s frm) now
      in if acc_settled_balance sender < fee
         then (Inl (InsufficientForFee (acc_settled_balance sender) fee), s)
         else
           let sender = sender\<lparr>acc_settled_balance := acc_settled_balance sender - fee\<rparr> in
           if fee = 0 then (Inr 0, put s sender)
           else
             let treasury = settle (get_or_new s TREASURY) now;
                 treasury = treasury\<lparr>acc_settled_balance :=
                   sat_add128 (acc_settled_balance treasury) fee\<rparr>
             in (Inr fee, put (put s sender) treasury))"

definition apply_transfer ::
    "mem_state \<Rightarrow> address \<Rightarrow> address \<Rightarrow> u128 \<Rightarrow> u64 \<Rightarrow> u64 \<Rightarrow> (TransferError + unit) \<times> mem_state" where
  "apply_transfer s frm to val nonce now =
     (let s = settle_incoming s frm now;
          sender = settle (get_or_new s frm) now
      in if nonce \<noteq> acc_nonce sender then (Inl (BadNonce (acc_nonce sender) nonce), s)
         else if acc_settled_balance sender < val
           then (Inl (InsufficientBalance (acc_settled_balance sender) val), s)
         else if frm = to
           then (Inr (), put s (sender\<lparr>acc_nonce := incr64 (acc_nonce sender)\<rparr>))
         else
           let recipient = settle (get_or_new s to) now;
               sender = sender\<lparr>acc_settled_balance := acc_settled_balance sender - val,
                 acc_nonce := incr64 (acc_nonce sender)\<rparr>;
               recipient = recipient\<lparr>acc_settled_balance :=
                 sat_add128 (acc_settled_balance recipient) val\<rparr>
           in (Inr (), put (put s sender) recipient))"

definition open_stream ::
    "mem_state \<Rightarrow> address \<Rightarrow> address \<Rightarrow> u128 \<Rightarrow> u128 \<Rightarrow> u64 \<Rightarrow> (StreamError + stream_id) \<times> mem_state" where
  "open_stream s frm to rate deposit now =
     (if frm = to then (Inl SelfStream, s)
      else if rate = 0 then (Inl ZeroRate, s)
      else if deposit = 0 then (Inl ZeroDeposit, s)
      else if rate > MAX_RATE then (Inl (RateTooHigh rate MAX_RATE), s)
      else
        let sender = settle (get_or_new s frm) now in
        if acc_settled_balance sender < deposit
        then (Inl (StreamInsufficientBalance (acc_settled_balance sender) deposit), s)
        else
          let sender = sender\<lparr>acc_settled_balance := acc_settled_balance sender - deposit\<rparr>;
              (sid, s) = next_stream_id s;
              st = \<lparr>st_id = sid, st_from = frm, st_to = to, st_rate = rate, st_deposit = deposit,
                    st_drawn = 0, st_started_at = now, st_status = Active\<rparr>
          in (Inr sid, put_stream (put s sender) st))"

text \<open>
  \<^verbatim>\<open>get_stream(id).expect("stream still present after settle")\<close> cannot fail; the definition
  reads the stream with \<open>the\<close> and \<open>settle_stream_known\<close> shows it is there.
\<close>

definition stop_stream ::
    "mem_state \<Rightarrow> stream_id \<Rightarrow> address \<Rightarrow> u64 \<Rightarrow> (StreamError + u128) \<times> mem_state" where
  "stop_stream s sid caller now =
     (case get_stream s sid of
        None \<Rightarrow> (Inl (NoSuchStream sid), s)
      | Some st \<Rightarrow>
          if st_from st \<noteq> caller then (Inl NotSender, s)
          else if st_status st \<noteq> Active then (Inl NotActive, s)
          else
            let s = snd (settle_stream s sid now);
                st = the (get_stream s sid);
                refund = sat_sub (st_deposit st) (st_drawn st);
                sender = settle (get_or_new s (st_from st)) now;
                sender = sender\<lparr>acc_settled_balance :=
                  sat_add128 (acc_settled_balance sender) refund\<rparr>;
                s = put s sender;
                st = st\<lparr>st_status := Stopped now\<rparr>
            in (Inr refund, put_stream s st))"

section \<open>The ledger invariant and the conserved measure\<close>

definition ledger_ok :: "mem_state \<Rightarrow> bool" where
  "ledger_ok s \<longleftrightarrow>
     (\<forall>a acct. get s a = Some acct \<longrightarrow> acc_address acct = a \<and> account_ok acct)
     \<and> (\<forall>k st. get_stream s k = Some st \<longrightarrow> st_id st = k \<and> stream_ok st \<and> k < ms_next_id s)
     \<and> index_ok s"

definition wealth :: "u64 \<Rightarrow> mem_state \<Rightarrow> nat" where
  "wealth now s = fm_sum (\<lambda>a. acc_balance a now) (ms_accounts s) + fm_sum locked (ms_streams s)"

abbreviation bal :: "mem_state \<Rightarrow> address \<Rightarrow> u64 \<Rightarrow> nat" where
  "bal s a now \<equiv> acc_balance (get_or_new s a) now"

abbreviation lock_of :: "mem_state \<Rightarrow> stream_id \<Rightarrow> nat" where
  "lock_of s k \<equiv> opt_val locked (get_stream s k)"

lemma ledger_ok_new [simp]: "ledger_ok mem_state_new"
  by (simp add: ledger_ok_def mem_state_new_def get_def get_stream_def
      index_ok_new [unfolded mem_state_new_def])

lemma ledger_ok_account:
  assumes "ledger_ok s"
  shows "acc_address (get_or_new s a) = a" "account_ok (get_or_new s a)"
  using assms by (auto simp: ledger_ok_def get_or_new_def split: option.split)

lemma ledger_ok_stream:
  assumes "ledger_ok s" "get_stream s k = Some st"
  shows "st_id st = k" "stream_ok st" "k < ms_next_id s"
  using assms by (auto simp: ledger_ok_def)

lemma ledger_ok_index: "ledger_ok s \<Longrightarrow> index_ok s"
  by (simp add: ledger_ok_def)

lemma ledger_ok_put: "ledger_ok s \<Longrightarrow> account_ok acct \<Longrightarrow> ledger_ok (put s acct)"
  by (auto simp: ledger_ok_def)

lemma ledger_ok_put_stream:
  assumes "ledger_ok s" "get_stream s (st_id st) = Some old" "st_from old = st_from st"
    "st_to old = st_to st" "stream_ok st"
  shows "ledger_ok (put_stream s st)"
  using assms index_ok_put_old [of s st old] by (auto simp: ledger_ok_def)

lemma ledger_ok_put_fresh:
  assumes "ledger_ok s" "get_stream s (st_id st) = None" "stream_ok st" "st_id st < ms_next_id s"
  shows "ledger_ok (put_stream s st)"
  using assms index_ok_put_fresh [of s st] by (auto simp: ledger_ok_def)

lemma bal_opt: "bal s a now = opt_val (\<lambda>x. acc_balance x now) (fmlookup (ms_accounts s) a)"
  by (simp add: get_or_new_def get_def split: option.split)

lemma bal_le_wealth: "bal s a now \<le> wealth now s"
  using opt_val_le_fm_sum [of "\<lambda>x. acc_balance x now" "ms_accounts s" a]
  by (simp add: bal_opt wealth_def)

lemma bal_two_le_wealth: "a \<noteq> b \<Longrightarrow> bal s a now + bal s b now \<le> wealth now s"
  using fm_sum_two_le [of a b "\<lambda>x. acc_balance x now" "ms_accounts s"]
  by (simp add: bal_opt wealth_def)

lemma bal_lock_le_wealth: "bal s a now + lock_of s k \<le> wealth now s"
  using opt_val_le_fm_sum [of "\<lambda>x. acc_balance x now" "ms_accounts s" a]
    opt_val_le_fm_sum [of locked "ms_streams s" k]
  by (simp add: bal_opt wealth_def get_stream_def)

text \<open>How a single write changes the measure.\<close>

lemma wealth_put:
  "wealth now (put s acct) + bal s (acc_address acct) now = wealth now s + acc_balance acct now"
  using fm_sum_fmupd [of "\<lambda>a. acc_balance a now" "acc_address acct" acct "ms_accounts s"]
  by (simp add: wealth_def bal_opt put_def)

lemma wealth_put_stream:
  "wealth now (put_stream s st) + lock_of s (st_id st) = wealth now s + locked st"
  using fm_sum_fmupd [of locked "st_id st" st "ms_streams s"]
  by (simp add: wealth_def get_stream_def put_stream_frame(5))

text \<open>A settled account after an adjustment of its balance: nothing is pending at \<open>now\<close>.\<close>

lemma balance_adjusted [simp]:
  "acc_balance (settle a now\<lparr>acc_settled_balance := b\<rparr>) now = min b U128_MAX"
  "acc_balance (settle a now\<lparr>acc_settled_balance := b, acc_nonce := n\<rparr>) now = min b U128_MAX"
  "acc_balance (settle a now\<lparr>acc_nonce := n\<rparr>) now = acc_balance a now"
proof -
  have p: "pending_emission (settle a now\<lparr>acc_settled_balance := b\<rparr>) now = 0"
    "pending_emission (settle a now\<lparr>acc_settled_balance := b, acc_nonce := n\<rparr>) now = 0"
    "pending_emission (settle a now\<lparr>acc_nonce := n\<rparr>) now = 0"
    by (simp_all add: pending_emission_def Let_def sat_mul128_def)
  show "acc_balance (settle a now\<lparr>acc_settled_balance := b\<rparr>) now = min b U128_MAX"
    "acc_balance (settle a now\<lparr>acc_settled_balance := b, acc_nonce := n\<rparr>) now = min b U128_MAX"
    by (simp_all add: acc_balance_def [of "_\<lparr>acc_settled_balance := _\<rparr>"]
        acc_balance_def [of "_\<lparr>acc_settled_balance := _, acc_nonce := _\<rparr>"] p sat_add128_def)
  have "acc_balance (settle a now\<lparr>acc_nonce := n\<rparr>) now = sat_add128 (acc_balance a now) 0"
    by (simp add: acc_balance_def [of "_\<lparr>acc_nonce := _\<rparr>"] p)
  then show "acc_balance (settle a now\<lparr>acc_nonce := n\<rparr>) now = acc_balance a now" by simp
qed

lemma account_ok_adjusted:
  assumes "account_ok a" "now \<le> U64_MAX"
  shows "b \<le> U128_MAX \<Longrightarrow> account_ok (settle a now\<lparr>acc_settled_balance := b\<rparr>)"
    and "b \<le> U128_MAX \<Longrightarrow> account_ok (settle a now\<lparr>acc_settled_balance := b, acc_nonce := incr64 n\<rparr>)"
    and "account_ok (settle a now\<lparr>acc_nonce := incr64 n\<rparr>)"
  using assms by (auto simp: account_ok_def)


section \<open>Crediting and debiting\<close>

text \<open>What every operation writes back: the settled account with its balance raised or lowered.\<close>

definition credit :: "account \<Rightarrow> u64 \<Rightarrow> nat \<Rightarrow> account" where
  "credit a now v = settle a now\<lparr>acc_settled_balance := sat_add128 (acc_balance a now) v\<rparr>"

definition debit :: "account \<Rightarrow> u64 \<Rightarrow> nat \<Rightarrow> account" where
  "debit a now v = settle a now\<lparr>acc_settled_balance := acc_balance a now - v\<rparr>"

lemma credit_simps [simp]:
  "acc_address (credit a now v) = acc_address a" "acc_address (debit a now v) = acc_address a"
  "acc_nonce (credit a now v) = acc_nonce a" "acc_nonce (debit a now v) = acc_nonce a"
  "acc_balance (credit a now v) now = sat_add128 (acc_balance a now) v"
  "acc_balance (debit a now v) now = acc_balance a now - v"
  "account_ok a \<Longrightarrow> now \<le> U64_MAX \<Longrightarrow> account_ok (credit a now v)"
  "account_ok a \<Longrightarrow> now \<le> U64_MAX \<Longrightarrow> account_ok (debit a now v)"
proof -
  have "acc_balance a now - v \<le> U128_MAX"
    using balance_le [of a now] by linarith
  then show "acc_balance (debit a now v) now = acc_balance a now - v"
    "account_ok a \<Longrightarrow> now \<le> U64_MAX \<Longrightarrow> account_ok (debit a now v)"
    by (simp_all add: debit_def account_ok_adjusted min_absorb1)
qed (simp_all add: credit_def debit_def account_ok_adjusted min_absorb1)

lemma credit_zero: "credit a now 0 = settle a now"
  by (rule account.equality) (simp_all add: credit_def)

lemma wealth_credit:
  assumes "acc_address (get_or_new s a) = a" "bal s a now + v \<le> U128_MAX"
  shows "wealth now (put s (credit (get_or_new s a) now v)) = wealth now s + v"
  using wealth_put [of now s "credit (get_or_new s a) now v"] assms by simp

lemma wealth_debit:
  assumes "acc_address (get_or_new s a) = a" "v \<le> bal s a now"
  shows "wealth now (put s (debit (get_or_new s a) now v)) + v = wealth now s"
  using wealth_put [of now s "debit (get_or_new s a) now v"] assms by simp

section \<open>Settling a stream\<close>

definition drawn_stream :: "stream \<Rightarrow> u64 \<Rightarrow> stream" where
  "drawn_stream st now =
     (let st = st\<lparr>st_drawn := st_drawn st + owed st now\<rparr>
      in if st_drawn st \<ge> st_deposit st \<and> st_status st = Active
         then st\<lparr>st_status := Completed\<rparr> else st)"

lemma settle_stream_eq:
  assumes "get_stream s k = Some st" "stream_ok st"
  shows "settle_stream s k now =
    (owed st now,
     put_stream (put s (credit (get_or_new s (st_to st)) now (owed st now))) (drawn_stream st now))"
proof -
  have "st_drawn st + owed st now \<le> U128_MAX"
    using assms(2) accrued_le_deposit [of st now] by (auto simp: stream_ok_def owed_def simp del: accrued_le_deposit)
  then have sat: "sat_add128 (st_drawn st) (owed st now) = st_drawn st + owed st now" by simp
  have ow: "accrued st now - st_drawn st = owed st now" by (simp add: owed_def)
  show ?thesis
  proof (cases "owed st now = 0")
    case True
    then show ?thesis
      using assms(1) by (simp add: settle_stream_def ow drawn_stream_def Let_def credit_zero)
  next
    case False
    then show ?thesis
      using assms(1) sat
      by (simp add: settle_stream_def ow drawn_stream_def Let_def credit_def)
  qed
qed

lemma drawn_stream_frame [simp]:
  "st_id (drawn_stream st now) = st_id st" "st_from (drawn_stream st now) = st_from st"
  "st_to (drawn_stream st now) = st_to st" "st_rate (drawn_stream st now) = st_rate st"
  "st_deposit (drawn_stream st now) = st_deposit st"
  "st_started_at (drawn_stream st now) = st_started_at st"
  "st_drawn (drawn_stream st now) = st_drawn st + owed st now"
  by (simp_all add: drawn_stream_def Let_def)

lemma drawn_le_deposit: "stream_ok st \<Longrightarrow> st_drawn st + owed st now \<le> st_deposit st"
  using accrued_le_deposit [of st now] by (auto simp: stream_ok_def owed_def simp del: accrued_le_deposit)

lemma accrued_drawn_stream [simp]: "accrued (drawn_stream st now) t = accrued st t"
  by (simp add: drawn_stream_def Let_def)

lemma drawn_stream_status:
  "st_status (drawn_stream st now) =
     (if st_drawn st + owed st now \<ge> st_deposit st \<and> st_status st = Active then Completed else st_status st)"
  by (simp add: drawn_stream_def Let_def)

lemma drawn_stream_ok:
  assumes ok: "stream_ok st"
  shows "stream_ok (drawn_stream st now)" "owed (drawn_stream st now) now = 0"
    "locked (drawn_stream st now) + owed st now = locked st"
proof -
  note le = drawn_le_deposit [OF ok, of now]
  show "owed (drawn_stream st now) now = 0" by (simp add: owed_def)
  show "stream_ok (drawn_stream st now)"
    using ok le by (auto simp: stream_ok_def drawn_stream_status split: StreamStatus.splits)
  show "locked (drawn_stream st now) + owed st now = locked st"
    using ok le owed_inactive [OF ok, of now]
    by (cases "st_status st") (auto simp: locked_def drawn_stream_status stream_ok_def)
qed

text \<open>The contract of \<^verbatim>\<open>settle_stream\<close> on a known stream.\<close>

lemma settle_stream_known:
  assumes "ledger_ok s" "get_stream s k = Some st" "now \<le> U64_MAX" "wealth now s \<le> U128_MAX"
  defines "s' \<equiv> snd (settle_stream s k now)"
  shows "fst (settle_stream s k now) = owed st now"
    "ledger_ok s'" "wealth now s' = wealth now s"
    "bal s' a now = bal s a now + (if a = st_to st then owed st now else 0)"
    "get_stream s' j = (if j = k then Some (drawn_stream st now) else get_stream s j)"
proof -
  note st = ledger_ok_stream [OF assms(1,2)]
  note acct = ledger_ok_account [OF assms(1)]
  let ?r = "credit (get_or_new s (st_to st)) now (owed st now)"
  have eq: "settle_stream s k now = (owed st now, put_stream (put s ?r) (drawn_stream st now))"
    by (rule settle_stream_eq [OF assms(2) st(2)])
  have s': "s' = put_stream (put s ?r) (drawn_stream st now)"
    by (simp add: s'_def eq)
  have lock: "lock_of s k = locked st" by (simp add: assms(2))
  have room: "bal s (st_to st) now + owed st now \<le> U128_MAX"
    using owed_le_locked [OF st(2), of now] bal_lock_le_wealth [of s "st_to st" now k] assms(4) lock
    by linarith
  show "fst (settle_stream s k now) = owed st now" by (simp add: eq)
  show "ledger_ok s'"
    unfolding s' using assms(1-3) st acct drawn_stream_ok(1) [OF st(2)]
    by (intro ledger_ok_put_stream [where old = st] ledger_ok_put) auto
  have "wealth now s' + locked st = wealth now (put s ?r) + locked (drawn_stream st now)"
    using wealth_put_stream [of now "put s ?r" "drawn_stream st now"] lock st(1)
    by (simp add: s')
  then show "wealth now s' = wealth now s"
    using wealth_credit [OF acct(1) room] drawn_stream_ok(3) [OF st(2), of now] by linarith
  show "bal s' a now = bal s a now + (if a = st_to st then owed st now else 0)"
    unfolding s' using room acct by simp
  show "get_stream s' j = (if j = k then Some (drawn_stream st now) else get_stream s j)"
    unfolding s' using st(1) by simp
qed

lemma settle_stream_unknown [simp]: "get_stream s k = None \<Longrightarrow> settle_stream s k now = (0, s)"
  by (simp add: settle_stream_def)

lemma settle_stream_frame [simp]:
  "ms_next_id (snd (settle_stream s k now)) = ms_next_id s"
  "ms_contracts (snd (settle_stream s k now)) = ms_contracts s"
  "ms_humans (snd (settle_stream s k now)) = ms_humans s"
  by (simp_all add: settle_stream_def Let_def split: option.split prod.split)


section \<open>Settling everything an account is owed\<close>

text \<open>The undrawn inflow of a list of streams, as \<^verbatim>\<open>State::balance\<close> adds it.\<close>

definition owed_sum :: "mem_state \<Rightarrow> stream_id list \<Rightarrow> u64 \<Rightarrow> nat" where
  "owed_sum s ids now = (\<Sum>k\<leftarrow>ids. opt_val (\<lambda>st. owed st now) (get_stream s k))"

lemma settle_fold:
  assumes "ledger_ok s" "now \<le> U64_MAX" "wealth now s \<le> U128_MAX" "distinct ids"
    "\<forall>k \<in> set ids. \<exists>st. get_stream s k = Some st \<and> st_to st = a"
  defines "s' \<equiv> fold (\<lambda>k s. snd (settle_stream s k now)) ids s"
  shows "ledger_ok s' \<and> wealth now s' = wealth now s
    \<and> (\<forall>b. bal s' b now = bal s b now + (if b = a then owed_sum s ids now else 0))
    \<and> (\<forall>j. get_stream s' j =
         (if j \<in> set ids then map_option (\<lambda>st. drawn_stream st now) (get_stream s j) else get_stream s j))"
  using assms(1,3-5) unfolding s'_def
proof (induction ids arbitrary: s)
  case (Cons k ids)
  obtain st where st: "get_stream s k = Some st" "st_to st = a" using Cons.prems(4) by auto
  let ?s = "snd (settle_stream s k now)"
  note step = settle_stream_known [OF Cons.prems(1) st(1) assms(2) Cons.prems(2)]
  have lookups: "get_stream ?s j = get_stream s j" if "j \<in> set ids" for j
    using step(5) [of j] that Cons.prems(3) by auto
  have sums: "owed_sum ?s ids now = owed_sum s ids now"
    unfolding owed_sum_def using lookups by (intro arg_cong [of _ _ sum_list] map_cong) auto
  have ih: "ledger_ok (fold (\<lambda>k s. snd (settle_stream s k now)) ids ?s)
    \<and> wealth now (fold (\<lambda>k s. snd (settle_stream s k now)) ids ?s) = wealth now ?s
    \<and> (\<forall>b. bal (fold (\<lambda>k s. snd (settle_stream s k now)) ids ?s) b now
        = bal ?s b now + (if b = a then owed_sum ?s ids now else 0))
    \<and> (\<forall>j. get_stream (fold (\<lambda>k s. snd (settle_stream s k now)) ids ?s) j =
         (if j \<in> set ids then map_option (\<lambda>st. drawn_stream st now) (get_stream ?s j) else get_stream ?s j))"
    using Cons.prems step(2,3) lookups by (intro Cons.IH) auto
  show ?case
    using ih step(3,4,5) sums st lookups Cons.prems(3) by (auto simp: owed_sum_def)
qed (simp add: owed_sum_def)

lemma settle_incoming_facts:
  fixes a :: address
  assumes "ledger_ok s" "now \<le> U64_MAX" "wealth now s \<le> U128_MAX"
  defines "s' \<equiv> settle_incoming s a now"
  shows "ledger_ok s'" "wealth now s' = wealth now s"
    "bal s' b now = bal s b now + (if b = a then owed_sum s (incoming s a) now else 0)"
    "get_stream s' j =
      (if j \<in> set (incoming s a) then map_option (\<lambda>st. drawn_stream st now) (get_stream s j)
       else get_stream s j)"
proof -
  note idx = ledger_ok_index [OF assms(1)]
  have mem: "\<forall>k \<in> set (incoming s a). \<exists>st. get_stream s k = Some st \<and> st_to st = a"
    using incoming_iff [OF idx] by simp
  note * = settle_fold [OF assms(1-3) distinct_incoming [OF idx] mem, folded settle_incoming_def]
  show "ledger_ok s'" "wealth now s' = wealth now s"
    "bal s' b now = bal s b now + (if b = a then owed_sum s (incoming s a) now else 0)"
    "get_stream s' j =
      (if j \<in> set (incoming s a) then map_option (\<lambda>st. drawn_stream st now) (get_stream s j)
       else get_stream s j)"
    using * unfolding s'_def by auto
qed

lemma settle_incoming_frame [simp]:
  "ms_next_id (settle_incoming s a now) = ms_next_id s"
  "ms_contracts (settle_incoming s a now) = ms_contracts s"
  "ms_humans (settle_incoming s a now) = ms_humans s"
proof -
  have "ms_next_id (fold (\<lambda>k s. snd (settle_stream s k now)) ids s) = ms_next_id s
    \<and> ms_contracts (fold (\<lambda>k s. snd (settle_stream s k now)) ids s) = ms_contracts s
    \<and> ms_humans (fold (\<lambda>k s. snd (settle_stream s k now)) ids s) = ms_humans s" for ids
    by (induction ids arbitrary: s) simp_all
  then show "ms_next_id (settle_incoming s a now) = ms_next_id s"
    "ms_contracts (settle_incoming s a now) = ms_contracts s"
    "ms_humans (settle_incoming s a now) = ms_humans s"
    by (simp_all add: settle_incoming_def)
qed

text \<open>Without overflow the reported balance is the account's plus its undrawn inflow.\<close>

lemma foldl_sat_add: "foldl sat_add128 (min n U128_MAX) xs = min (n + sum_list xs) U128_MAX"
proof (induction xs arbitrary: n)
  case (Cons x xs)
  have "sat_add128 (min n U128_MAX) x = min (n + x) U128_MAX" by (auto simp: sat_add128_def min_def)
  then show ?case using Cons [of "n + x"] by (simp add: add.assoc)
qed simp

lemma sum_list_map_filter:
  "(\<Sum>x\<leftarrow>List.map_filter f ks. g x) = (\<Sum>k\<leftarrow>ks. opt_val g (f k))"
  by (induction ks) (auto simp: List.map_filter_def split: option.split)

lemma state_balance_eq:
  "state_balance s a now = min (bal s a now + owed_sum s (incoming s a) now) U128_MAX"
proof -
  have inflow: "foldl sat_add128 0 xs = min (sum_list xs) U128_MAX" for xs
    using foldl_sat_add [of 0 xs] by simp
  have base: "(case get s a of Some acct \<Rightarrow> acc_balance acct now | None \<Rightarrow> 0) = bal s a now"
    by (simp add: get_or_new_def split: option.split)
  have "state_balance s a now = sat_add128 (bal s a now) (min (owed_sum s (incoming s a) now) U128_MAX)"
    by (simp only: state_balance_def Let_def base inflow sum_list_map_filter owed_sum_def flip: owed_def)
  then show ?thesis
    by (auto simp: sat_add128_def min_def)
qed

lemma balance_after_settle_incoming:
  assumes "ledger_ok s" "now \<le> U64_MAX" "wealth now s \<le> U128_MAX"
  shows "bal (settle_incoming s a now) a now = state_balance s a now"
proof -
  note f = settle_incoming_facts [OF assms, of a]
  have "bal s a now + owed_sum s (incoming s a) now \<le> U128_MAX"
    using bal_le_wealth [of "settle_incoming s a now" a now] f(2) f(3) [of a] assms(3) by simp
  then show ?thesis
    using f(3) [of a] by (simp add: state_balance_eq)
qed


section \<open>Transfers and fees\<close>

lemma transfer_cases:
  fixes s frm now
  defines "s1 \<equiv> settle_incoming s frm now"
  defines "sender \<equiv> get_or_new s1 frm"
  shows "apply_transfer s frm to val nonce now =
    (if nonce \<noteq> acc_nonce sender then (Inl (BadNonce (acc_nonce sender) nonce), s1)
     else if bal s1 frm now < val then (Inl (InsufficientBalance (bal s1 frm now) val), s1)
     else if frm = to then (Inr (), put s1 (settle sender now\<lparr>acc_nonce := incr64 (acc_nonce sender)\<rparr>))
     else (Inr (), put (put s1 (debit sender now val\<lparr>acc_nonce := incr64 (acc_nonce sender)\<rparr>))
                     (credit (get_or_new s1 to) now val)))"
  by (simp add: apply_transfer_def Let_def s1_def sender_def debit_def credit_def)

lemma balance_nonce [simp]: "acc_balance (a\<lparr>acc_nonce := n\<rparr>) now = acc_balance a now"
  by (simp add: acc_balance_def pending_emission_def)

lemma account_ok_nonce: "account_ok a \<Longrightarrow> account_ok (a\<lparr>acc_nonce := incr64 n\<rparr>)"
  by (simp add: account_ok_def)

lemma wealth_move:
  assumes "ledger_ok s" "a \<noteq> b" "v \<le> bal s a now" "wealth now s \<le> U128_MAX"
    and sender: "acc_address x = a" "acc_balance x now = bal s a now - v"
  shows "wealth now (put (put s x) (credit (get_or_new s b) now v)) = wealth now s"
proof -
  note addr = ledger_ok_account(1) [OF assms(1)]
  have 1: "wealth now (put s x) + v = wealth now s"
    using wealth_put [of now s x] sender assms(3) bal_le_wealth [of s a now] by simp
  have same: "get_or_new (put s x) b = get_or_new s b"
    using sender assms(2) by simp
  have "bal s b now + v \<le> U128_MAX"
    using bal_two_le_wealth [OF assms(2), of s now] assms(3,4) by linarith
  then have "wealth now (put (put s x) (credit (get_or_new s b) now v)) = wealth now (put s x) + v"
    using wealth_credit [of "put s x" b now v] same addr by simp
  with 1 show ?thesis by simp
qed

lemma transfer_sound:
  fixes frm to val nonce
  assumes "ledger_ok s" "now \<le> U64_MAX" "wealth now s \<le> U128_MAX"
  defines "s' \<equiv> snd (apply_transfer s frm to val nonce now)"
  shows "ledger_ok s'" "wealth now s' = wealth now s"
proof -
  let ?s1 = "settle_incoming s frm now"
  let ?a = "get_or_new ?s1 frm"
  note f = settle_incoming_facts [OF assms(1-3), of frm]
  note addr = ledger_ok_account [OF f(1)]
  have "ledger_ok s' \<and> wealth now s' = wealth now s"
  proof (cases "nonce \<noteq> acc_nonce ?a \<or> bal ?s1 frm now < val")
    case True
    then have "s' = ?s1" by (auto simp: s'_def transfer_cases)
    then show ?thesis using f(1,2) by simp
  next
    case ok: False
    show ?thesis
    proof (cases "frm = to")
      case True
      then have s': "s' = put ?s1 (settle ?a now\<lparr>acc_nonce := incr64 (acc_nonce ?a)\<rparr>)"
        using ok by (auto simp: s'_def transfer_cases)
      have "wealth now s' = wealth now ?s1"
        using wealth_put [of now ?s1 "settle ?a now\<lparr>acc_nonce := incr64 (acc_nonce ?a)\<rparr>"] addr
        by (simp add: s')
      then show ?thesis
        using f addr assms(2) s' by (simp add: ledger_ok_put account_ok_nonce)
    next
      case False
      let ?x = "debit ?a now val\<lparr>acc_nonce := incr64 (acc_nonce ?a)\<rparr>"
      have s': "s' = put (put ?s1 ?x) (credit (get_or_new ?s1 to) now val)"
        using ok False by (auto simp: s'_def transfer_cases)
      have "wealth now s' = wealth now ?s1"
        unfolding s' using f ok False assms(3) addr by (intro wealth_move [of _ frm]) auto
      then show ?thesis
        using f addr assms(2) s' by (simp add: ledger_ok_put account_ok_nonce)
    qed
  qed
  then show "ledger_ok s'" "wealth now s' = wealth now s" by auto
qed

lemma fee_cases:
  fixes s frm now gas
  defines "s1 \<equiv> settle_incoming s frm now" and "fee \<equiv> fee_for_gas gas"
  shows "charge_fee s frm gas now =
    (if bal s1 frm now < fee then (Inl (InsufficientForFee (bal s1 frm now) fee), s1)
     else if fee = 0 then (Inr 0, put s1 (debit (get_or_new s1 frm) now 0))
     else (Inr fee, put (put s1 (debit (get_or_new s1 frm) now fee))
                     (credit (get_or_new s1 TREASURY) now fee)))"
  by (simp add: charge_fee_def Let_def s1_def fee_def debit_def credit_def)

lemma charge_fee_sound:
  fixes gas
  assumes "ledger_ok s" "now \<le> U64_MAX" "wealth now s \<le> U128_MAX" "frm \<noteq> TREASURY"
  defines "s' \<equiv> snd (charge_fee s frm gas now)"
  shows "ledger_ok s'" "wealth now s' = wealth now s"
proof -
  let ?s1 = "settle_incoming s frm now" and ?fee = "fee_for_gas gas"
  let ?x = "debit (get_or_new ?s1 frm) now ?fee"
  note f = settle_incoming_facts [OF assms(1-3), of frm]
  note addr = ledger_ok_account [OF f(1)]
  consider "s' = ?s1" | "?fee = 0" "s' = put ?s1 (debit (get_or_new ?s1 frm) now 0)"
    | "?fee \<le> bal ?s1 frm now" "s' = put (put ?s1 ?x) (credit (get_or_new ?s1 TREASURY) now ?fee)"
    unfolding s'_def fee_cases
    by (cases "bal ?s1 frm now < ?fee"; cases "?fee = 0") auto
  then have "ledger_ok s' \<and> wealth now s' = wealth now s"
  proof cases
    case 1
    then show ?thesis using f by simp
  next
    case 2
    then show ?thesis
      using wealth_debit [OF addr(1), of 0 frm now] f addr assms(2) by (simp add: ledger_ok_put)
  next
    case 3
    have "wealth now s' = wealth now ?s1"
      unfolding 3(2) using f 3(1) assms(3,4) addr by (intro wealth_move [of _ frm]) auto
    then show ?thesis
      using f addr assms(2) 3(2) by (simp add: ledger_ok_put)
  qed
  then show "ledger_ok s'" "wealth now s' = wealth now s" by auto
qed

section \<open>Opening and stopping a stream\<close>

lemma open_stream_cases:
  fixes s frm to rate deposit now
  defines "err \<equiv> frm = to \<or> rate = 0 \<or> deposit = 0 \<or> rate > MAX_RATE \<or> bal s frm now < deposit"
  defines "st \<equiv> \<lparr>st_id = ms_next_id s, st_from = frm, st_to = to, st_rate = rate,
    st_deposit = deposit, st_drawn = 0, st_started_at = now, st_status = Active\<rparr>"
  shows "err \<Longrightarrow> \<exists>e. open_stream s frm to rate deposit now = (Inl e, s)"
    and "\<not> err \<Longrightarrow> open_stream s frm to rate deposit now =
      (Inr (ms_next_id s),
       put_stream (put (s\<lparr>ms_next_id := incr64 (ms_next_id s)\<rparr>) (debit (get_or_new s frm) now deposit)) st)"
  by (auto simp: open_stream_def Let_def next_stream_id_def err_def st_def debit_def)

lemma ledger_ok_next_id:
  "ledger_ok s \<Longrightarrow> ms_next_id s < U64_MAX \<Longrightarrow> ledger_ok (s\<lparr>ms_next_id := incr64 (ms_next_id s)\<rparr>)"
  by (auto simp: ledger_ok_def get_def get_stream_def index_ok_def incr64_exact less_SucI)

lemma open_stream_sound:
  fixes frm to rate deposit
  assumes ok: "ledger_ok s" and now: "now \<le> U64_MAX" and room: "ms_next_id s < U64_MAX"
  defines "s' \<equiv> snd (open_stream s frm to rate deposit now)"
  shows "ledger_ok s'" "wealth now s' = wealth now s"
proof -
  let ?err = "frm = to \<or> rate = 0 \<or> deposit = 0 \<or> rate > MAX_RATE \<or> bal s frm now < deposit"
  have "ledger_ok s' \<and> wealth now s' = wealth now s"
  proof (cases ?err)
    case True
    then obtain e where "open_stream s frm to rate deposit now = (Inl e, s)"
      using open_stream_cases(1) by blast
    then show ?thesis using ok by (simp add: s'_def)
  next
    case False
    let ?x = "debit (get_or_new s frm) now deposit"
    let ?s1 = "s\<lparr>ms_next_id := incr64 (ms_next_id s)\<rparr>"
    let ?st = "\<lparr>st_id = ms_next_id s, st_from = frm, st_to = to, st_rate = rate,
      st_deposit = deposit, st_drawn = 0, st_started_at = now, st_status = Active\<rparr>"
    have s': "s' = put_stream (put ?s1 ?x) ?st"
      using open_stream_cases(2) [of frm to rate deposit s now] False by (simp add: s'_def)
    have new: "get_or_new ?s1 = get_or_new s" "get_stream ?s1 = get_stream s" "wealth now ?s1 = wealth now s"
      by (simp_all add: fun_eq_iff get_or_new_def get_def get_stream_def wealth_def)
    have fresh: "get_stream s (ms_next_id s) = None"
      using ok by (auto simp: ledger_ok_def) (metis less_irrefl not_Some_eq)
    have acct: "account_ok ?x" "acc_address ?x = frm"
      using ledger_ok_account [OF ok, of frm] now by simp_all
    have dep: "deposit \<le> bal s frm now" "deposit \<le> U128_MAX"
      using False balance_le [of "get_or_new s frm" now] by linarith+
    have "stream_ok ?st"
      using False now dep by (simp add: stream_ok_def)
    moreover have "ledger_ok (put ?s1 ?x)"
      by (intro ledger_ok_put ledger_ok_next_id ok room acct)
    ultimately have "ledger_ok s'"
      using fresh new room by (simp add: s' ledger_ok_put_fresh incr64_exact)
    moreover have "wealth now s' = wealth now (put ?s1 ?x) + deposit"
      using wealth_put_stream [of now "put ?s1 ?x" ?st] fresh new by (simp add: s' locked_def)
    moreover have "wealth now (put ?s1 ?x) + deposit = wealth now s"
      using wealth_debit [of ?s1 frm deposit now] new ledger_ok_account(1) [OF ok] dep by simp
    ultimately show ?thesis by simp
  qed
  then show "ledger_ok s'" "wealth now s' = wealth now s" by auto
qed


lemma stop_stream_accepted:
  assumes ok: "ledger_ok s" and now: "now \<le> U64_MAX" and room: "wealth now s \<le> U128_MAX"
    and st: "get_stream s k = Some st" "st_from st = caller" "st_status st = Active"
  obtains s' where
    "stop_stream s k caller now = (Inr (st_deposit st - (st_drawn st + owed st now)), s')"
    "ledger_ok s'" "wealth now s' = wealth now s"
    "\<And>a. bal s' a now = bal s a now + (if a = st_to st then owed st now else 0)
        + (if a = caller then st_deposit st - (st_drawn st + owed st now) else 0)"
    "\<And>j. get_stream s' j =
        (if j = k then Some (drawn_stream st now\<lparr>st_status := Stopped now\<rparr>) else get_stream s j)"
proof -
  let ?s1 = "snd (settle_stream s k now)"
  let ?d = "drawn_stream st now"
  let ?d' = "?d\<lparr>st_status := Stopped now\<rparr>"
  let ?refund = "st_deposit st - (st_drawn st + owed st now)"
  let ?x = "credit (get_or_new ?s1 caller) now ?refund"
  let ?s' = "put_stream (put ?s1 ?x) ?d'"
  note known = settle_stream_known [OF ok st(1) now room]
  note sok = ledger_ok_stream [OF ok st(1)]
  note dok = drawn_stream_ok [OF sok(2), of now]
  note addr = ledger_ok_account [OF known(2)]
  have eq: "stop_stream s k caller now = (Inr ?refund, ?s')"
    using st known(5) [of k] by (simp add: stop_stream_def Let_def credit_def)
  have neq: "caller \<noteq> st_to st" using sok(2) st(2) by (auto simp: stream_ok_def)
  have d: "st_drawn ?d \<le> st_deposit ?d" "stream_ok ?d" using dok by (simp_all add: stream_ok_def)
  have status: "st_status ?d = Active \<or> st_status ?d = Completed" by (simp add: drawn_stream_status st(3))
  have lock: "lock_of ?s1 k = ?refund"
    using known(5) [of k] status dok(1) by (auto simp: locked_def)
  then have fits: "bal ?s1 caller now + ?refund \<le> U128_MAX"
    using bal_lock_le_wealth [of ?s1 caller now k] known(3) room by simp
  have "accrued ?d' now \<le> st_drawn ?d'"
    using accrued_stop_le [OF status, of now now] by (simp add: owed_def)
  then have stop_ok: "stream_ok ?d'" using d by (simp add: stream_ok_def)
  have led: "ledger_ok ?s'"
    using known(2,5) addr sok(1) now stop_ok
    by (intro ledger_ok_put_stream [where old = ?d] ledger_ok_put) simp_all
  have "wealth now ?s' + ?refund = wealth now (put ?s1 ?x)"
    using wealth_put_stream [of now "put ?s1 ?x" ?d'] lock sok(1) by (simp add: locked_def)
  then have w: "wealth now ?s' = wealth now s"
    using wealth_credit [OF addr(1) fits] known(3) by linarith
  have b: "bal ?s' a now = bal s a now + (if a = st_to st then owed st now else 0)
      + (if a = caller then ?refund else 0)" for a
    using known(4) [of a] known(4) [of caller] fits addr(1) [of caller] neq by auto
  have g: "get_stream ?s' j = (if j = k then Some ?d' else get_stream s j)" for j
    using known(5) [of j] sok(1) by simp
  show thesis by (rule that [OF eq led w b g])
qed

lemma stop_stream_rejected:
  "(\<exists>e s'. stop_stream s k caller now = (Inl e, s')) \<longleftrightarrow>
     \<not> (\<exists>st. get_stream s k = Some st \<and> st_from st = caller \<and> st_status st = Active)"
  by (auto simp: stop_stream_def Let_def split: option.split)

lemma stop_stream_fail_closed: "stop_stream s k caller now = (Inl e, s') \<Longrightarrow> s' = s"
  by (auto simp: stop_stream_def Let_def split: option.splits if_splits)

lemma open_stream_fail_closed: "open_stream s frm to rate deposit now = (Inl e, s') \<Longrightarrow> s' = s"
  by (auto simp: open_stream_def Let_def split: prod.splits if_splits)

lemma stop_stream_sound:
  fixes k caller
  assumes "ledger_ok s" "now \<le> U64_MAX" "wealth now s \<le> U128_MAX"
  defines "s' \<equiv> snd (stop_stream s k caller now)"
  shows "ledger_ok s'" "wealth now s' = wealth now s"
proof -
  have "ledger_ok s' \<and> wealth now s' = wealth now s"
  proof (cases "\<exists>st. get_stream s k = Some st \<and> st_from st = caller \<and> st_status st = Active")
    case True
    then obtain st where st: "get_stream s k = Some st" "st_from st = caller" "st_status st = Active" by auto
    show ?thesis
      by (rule stop_stream_accepted [OF assms(1-3) st]) (simp add: s'_def)
  next
    case False
    then obtain e t where "stop_stream s k caller now = (Inl e, t)"
      using stop_stream_rejected by blast
    with stop_stream_fail_closed show ?thesis
      using assms(1) by (fastforce simp: s'_def)
  qed
  then show "ledger_ok s'" "wealth now s' = wealth now s" by auto
qed

section \<open>Fail-closed operations\<close>

text \<open>One call of the stream layer, and the state it leaves.\<close>

datatype stream_call =
    OpenCall address address u128 u128 u64
  | StopCall stream_id address u64

primrec stream_exec :: "mem_state \<Rightarrow> stream_call \<Rightarrow> (StreamError + nat) \<times> mem_state" where
  "stream_exec s (OpenCall frm to rate deposit now) = open_stream s frm to rate deposit now"
| "stream_exec s (StopCall sid caller now) = stop_stream s sid caller now"

interpretation stream_layer: fail_closed stream_exec
proof
  fix s i e s'
  assume "stream_exec s i = (Inl e, s')"
  then show "s' = s"
    by (cases i) (simp_all add: open_stream_fail_closed stop_stream_fail_closed)
qed


section \<open>Reported balances and nonces\<close>

lemma settle_stream_nonce:
  "ledger_ok s \<Longrightarrow> acc_nonce (get_or_new (snd (settle_stream s k now)) a) = acc_nonce (get_or_new s a)"
proof (cases "get_stream s k")
  case (Some st)
  assume ok: "ledger_ok s"
  show ?thesis
    using settle_stream_eq [OF Some ledger_ok_stream(2) [OF ok Some], of now] ledger_ok_account(1) [OF ok]
    by simp
qed simp

lemma settle_incoming_nonce:
  assumes "ledger_ok s" "now \<le> U64_MAX" "wealth now s \<le> U128_MAX"
  shows "acc_nonce (get_or_new (settle_incoming s a now) b) = acc_nonce (get_or_new s b)"
proof -
  have "acc_nonce (get_or_new (fold (\<lambda>k s. snd (settle_stream s k now)) ids s) b) = acc_nonce (get_or_new s b)"
    if "ledger_ok s" "wealth now s \<le> U128_MAX" for ids s
    using that
  proof (induction ids arbitrary: s)
    case (Cons k ids)
    show ?case
    proof (cases "get_stream s k")
      case None
      with Cons show ?thesis by simp
    next
      case (Some st)
      note known = settle_stream_known [OF Cons.prems(1) Some assms(2) Cons.prems(2)]
      then show ?thesis
        using Cons known settle_stream_nonce [OF Cons.prems(1)] by simp
    qed
  qed simp
  then show ?thesis using assms by (simp add: settle_incoming_def)
qed

lemma settle_incoming_index [simp]:
  assumes "ledger_ok s" "now \<le> U64_MAX" "wealth now s \<le> U128_MAX"
  shows "incoming (settle_incoming s a now) b = incoming s b"
proof -
  note f = settle_incoming_facts [OF assms, of a]
  note idx = ledger_ok_index [OF assms(1)]
  have "k \<in> set (incoming (settle_incoming s a now) b) \<longleftrightarrow> k \<in> set (incoming s b)" for k
    using incoming_iff [OF ledger_ok_index [OF f(1)], of k b] incoming_iff [OF idx, of k b] f(4) [of k]
    by (cases "get_stream s k") (auto split: if_splits)
  then have "set (incoming (settle_incoming s a now) b) = set (incoming s b)" by blast
  then show ?thesis
    by (intro sorted_distinct_set_unique distinct_incoming idx ledger_ok_index [OF f(1)])
      (simp_all add: incoming_def)
qed

text \<open>Settling moves value between the two halves of a reported balance and never changes it.\<close>

lemma state_balance_settle_incoming:
  assumes "ledger_ok s" "now \<le> U64_MAX" "wealth now s \<le> U128_MAX"
  shows "state_balance (settle_incoming s a now) b now = state_balance s b now"
proof -
  let ?s = "settle_incoming s a now"
  note f = settle_incoming_facts [OF assms, of a]
  note idx = ledger_ok_index [OF assms(1)]
  have drawn: "owed_sum ?s (incoming s a) now = 0"
  proof -
    have "opt_val (\<lambda>st. owed st now) (get_stream ?s k) = 0" if "k \<in> set (incoming s a)" for k
    proof -
      from that obtain st where st: "get_stream s k = Some st" by (auto simp: incoming_iff [OF idx])
      show ?thesis
        using f(4) [of k] that st drawn_stream_ok(2) [OF ledger_ok_stream(2) [OF assms(1) st]] by simp
    qed
    then show ?thesis by (simp add: owed_sum_def)
  qed
  show ?thesis
  proof (cases "b = a")
    case True
    then show ?thesis
      using f(3) [of a] drawn by (simp add: state_balance_eq settle_incoming_index [OF assms])
  next
    case False
    have "get_stream ?s k = get_stream s k" if "k \<in> set (incoming s b)" for k
      using that False incoming_iff [OF idx, of k a] incoming_iff [OF idx, of k b] f(4) [of k] by auto
    then have "owed_sum ?s (incoming s b) now = owed_sum s (incoming s b) now"
      unfolding owed_sum_def by (intro arg_cong [of _ _ sum_list] map_cong) auto
    then show ?thesis
      using f(3) [of b] False by (simp add: state_balance_eq settle_incoming_index [OF assms])
  qed
qed

lemma owed_sum_put [simp]: "owed_sum (put s x) ids now = owed_sum s ids now"
  by (simp add: owed_sum_def)

lemma state_nonce_eq: "state_nonce s a = acc_nonce (get_or_new s a)"
  by (simp add: state_nonce_def get_or_new_def split: option.split)

lemma state_balance_bound:
  assumes "ledger_ok s" "now \<le> U64_MAX" "wealth now s \<le> U128_MAX"
  shows "state_balance s a now = bal s a now + owed_sum s (incoming s a) now"
proof -
  have "bal s a now + owed_sum s (incoming s a) now \<le> U128_MAX"
    using settle_incoming_facts [OF assms, of a] bal_le_wealth [of "settle_incoming s a now" a now] assms(3)
    by (metis (full_types) le_trans)
  then show ?thesis by (simp add: state_balance_eq)
qed

section \<open>Issuance\<close>

definition verified_count :: "mem_state \<Rightarrow> nat" where
  "verified_count s = fm_sum (\<lambda>a. if acc_verified a then 1 else 0) (ms_accounts s)"

lemma pending_growth:
  assumes "t \<le> t'" "t' \<le> U64_MAX"
  shows "pending_emission a t' \<le> pending_emission a t
    + (if acc_verified a then UBI * (t' - t) div EMISSION_PERIOD_SECS + 1 else 0)"
proof (cases "acc_verified a")
  case True
  let ?x = "UBI * (t - emission_since a)" and ?y = "UBI * (t' - t)"
  have "UBI * (t' - emission_since a) \<le> ?x + ?y"
    unfolding add_mult_distrib2 [symmetric] using assms(1) by (intro mult_le_mono2) simp
  then have "UBI * (t' - emission_since a) div EMISSION_PERIOD_SECS \<le> (?x + ?y) div EMISSION_PERIOD_SECS"
    by (rule div_le_mono)
  then show ?thesis
    using True assms div_add_bounds(2) [of EMISSION_PERIOD_SECS ?x ?y]
    by (simp add: pending_verified EMISSION_PERIOD_SECS_def)
qed (simp add: pending_emission_def)

lemma balance_growth:
  assumes "t \<le> t'" "t' \<le> U64_MAX"
  shows "acc_balance a t' \<le> acc_balance a t
    + (if acc_verified a then UBI * (t' - t) div EMISSION_PERIOD_SECS + 1 else 0)"
  using pending_growth [OF assms, of a] by (auto simp: acc_balance_def sat_add128_def)

lemma fm_sum_le: "(\<And>v. f v \<le> g v) \<Longrightarrow> fm_sum f m \<le> fm_sum g m"
  unfolding fm_sum_def by (intro sum_mono) auto

lemma fm_sum_add: "fm_sum (\<lambda>v. f v + g v) m = fm_sum f m + fm_sum g m"
  unfolding fm_sum_def by (rule sum.distrib)

lemma fm_sum_scale: "fm_sum (\<lambda>v. c * g v) m = c * fm_sum g m"
  unfolding fm_sum_def by (rule sum_distrib_left [symmetric])

lemma wealth_growth:
  assumes "t \<le> t'" "t' \<le> U64_MAX"
  shows "wealth t s \<le> wealth t' s
    \<and> wealth t' s \<le> wealth t s + verified_count s * (UBI * (t' - t) div EMISSION_PERIOD_SECS + 1)"
proof -
  let ?g = "UBI * (t' - t) div EMISSION_PERIOD_SECS + 1"
  have "fm_sum (\<lambda>a. acc_balance a t') (ms_accounts s)
      \<le> fm_sum (\<lambda>a. acc_balance a t + ?g * (if acc_verified a then 1 else 0)) (ms_accounts s)"
  proof (rule fm_sum_le)
    show "acc_balance a t' \<le> acc_balance a t + ?g * (if acc_verified a then 1 else 0)" for a
      using balance_growth [OF assms, of a] by (cases "acc_verified a") simp_all
  qed
  also have "\<dots> = fm_sum (\<lambda>a. acc_balance a t) (ms_accounts s) + ?g * verified_count s"
    by (simp only: fm_sum_add fm_sum_scale verified_count_def)
  finally have "wealth t' s \<le> wealth t s + verified_count s * ?g"
    by (simp add: wealth_def mult.commute)
  moreover have "wealth t s \<le> wealth t' s"
    using assms(1) by (simp add: wealth_def fm_sum_le balance_mono)
  ultimately show ?thesis by simp
qed

end
