(* ===== verification/Ledger_Theorems.thy ===== *)
theory Ledger_Theorems
  imports Ledger
begin

text \<open>
  The properties of the ledger: conservation, the exact result of every value-moving operation in
  terms of the balance the node reports, the life of a stream, bounded issuance, and two places
  where the code does less than its comments promise. The concrete state \<open>demo_state\<close> (two funded
  accounts and one running stream) serves as the witness input.
\<close>

section \<open>A concrete state\<close>

definition funded :: "address \<Rightarrow> u128 \<Rightarrow> account" where
  "funded a b = (fresh_account a)\<lparr>acc_settled_balance := b\<rparr>"

definition demo_base :: mem_state where
  "demo_base = put (put mem_state_new (funded 1 5000)) (funded 3 9000)"

text \<open>Account 3 streams 10 base units per second to account 1 from second 100 on.\<close>

definition demo_state :: mem_state where
  "demo_state = snd (open_stream demo_base 3 1 10 1000 100)"

lemma funded_simps [simp]:
  "acc_address (funded a b) = a" "acc_verified (funded a b) = False"
  "acc_settled_balance (funded a b) = b" "acc_nonce (funded a b) = 0"
  "acc_last_settled_at (funded a b) = 0" "acc_verified_at (funded a b) = 0"
  by (simp_all add: funded_def)

lemma funded_balance [simp]: "b \<le> U128_MAX \<Longrightarrow> acc_balance (funded a b) now = b"
  by (simp add: acc_balance_def pending_emission_def)

lemma funded_ok [simp]: "b \<le> U128_MAX \<Longrightarrow> account_ok (funded a b)"
  by (simp add: account_ok_def)

lemma demo_base_lookups [simp]:
  "get demo_base a = (if a = 3 then Some (funded 3 9000) else if a = 1 then Some (funded 1 5000) else None)"
  "get_stream demo_base k = None" "ms_next_id demo_base = 0"
  by (simp_all add: demo_base_def) (simp_all add: mem_state_new_def get_def get_stream_def)

lemma demo_base_ok: "ledger_ok demo_base"
  unfolding demo_base_def by (intro ledger_ok_put ledger_ok_new) (simp_all add: U128_MAX_def)

definition demo_stream :: stream where
  "demo_stream = \<lparr>st_id = 0, st_from = 3, st_to = 1, st_rate = 10, st_deposit = 1000,
     st_drawn = 0, st_started_at = 100, st_status = Active\<rparr>"

lemma demo_open: "open_stream demo_base 3 1 10 1000 100 = (Inr 0, demo_state)"
  by (simp add: demo_state_def open_stream_def get_or_new_def Let_def next_stream_id_def
      U128_MAX_def const_defs)

lemma demo_state_eq:
  "demo_state = put_stream (put (demo_base\<lparr>ms_next_id := 1\<rparr>) (debit (funded 3 9000) 100 1000)) demo_stream"
  by (simp add: demo_state_def open_stream_def get_or_new_def Let_def next_stream_id_def
      U128_MAX_def const_defs demo_stream_def debit_def incr64_def U64_MAX_def)

lemma demo_ok: "ledger_ok demo_state"
  unfolding demo_state_def
  by (rule open_stream_sound(1)) (simp_all add: demo_base_ok U64_MAX_def)

lemma demo_get_stream [simp]: "get_stream demo_state k = (if k = 0 then Some demo_stream else None)"
  by (simp add: demo_state_eq demo_stream_def) (simp add: get_stream_def demo_base_def mem_state_new_def put_def)

lemma demo_wealth: "wealth now demo_state = 14000"
proof -
  have unverified: "acc_balance (debit (funded 3 9000) 100 1000) now = 8000"
    by (simp add: acc_balance_def debit_def pending_emission_def U128_MAX_def)
  show ?thesis
    by (simp add: demo_state_eq wealth_def put_def demo_base_def mem_state_new_def fm_sum_def
        U128_MAX_def unverified demo_stream_def locked_def)
qed

lemma demo_room: "wealth now demo_state \<le> U128_MAX"
  by (simp add: demo_wealth U128_MAX_def)


section \<open>Transfers\<close>

text \<open>
  C13: a value transfer, accepted or rejected, conserves the total wealth of the ledger to the base
  unit (every account's balance at that second plus every stream's remaining collateral) and keeps
  the ledger invariant: records under their own keys, sound streams, exact stream indexes.
\<close>

theorem transfer_conserves:
  assumes "ledger_ok s" "now \<le> U64_MAX" "wealth now s \<le> U128_MAX"
  shows "wealth now (snd (apply_transfer s frm to val nonce now)) = wealth now s
    \<and> ledger_ok (snd (apply_transfer s frm to val nonce now))"
  using transfer_sound [OF assms] by simp

theorem transfer_conserves_witness:
  "wealth 150 (snd (apply_transfer demo_state 1 2 5200 0 150)) = 14000"
  using transfer_conserves [OF demo_ok _ demo_room, of 150 1 2 5200 0]
  by (simp add: demo_wealth U64_MAX_def)

text \<open>
  C25: the outcome of a transfer is decided by the nonce and the balance the node reports: with the
  right nonce it is accepted exactly when the value does not exceed \<^verbatim>\<open>State::balance\<close>, which
  counts the inflow of running streams that nobody has drawn yet. The errors carry those values.
\<close>

theorem transfer_outcome:
  assumes "ledger_ok s" "now \<le> U64_MAX" "wealth now s \<le> U128_MAX"
  shows "fst (apply_transfer s frm to val nonce now) =
    (if nonce \<noteq> state_nonce s frm then Inl (BadNonce (state_nonce s frm) nonce)
     else if state_balance s frm now < val then Inl (InsufficientBalance (state_balance s frm now) val)
     else Inr ())"
  using balance_after_settle_incoming [OF assms, of frm] settle_incoming_nonce [OF assms, of frm frm]
  by (simp add: transfer_cases state_nonce_eq)

lemma demo_incoming: "incoming demo_state a = (if a = 1 then [0] else [])"
proof -
  have "k \<in> set (incoming demo_state a) \<longleftrightarrow> a = 1 \<and> k = 0" for k
    by (auto simp: incoming_iff [OF ledger_ok_index [OF demo_ok]] demo_stream_def)
  then have "set (incoming demo_state a) = (if a = 1 then {0} else {})"
    by (intro set_eqI) simp
  then show ?thesis
    by (intro sorted_distinct_set_unique distinct_incoming ledger_ok_index [OF demo_ok])
      (simp_all add: incoming_def)
qed

lemma demo_get: "get demo_state a =
    (if a = 3 then Some (debit (funded 3 9000) 100 1000) else if a = 1 then Some (funded 1 5000) else None)"
  by (simp add: demo_state_eq) (simp add: get_def demo_base_def mem_state_new_def put_def)

lemma demo_balance_1: "state_balance demo_state 1 150 = 5500"
  by (simp add: state_balance_eq demo_incoming owed_sum_def get_or_new_def demo_get owed_def
      demo_stream_def accrued_exact U128_MAX_def U64_MAX_def)

lemma demo_nonce [simp]: "state_nonce demo_state a = 0"
  by (simp add: state_nonce_def demo_get)

theorem transfer_outcome_witness:
  "fst (apply_transfer demo_state 1 2 5500 0 150) = Inr ()
   \<and> fst (apply_transfer demo_state 1 2 5501 0 150) = Inl (InsufficientBalance 5500 5501)"
  using transfer_outcome [OF demo_ok _ demo_room, of 150 1 2 5500 0]
    transfer_outcome [OF demo_ok _ demo_room, of 150 1 2 5501 0]
  by (simp add: demo_balance_1 U64_MAX_def)

text \<open>
  C26: an accepted transfer between two different accounts moves exactly the value: the reported
  balance of the sender falls by it, that of the recipient rises by it, every other reported
  balance stays, and only the sender's nonce advances, by one.
\<close>

theorem transfer_moves:
  assumes "ledger_ok s" "now \<le> U64_MAX" "wealth now s \<le> U128_MAX"
    and "apply_transfer s frm to val nonce now = (Inr (), s')" "frm \<noteq> to"
  shows "state_balance s' a now =
      (if a = frm then state_balance s a now - val
       else if a = to then state_balance s a now + val else state_balance s a now)
    \<and> state_nonce s' a = (if a = frm then incr64 (state_nonce s a) else state_nonce s a)"
proof -
  let ?s1 = "settle_incoming s frm now"
  note f = settle_incoming_facts [OF assms(1-3), of frm]
  note addr = ledger_ok_account(1) [OF f(1)]
  note keep = state_balance_settle_incoming [OF assms(1-3), of frm]
  have room: "wealth now ?s1 \<le> U128_MAX" using f(2) assms(3) by simp
  note split1 = state_balance_bound [OF f(1) assms(2) room]
  from assms(4,5) have s': "s' = put (put ?s1 (debit (get_or_new ?s1 frm) now val
      \<lparr>acc_nonce := incr64 (acc_nonce (get_or_new ?s1 frm))\<rparr>)) (credit (get_or_new ?s1 to) now val)"
    and enough: "val \<le> bal ?s1 frm now"
    by (auto simp: transfer_cases split: if_splits)
  have fits: "bal ?s1 to now + val \<le> U128_MAX"
    using bal_two_le_wealth [OF assms(5), of ?s1 now] room enough by linarith
  have sound: "ledger_ok s'" "wealth now s' \<le> U128_MAX"
    using transfer_sound [OF assms(1-3), of frm to val nonce] assms(3,4) by simp_all
  have idx: "incoming s' b = incoming ?s1 b" "owed_sum s' ids now = owed_sum ?s1 ids now" for b ids
    by (simp_all add: s')
  have "state_balance s' a now = bal s' a now + owed_sum ?s1 (incoming ?s1 a) now"
    using state_balance_bound [OF sound(1) assms(2) sound(2)] idx by simp
  moreover have "bal s' a now = (if a = frm then bal ?s1 a now - val
      else if a = to then bal ?s1 a now + val else bal ?s1 a now)"
    using assms(5) addr fits by (simp add: s')
  ultimately have "state_balance s' a now = (if a = frm then state_balance ?s1 a now - val
      else if a = to then state_balance ?s1 a now + val else state_balance ?s1 a now)"
    using split1 [of a] enough by auto
  moreover have "acc_nonce (get_or_new s' a) =
      (if a = frm then incr64 (acc_nonce (get_or_new ?s1 a)) else acc_nonce (get_or_new ?s1 a))"
    using assms(5) addr by (auto simp: s')
  ultimately show ?thesis
    by (simp add: keep state_nonce_eq settle_incoming_nonce [OF assms(1-3)])
qed

lemma transfer_accept: "fst (apply_transfer s frm to val nonce now) = Inr () \<Longrightarrow>
    apply_transfer s frm to val nonce now = (Inr (), snd (apply_transfer s frm to val nonce now))"
  by (metis prod.collapse)

theorem transfer_moves_witness:
  "state_balance (snd (apply_transfer demo_state 1 2 5200 0 150)) 1 150 = 300"
proof -
  have "fst (apply_transfer demo_state 1 2 5200 0 150) = Inr ()"
    using balance_after_settle_incoming [OF demo_ok _ demo_room, of 150 1]
      settle_incoming_nonce [OF demo_ok _ demo_room, of 150 1 1] demo_nonce [of 1]
    by (simp add: transfer_cases demo_balance_1 U64_MAX_def state_nonce_eq)
  from transfer_moves [OF demo_ok _ demo_room transfer_accept [OF this], of 1]
  show ?thesis by (simp add: demo_balance_1 U64_MAX_def)
qed


section \<open>The gas fee\<close>

text \<open>
  C27: charging gas succeeds exactly when the payer's reported balance covers gas times the gas
  price; it then returns that fee, the total wealth is unchanged, and the treasury account gains
  exactly the fee (nothing is burned or minted). A refused charge names the two amounts.
\<close>

theorem charge_fee_exact:
  assumes "ledger_ok s" "now \<le> U64_MAX" "wealth now s \<le> U128_MAX" "frm \<noteq> TREASURY"
  shows "fst (charge_fee s frm gas now) =
      (if state_balance s frm now < fee_for_gas gas
       then Inl (InsufficientForFee (state_balance s frm now) (fee_for_gas gas))
       else Inr (fee_for_gas gas))
    \<and> wealth now (snd (charge_fee s frm gas now)) = wealth now s
    \<and> ledger_ok (snd (charge_fee s frm gas now))
    \<and> bal (snd (charge_fee s frm gas now)) TREASURY now = bal s TREASURY now +
        (if state_balance s frm now < fee_for_gas gas then 0 else fee_for_gas gas)"
proof -
  let ?s1 = "settle_incoming s frm now"
  note f = settle_incoming_facts [OF assms(1-3), of frm]
  note addr = ledger_ok_account(1) [OF f(1)]
  note report = balance_after_settle_incoming [OF assms(1-3), of frm]
  have "bal ?s1 TREASURY now + fee_for_gas gas \<le> U128_MAX" if "fee_for_gas gas \<le> bal ?s1 frm now"
    using bal_two_le_wealth [OF assms(4), of ?s1 now] f(2) assms(3) that by linarith
  then have "bal (snd (charge_fee s frm gas now)) TREASURY now = bal s TREASURY now +
        (if state_balance s frm now < fee_for_gas gas then 0 else fee_for_gas gas)"
    using f(3) [of TREASURY] addr assms(4) by (auto simp: fee_cases simp flip: report)
  then show ?thesis
    using charge_fee_sound [OF assms, of gas] report by (simp add: fee_cases)
qed

theorem charge_fee_exact_witness:
  "fst (charge_fee demo_state 1 21000 150) = Inl (InsufficientForFee 5500 21000000000000)"
  using charge_fee_exact [OF demo_ok _ demo_room, of 150 1 21000]
  by (simp add: demo_balance_1 U64_MAX_def fee_for_gas_def const_defs)

section \<open>Streams\<close>



text \<open>
  C29: the life of a stream. If a stream opened at \<open>t0\<close> is stopped by its sender at \<open>t\<close>, the
  recipient gets exactly what accrued, the rate times the elapsed seconds capped at the deposit,
  and the sender gets back exactly the rest; afterwards the stream pays nothing more and holds
  nothing. No other balance changes.
\<close>

theorem stream_life:
  assumes "ledger_ok s" "t0 \<le> t" "t \<le> U64_MAX" "ms_next_id s < U64_MAX"
    and "open_stream s frm to rate deposit t0 = (Inr k, s1)"
    and "wealth t s1 \<le> U128_MAX" "t0 + deposit div rate + 1 \<le> U64_MAX"
  shows "let paid = min (rate * (t - t0)) deposit;
      (r, s2) = stop_stream s1 k frm t
    in r = Inr (deposit - paid)
      \<and> (\<forall>a. bal s2 a t = bal s1 a t + (if a = to then paid else 0)
            + (if a = frm then deposit - paid else 0))
      \<and> (\<exists>st. get_stream s2 k = Some st \<and> locked st = 0 \<and> (\<forall>t'. owed st t' = 0))"
proof -
  have t0: "t0 \<le> U64_MAX" using assms(2,3) by simp
  have ok: "\<not> (frm = to \<or> rate = 0 \<or> deposit = 0 \<or> rate > MAX_RATE \<or> bal s frm t0 < deposit)"
  proof
    assume err: "frm = to \<or> rate = 0 \<or> deposit = 0 \<or> rate > MAX_RATE \<or> bal s frm t0 < deposit"
    from open_stream_cases(1) [OF err] assms(5) show False by auto
  qed
  note opened = open_stream_cases(2) [OF ok]
  let ?st = "\<lparr>st_id = ms_next_id s, st_from = frm, st_to = to, st_rate = rate,
    st_deposit = deposit, st_drawn = 0, st_started_at = t0, st_status = Active\<rparr>"
  have k: "k = ms_next_id s" and get1: "get_stream s1 k = Some ?st"
    using opened assms(5) by auto
  have led: "ledger_ok s1"
    using open_stream_sound(1) [OF assms(1) t0 assms(4), of frm to rate deposit] assms(5) by simp
  have dep: "deposit \<le> U128_MAX"
    using ok balance_le [of "get_or_new s frm" t0] by linarith
  let ?paid = "min (rate * (t - t0)) deposit"
  have "owed ?st t = ?paid"
    using accrued_exact [of ?st t] ok dep assms(7) by (simp add: owed_def)
  with get1 obtain st where st: "get_stream s1 k = Some st" "st_from st = frm" "st_status st = Active"
    and fields: "st_to st = to" "st_deposit st = deposit" "st_drawn st = 0" "owed st t = ?paid"
    by simp
  show ?thesis
  proof (rule stop_stream_accepted [OF led assms(3,6) st])
    fix s2
    assume stop: "stop_stream s1 k frm t = (Inr (st_deposit st - (st_drawn st + owed st t)), s2)"
      and led2: "ledger_ok s2"
      and bals: "\<And>a. bal s2 a t = bal s1 a t + (if a = st_to st then owed st t else 0)
        + (if a = frm then st_deposit st - (st_drawn st + owed st t) else 0)"
      and get2: "\<And>j. get_stream s2 j =
        (if j = k then Some (drawn_stream st t\<lparr>st_status := Stopped t\<rparr>) else get_stream s1 j)"
    let ?d = "drawn_stream st t\<lparr>st_status := Stopped t\<rparr>"
    have "stream_ok ?d"
      using ledger_ok_stream(2) [OF led2, of k ?d] get2 by simp
    then have "owed ?d t' = 0" for t'
      by (rule owed_inactive) simp
    then show ?thesis
      using stop bals get2 [of k] fields by (simp add: locked_def)
  qed
qed

theorem stream_life_witness:
  "fst (stop_stream demo_state 0 3 150) = Inr 500 \<and> fst (stop_stream demo_state 0 3 999) = Inr 0"
  using stream_life [OF demo_base_ok _ _ _ demo_open demo_room, of 150]
    stream_life [OF demo_base_ok _ _ _ demo_open demo_room, of 999]
  by (simp add: U64_MAX_def Let_def split: prod.splits)


text \<open>
  C30: settling the inflow of an account never changes a balance the node reports, neither that
  account's nor anybody else's, so reads and spends agree no matter how often streams are settled.
\<close>

theorem settling_is_invisible:
  assumes "ledger_ok s" "now \<le> U64_MAX" "wealth now s \<le> U128_MAX"
  shows "state_balance (settle_incoming s a now) b now = state_balance s b now
    \<and> bal (settle_incoming s a now) a now = state_balance s a now"
  using state_balance_settle_incoming [OF assms] balance_after_settle_incoming [OF assms] by simp

theorem settling_is_invisible_witness:
  "state_balance (settle_incoming demo_state 1 150) 1 150 = 5500"
  using settling_is_invisible [OF demo_ok _ demo_room, of 150 1 1] by (simp add: demo_balance_1 U64_MAX_def)

text \<open>
  the stream layer is fail-closed: a sequence of open and stop calls ends in the very state the
  accepted calls alone would have reached, in the same order.
\<close>

theorem stream_calls_fail_closed:
  "stream_layer.run s (stream_layer.accepted s calls) = stream_layer.run s (calls :: stream_call list)
   \<and> (stream_exec s call = (Inl e, s') \<longrightarrow> s' = s)"
  using stream_layer.run_accepted stream_layer.rejected_unchanged by blast

theorem stream_calls_fail_closed_witness:
  "snd (stream_exec demo_base (OpenCall 3 3 10 1000 100)) = demo_base"
  using stream_calls_fail_closed [of demo_base "[]" "OpenCall 3 3 10 1000 100" SelfStream
      "snd (stream_exec demo_base (OpenCall 3 3 10 1000 100))"]
  by (simp add: open_stream_def)

section \<open>Issuance\<close>

text \<open>
  C18: bounded issuance. While no operation runs, the total wealth never falls, and over any
  interval it grows by at most one UBI per hour for each verified account, up to one base unit of
  rounding per account; unverified accounts and streams create nothing.
\<close>

theorem bounded_issuance:
  assumes "t \<le> t'" "t' \<le> U64_MAX"
  shows "wealth t s \<le> wealth t' s
    \<and> wealth t' s \<le> wealth t s + verified_count s * (UBI * (t' - t) div EMISSION_PERIOD_SECS + 1)"
  by (rule wealth_growth [OF assms])

theorem bounded_issuance_witness:
  "wealth 7200 (put mem_state_new ((funded 1 0)\<lparr>acc_verified := True\<rparr>)) \<le> 2 * UBI + 1"
  using bounded_issuance [of 0 7200 "put mem_state_new ((funded 1 0)\<lparr>acc_verified := True\<rparr>)"]
  by (simp add: U64_MAX_def verified_count_def wealth_def put_def mem_state_new_def fm_sum_def
      const_defs acc_balance_def pending_emission_def funded_def fresh_account_def sat_add128_def
      sat_mul128_def)

section \<open>Where the code does less than its comments say\<close>

text \<open>
  a rejected transfer is not a no-op. The comment on \<^verbatim>\<open>apply_transfer\<close> says that on any
  error the state is left untouched; the settlement of the sender's inflow has already been written
  when the balance check fails, so the stream's drawn amount has moved.
\<close>

theorem rejected_transfer_writes:
  "\<exists>e s'. apply_transfer demo_state 1 2 9999 0 150 = (Inl e, s') \<and> s' \<noteq> demo_state
     \<and> map_option st_drawn (get_stream s' 0) = Some 500"
proof -
  let ?s1 = "settle_incoming demo_state 1 150"
  note f = settle_incoming_facts [OF demo_ok _ demo_room, of 150 1]
  have "apply_transfer demo_state 1 2 9999 0 150 = (Inl (InsufficientBalance 5500 9999), ?s1)"
    using balance_after_settle_incoming [OF demo_ok _ demo_room, of 150 1]
      settle_incoming_nonce [OF demo_ok _ demo_room, of 150 1 1] demo_nonce [of 1]
    by (simp add: transfer_cases demo_balance_1 U64_MAX_def state_nonce_eq)
  moreover have "map_option st_drawn (get_stream ?s1 0) = Some 500"
    using f(4) [of 0] by (simp add: demo_incoming U64_MAX_def owed_def demo_stream_def accrued_exact
        U128_MAX_def)
  moreover have "map_option st_drawn (get_stream demo_state 0) = Some 0"
    by (simp add: demo_stream_def)
  ultimately show ?thesis by force
qed

text \<open>
  the treasury cannot pay its own fee. \<^verbatim>\<open>charge_fee\<close> reads the treasury after copying the
  sender and writes it last, so when the payer is the treasury itself the debit is lost and the fee
  is created out of nothing.
\<close>

theorem treasury_fee_mints:
  "let s = put mem_state_new (funded TREASURY UBI)
   in wealth 0 (snd (charge_fee s TREASURY GAS_TRANSFER 0)) = wealth 0 s + fee_for_gas GAS_TRANSFER"
proof -
  let ?s = "put mem_state_new (funded TREASURY UBI)"
  have led: "ledger_ok ?s"
    by (intro ledger_ok_put ledger_ok_new) (simp add: U128_MAX_def UBI_def)
  have none: "incoming mem_state_new TREASURY = []"
    by (simp add: incoming_def mem_state_new_def bucket_def)
  have s1: "settle_incoming ?s TREASURY 0 = ?s" by (simp add: settle_incoming_def none)
  have big: "fee_for_gas GAS_TRANSFER \<le> UBI" "UBI + fee_for_gas GAS_TRANSFER \<le> U128_MAX"
    "fee_for_gas GAS_TRANSFER \<noteq> 0" "UBI \<le> U128_MAX"
    by (simp_all add: fee_for_gas_def const_defs U128_MAX_def)
  have "snd (charge_fee ?s TREASURY GAS_TRANSFER 0) =
      put (put ?s (debit (funded TREASURY UBI) 0 (fee_for_gas GAS_TRANSFER)))
        (credit (funded TREASURY UBI) 0 (fee_for_gas GAS_TRANSFER))"
    using big by (simp add: fee_cases s1)
  then show ?thesis
    using big by (simp add: wealth_def put_def mem_state_new_def fm_sum_def)
qed

end
