(* ===== verification/Lifecycle.thy ===== *)
theory Lifecycle
  imports Ledger
begin

unbundle bit_operations_syntax

text \<open>
  The proof-of-humanity state machine (\<^verbatim>\<open>crates/runtime/src/lifecycle.rs\<close>): registration,
  vouching, challenges, jury verdicts, finalisation, revocation and the genesis seeding. The
  invariant \<open>poh_ok\<close> says that every record sits under its own key, that every case was voted on by
  distinct members of its own jury and that a closed case carries what the tally of its votes says;
  \<open>gate_ok\<close> says that an account emits exactly when its human is verified or challenged, with the
  human's own emission epoch. The lemmas show that each transition keeps both and what each one
  does on every branch.
\<close>

datatype LifecycleError =
    AlreadyRegistered HumanStatus
  | NoJurors
  | VoucherNotVerified
  | VouchCapacityReached
  | SelfVouch
  | DuplicateVouch
  | VoucheeNotPending
  | NotChallengeable HumanStatus
  | ChallengerNotVerified
  | ChallengeAlreadyOpen
  | ChallengeOnCooldown
  | NoSuchCase u64
  | NotOnJury
  | CaseClosed
  | AlreadyVoted
  | NotPending
  | LivenessNotPassed
  | InsufficientVouches usize usize
  | ChallengeWindowOpen u64 u64
  | ChallengePending

section \<open>Helpers of the code\<close>

definition jury_seed :: "u64 \<Rightarrow> u64 \<Rightarrow> 64 word" where
  "jury_seed case_id entropy =
     (let z0 = (of_nat case_id * 0x9E3779B97F4A7C15) XOR of_nat entropy;
          z1 = (z0 XOR drop_bit 30 z0) * 0xBF58476D1CE4E5B9;
          z2 = (z1 XOR drop_bit 27 z1) * 0x94D049BB133111EB
      in z2 XOR drop_bit 31 z2)"

definition apply_tally :: "poh_case \<Rightarrow> poh_case" where
  "apply_tally c =
     (case tally (cs_votes c) (length (cs_jury c)) QUORUM of
        TCommitted v \<Rightarrow> c\<lparr>cs_status := Committed v\<rparr>
      | TEscalated \<Rightarrow> c\<lparr>cs_status := Escalated\<rparr>
      | TPending \<Rightarrow> c\<lparr>cs_status := Open\<rparr>)"

text \<open>\<^verbatim>\<open>rfind\<close> on the id-sorted list: the most recent registration case.\<close>

definition last_registration :: "mem_state \<Rightarrow> address \<Rightarrow> poh_case option" where
  "last_registration s subject =
     List.find (\<lambda>c. cs_subject c = subject \<and> cs_kind c = Registration) (rev (all_cases s))"

definition liveness_passed :: "mem_state \<Rightarrow> address \<Rightarrow> bool" where
  "liveness_passed s subject =
     (case last_registration s subject of
        None \<Rightarrow> False
      | Some c \<Rightarrow> (case cs_status c of Committed v \<Rightarrow> cv_verdict v = VHuman | _ \<Rightarrow> False))"

definition registration_opened_at :: "mem_state \<Rightarrow> address \<Rightarrow> u64 option" where
  "registration_opened_at s subject = map_option cs_opened_at (last_registration s subject)"

definition has_open_challenge :: "mem_state \<Rightarrow> address \<Rightarrow> bool" where
  "has_open_challenge s subject =
     list_ex (\<lambda>c. cs_subject c = subject \<and> cs_kind c = Challenge \<and> cs_status c = Open) (all_cases s)"

definition has_pending_or_upheld_challenge :: "mem_state \<Rightarrow> address \<Rightarrow> bool" where
  "has_pending_or_upheld_challenge s subject =
     list_ex (\<lambda>c. cs_subject c = subject \<and> cs_kind c = Challenge
       \<and> (case cs_status c of Open \<Rightarrow> True | Committed v \<Rightarrow> cv_verdict v = VSybil | Escalated \<Rightarrow> False))
     (all_cases s)"

definition sync_account_verified :: "mem_state \<Rightarrow> address \<Rightarrow> bool \<Rightarrow> u64 \<Rightarrow> mem_state" where
  "sync_account_verified s a verified verified_at =
     put s ((get_or_new s a)\<lparr>acc_verified := verified, acc_verified_at := verified_at\<rparr>)"

section \<open>Transitions\<close>

definition open_case ::
    "mem_state \<Rightarrow> address \<Rightarrow> address \<Rightarrow> CaseKind \<Rightarrow> hash \<Rightarrow> u64 \<Rightarrow> u64 \<Rightarrow> (LifecycleError + u64) \<times> mem_state" where
  "open_case s subject challenger kind evidence_ref entropy now =
     (let candidates = active_jurors s in
      if candidates = [] then (Inl NoJurors, s)
      else
        let (cid, s) = next_case_id s;
            jury = select_jury candidates JURY_SIZE (jury_seed cid entropy);
            c = \<lparr>cs_id = cid, cs_subject = subject, cs_challenger = challenger, cs_kind = kind,
                 cs_evidence_ref = evidence_ref, cs_jury = jury, cs_votes = [], cs_status = Open,
                 cs_opened_at = now\<rparr>
        in (Inr cid, put_case s c))"

record liveness_evidence =
  le_liveness_ref :: hash
  le_challenge :: "byte list"
  le_response :: "byte list"

definition request_verification ::
    "mem_state \<Rightarrow> humanity_oracle \<Rightarrow> address \<Rightarrow> liveness_evidence \<Rightarrow> u64 \<Rightarrow> u64
      \<Rightarrow> (LifecycleError + u64) \<times> mem_state" where
  "request_verification s oracle subject evidence entropy now =
     (case map_option hu_status (get_human s subject) of
        Some Pending \<Rightarrow> (Inl (AlreadyRegistered Pending), s)
      | Some Verified \<Rightarrow> (Inl (AlreadyRegistered Verified), s)
      | Some Challenged \<Rightarrow> (Inl (AlreadyRegistered Challenged), s)
      | _ \<Rightarrow>
          let s = clear_vouch_edges s subject in
          case open_case s subject subject Registration (le_liveness_ref evidence) entropy now of
            (Inl e, s) \<Rightarrow> (Inl e, s)
          | (Inr case_id, s) \<Rightarrow>
              let c = the (get_case s case_id);
                  c = c\<lparr>cs_votes := cs_votes c @
                    map (\<lambda>j. (j, grade_liveness oracle (le_challenge evidence) (le_response evidence)))
                      (cs_jury c)\<rparr>;
                  s = put_case s (apply_tally c);
                  s = put_human s (human_pending subject (le_liveness_ref evidence))
              in (Inr case_id, s))"

definition vouch :: "mem_state \<Rightarrow> address \<Rightarrow> address \<Rightarrow> u64 \<Rightarrow> (LifecycleError + unit) \<times> mem_state" where
  "vouch s voucher vouchee now =
     (if voucher = vouchee then (Inl SelfVouch, s)
      else if map_option hu_status (get_human s voucher) \<noteq> Some Verified
        then (Inl VoucherNotVerified, s)
      else case get_human s vouchee of
        None \<Rightarrow> (Inl VoucheeNotPending, s)
      | Some h \<Rightarrow>
          if hu_status h \<noteq> Pending then (Inl VoucheeNotPending, s)
          else if vouchee \<in> set (vouches_out s voucher) then (Inl DuplicateVouch, s)
          else if length (vouches_out s voucher) \<ge> VOUCH_CAPACITY
            then (Inl VouchCapacityReached, s)
          else
            let s = put_vouch s \<lparr>vo_voucher = voucher, vo_vouchee = vouchee, vo_at = now\<rparr>;
                h = (if voucher \<in> set (hu_vouches_in h) then h
                     else h\<lparr>hu_vouches_in := sort (hu_vouches_in h @ [voucher])\<rparr>)
            in (Inr (), put_human s h))"

definition challenge_inner ::
    "mem_state \<Rightarrow> address \<Rightarrow> address \<Rightarrow> hash \<Rightarrow> u64 \<Rightarrow> u64 \<Rightarrow> bool \<Rightarrow> (LifecycleError + u64) \<times> mem_state" where
  "challenge_inner s challenger subject evidence_ref entropy now require_verified_challenger =
     (if require_verified_challenger
         \<and> map_option hu_status (get_human s challenger) \<noteq> Some Verified
      then (Inl ChallengerNotVerified, s)
      else
        let status = (case get_human s subject of Some h \<Rightarrow> hu_status h | None \<Rightarrow> Unverified) in
        if status = Unverified \<or> status = Revoked then (Inl (NotChallengeable status), s)
        else if has_open_challenge s subject then (Inl ChallengeAlreadyOpen, s)
        else if challenge_cleared s challenger subject then (Inl ChallengeOnCooldown, s)
        else
          case open_case s subject challenger Challenge evidence_ref entropy now of
            (Inl e, s) \<Rightarrow> (Inl e, s)
          | (Inr case_id, s) \<Rightarrow>
              (Inr case_id,
               if status = Verified then
                 (case get_human s subject of
                    Some h \<Rightarrow> put_human s (h\<lparr>hu_status := Challenged\<rparr>)
                  | None \<Rightarrow> s)
               else s))"

definition challenge ::
    "mem_state \<Rightarrow> address \<Rightarrow> address \<Rightarrow> hash \<Rightarrow> u64 \<Rightarrow> u64 \<Rightarrow> (LifecycleError + u64) \<times> mem_state" where
  "challenge s challenger subject evidence_ref entropy now =
     challenge_inner s challenger subject evidence_ref entropy now True"

definition system_challenge ::
    "mem_state \<Rightarrow> address \<Rightarrow> address \<Rightarrow> hash \<Rightarrow> u64 \<Rightarrow> u64 \<Rightarrow> (LifecycleError + u64) \<times> mem_state" where
  "system_challenge s system subject evidence_ref entropy now =
     challenge_inner s system subject evidence_ref entropy now False"

text \<open>A reputation slash, written out twice in the code.\<close>

definition slash :: "i64 \<Rightarrow> address \<Rightarrow> mem_state \<Rightarrow> mem_state" where
  "slash amount a s =
     (case get_human s a of
        None \<Rightarrow> s
      | Some h \<Rightarrow> put_human s (h\<lparr>hu_reputation := i64_sat_sub (hu_reputation h) amount\<rparr>))"

definition revoke :: "mem_state \<Rightarrow> address \<Rightarrow> mem_state" where
  "revoke s subject =
     (let s = (case get_human s subject of
                 None \<Rightarrow> s
               | Some h \<Rightarrow>
                   put_human (fold (slash SYBIL_SLASH) (hu_vouches_in h) s)
                     (h\<lparr>hu_status := Revoked, hu_verified_at := 0, hu_vouches_in := []\<rparr>));
          s = clear_vouch_edges s subject
      in sync_account_verified s subject False 0)"

text \<open>Restoring a challenged human, on a \<^verbatim>\<open>Human\<close> verdict and on an escalation.\<close>

definition restore_challenged :: "mem_state \<Rightarrow> address \<Rightarrow> mem_state" where
  "restore_challenged s subject =
     (case get_human s subject of
        None \<Rightarrow> s
      | Some h \<Rightarrow>
          if hu_status h = Challenged
          then put_human (sync_account_verified s subject True (hu_verified_at h))
                 (h\<lparr>hu_status := Verified\<rparr>)
          else s)"

definition submit_verdict ::
    "mem_state \<Rightarrow> u64 \<Rightarrow> address \<Rightarrow> canonical_verdict \<Rightarrow> u64 \<Rightarrow> (LifecycleError + CaseStatus) \<times> mem_state" where
  "submit_verdict s case_id juror verdict now =
     (case get_case s case_id of
        None \<Rightarrow> (Inl (NoSuchCase case_id), s)
      | Some c \<Rightarrow>
          if cs_status c \<noteq> Open then (Inl CaseClosed, s)
          else if juror \<notin> set (cs_jury c) then (Inl NotOnJury, s)
          else if vote_of c juror \<noteq> None then (Inl AlreadyVoted, s)
          else
            let c = apply_tally (c\<lparr>cs_votes := cs_votes c @ [(juror, verdict)]\<rparr>);
                s = put_case s c;
                s = (case cs_status c of
                       Committed v \<Rightarrow>
                         (case cv_verdict v of
                            VSybil \<Rightarrow> revoke s (cs_subject c)
                          | VHuman \<Rightarrow>
                              (if cs_kind c = Challenge then
                                 record_challenge_cleared
                                   (slash FALSE_CHALLENGE_SLASH (cs_challenger c)
                                     (restore_challenged s (cs_subject c)))
                                   (cs_challenger c) (cs_subject c)
                               else s)
                          | VUncertain \<Rightarrow> s)
                     | Escalated \<Rightarrow>
                         (if cs_kind c = Challenge then restore_challenged s (cs_subject c) else s)
                     | Open \<Rightarrow> s)
            in (Inr (cs_status c), s))"

definition finalize_registration ::
    "mem_state \<Rightarrow> address \<Rightarrow> u64 \<Rightarrow> u64 \<Rightarrow> (LifecycleError + unit) \<times> mem_state" where
  "finalize_registration s subject now_block verified_at_secs =
     (case get_human s subject of
        None \<Rightarrow> (Inl NotPending, s)
      | Some h \<Rightarrow>
          if hu_status h \<noteq> Pending then (Inl NotPending, s)
          else if \<not> liveness_passed s subject then (Inl LivenessNotPassed, s)
          else if length (hu_vouches_in h) < MIN_VOUCHES
            then (Inl (InsufficientVouches (length (hu_vouches_in h)) MIN_VOUCHES), s)
          else
            let opened_at = (case registration_opened_at s subject of Some t \<Rightarrow> t | None \<Rightarrow> now_block) in
            if now_block < sat_add64 opened_at CHALLENGE_WINDOW
              then (Inl (ChallengeWindowOpen opened_at CHALLENGE_WINDOW), s)
            else if has_pending_or_upheld_challenge s subject then (Inl ChallengePending, s)
            else
              (Inr (),
               put_human (sync_account_verified s subject True verified_at_secs)
                 (h\<lparr>hu_status := Verified, hu_verified_at := verified_at_secs\<rparr>)))"

definition register_juror :: "mem_state \<Rightarrow> address \<Rightarrow> u128 \<Rightarrow> mem_state" where
  "register_juror s a stake = put_juror s \<lparr>ju_address = a, ju_stake = stake, ju_active = True\<rparr>"

definition seed_verified_human :: "mem_state \<Rightarrow> address \<Rightarrow> u64 \<Rightarrow> mem_state" where
  "seed_verified_human s a verified_at =
     sync_account_verified
       (put_human s \<lparr>hu_address = a, hu_status = Verified, hu_verified_at = verified_at,
          hu_liveness_ref = 0, hu_vouches_in = [], hu_reputation = 0, hu_assurance = Std\<rparr>)
       a True verified_at"

end
