(* ===== verification/Poh_Invariant.thy ===== *)
theory Poh_Invariant
  imports Lifecycle
begin

text \<open>
  The invariants of the proof-of-humanity registry and that every transition of
  \<^verbatim>\<open>lifecycle.rs\<close> keeps them. \<open>poh_ok\<close> is well-formedness of the records and of the cases;
  \<open>gate_ok\<close> relates the registry (the specification of who earns, \<open>emitting_at\<close>) with the account
  cache that the emission path reads (\<open>cache_at\<close>): the two are equal at every address.
\<close>

section \<open>Frame lemmas\<close>

lemma human_frame [simp]:
  "get (put_human s h) = get s" "get_case (put_human s h) = get_case s"
  "ms_cases (put_human s h) = ms_cases s" "get_juror (put_human s h) = get_juror s"
  "get_stream (put_human s h) = get_stream s" "index_ok (put_human s h) = index_ok s"
  "ms_next_id (put_human s h) = ms_next_id s" "ms_next_case_id (put_human s h) = ms_next_case_id s"
  "get_or_new (put_human s h) = get_or_new s" "ms_contracts (put_human s h) = ms_contracts s"
  by (simp_all add: state_defs fun_eq_iff get_or_new_def index_ok_def)

lemma case_frame [simp]:
  "get (put_case s c) = get s" "get_human (put_case s c) = get_human s"
  "get_juror (put_case s c) = get_juror s" "get_stream (put_case s c) = get_stream s"
  "index_ok (put_case s c) = index_ok s" "ms_next_id (put_case s c) = ms_next_id s"
  "ms_next_case_id (put_case s c) = ms_next_case_id s" "get_or_new (put_case s c) = get_or_new s"
  "ms_contracts (put_case s c) = ms_contracts s"
  by (simp_all add: state_defs fun_eq_iff get_or_new_def index_ok_def)

lemma account_frame [simp]:
  "get_case (put s a) = get_case s" "get_juror (put s a) = get_juror s"
  "ms_next_case_id (put s a) = ms_next_case_id s" "ms_cases (put s a) = ms_cases s"
  by (simp_all add: state_defs fun_eq_iff)

lemma edges_frame [simp]:
  "get (clear_vouch_edges s a) = get s" "get_human (clear_vouch_edges s a) = get_human s"
  "get_case (clear_vouch_edges s a) = get_case s" "get_juror (clear_vouch_edges s a) = get_juror s"
  "get_stream (clear_vouch_edges s a) = get_stream s" "index_ok (clear_vouch_edges s a) = index_ok s"
  "ms_next_id (clear_vouch_edges s a) = ms_next_id s" "ms_cases (clear_vouch_edges s a) = ms_cases s"
  "ms_next_case_id (clear_vouch_edges s a) = ms_next_case_id s"
  "get_or_new (clear_vouch_edges s a) = get_or_new s" "ms_jurors (clear_vouch_edges s a) = ms_jurors s"
  "ms_contracts (clear_vouch_edges s a) = ms_contracts s"
  by (simp_all add: clear_vouch_edges_def state_defs fun_eq_iff get_or_new_def index_ok_def)

lemma vouch_frame [simp]:
  "get (put_vouch s v) = get s" "get_human (put_vouch s v) = get_human s"
  "get_case (put_vouch s v) = get_case s" "get_juror (put_vouch s v) = get_juror s"
  "get_stream (put_vouch s v) = get_stream s" "index_ok (put_vouch s v) = index_ok s"
  "ms_next_id (put_vouch s v) = ms_next_id s" "get_or_new (put_vouch s v) = get_or_new s"
  "ms_next_case_id (put_vouch s v) = ms_next_case_id s" "ms_contracts (put_vouch s v) = ms_contracts s"
  by (simp_all add: put_vouch_def state_defs fun_eq_iff get_or_new_def index_ok_def)

lemma cleared_frame [simp]:
  "get (record_challenge_cleared s a b) = get s"
  "get_human (record_challenge_cleared s a b) = get_human s"
  "get_case (record_challenge_cleared s a b) = get_case s"
  "get_juror (record_challenge_cleared s a b) = get_juror s"
  "get_stream (record_challenge_cleared s a b) = get_stream s"
  "index_ok (record_challenge_cleared s a b) = index_ok s"
  "ms_next_id (record_challenge_cleared s a b) = ms_next_id s"
  "ms_next_case_id (record_challenge_cleared s a b) = ms_next_case_id s"
  "get_or_new (record_challenge_cleared s a b) = get_or_new s"
  "ms_contracts (record_challenge_cleared s a b) = ms_contracts s"
  by (simp_all add: state_defs fun_eq_iff get_or_new_def index_ok_def)

lemma next_case_frame [simp]:
  "get (s\<lparr>ms_next_case_id := n\<rparr>) = get s" "get_human (s\<lparr>ms_next_case_id := n\<rparr>) = get_human s"
  "get_case (s\<lparr>ms_next_case_id := n\<rparr>) = get_case s" "get_juror (s\<lparr>ms_next_case_id := n\<rparr>) = get_juror s"
  "get_stream (s\<lparr>ms_next_case_id := n\<rparr>) = get_stream s" "index_ok (s\<lparr>ms_next_case_id := n\<rparr>) = index_ok s"
  "get_or_new (s\<lparr>ms_next_case_id := n\<rparr>) = get_or_new s"
  by (simp_all add: state_defs fun_eq_iff get_or_new_def index_ok_def)

section \<open>Well-formed cases\<close>

definition case_ok :: "poh_case \<Rightarrow> bool" where
  "case_ok c \<longleftrightarrow>
     distinct (cs_jury c) \<and> length (cs_jury c) \<le> JURY_SIZE
     \<and> distinct (map fst (cs_votes c)) \<and> fst ` set (cs_votes c) \<subseteq> set (cs_jury c)
     \<and> (cs_status c \<noteq> Open \<longrightarrow> cs_status (apply_tally c) = cs_status c)"

lemma apply_tally_frame [simp]:
  "cs_id (apply_tally c) = cs_id c" "cs_subject (apply_tally c) = cs_subject c"
  "cs_challenger (apply_tally c) = cs_challenger c" "cs_kind (apply_tally c) = cs_kind c"
  "cs_jury (apply_tally c) = cs_jury c" "cs_votes (apply_tally c) = cs_votes c"
  "cs_opened_at (apply_tally c) = cs_opened_at c" "cs_evidence_ref (apply_tally c) = cs_evidence_ref c"
  by (simp_all add: apply_tally_def split: Tally.split)

lemma apply_tally_status:
  "cs_status (apply_tally c) =
     (case tally (cs_votes c) (length (cs_jury c)) QUORUM of
        TCommitted v \<Rightarrow> Committed v | TEscalated \<Rightarrow> Escalated | TPending \<Rightarrow> Open)"
  by (simp add: apply_tally_def split: Tally.split)

lemma apply_tally_idem [simp]: "cs_status (apply_tally (apply_tally c)) = cs_status (apply_tally c)"
  by (simp add: apply_tally_status)

lemma case_ok_tallied:
  "distinct (cs_jury c) \<Longrightarrow> length (cs_jury c) \<le> JURY_SIZE \<Longrightarrow> distinct (map fst (cs_votes c)) \<Longrightarrow>
   fst ` set (cs_votes c) \<subseteq> set (cs_jury c) \<Longrightarrow> case_ok (apply_tally c)"
  by (simp add: case_ok_def)

text \<open>A committed verdict is backed by a quorum of equal votes, and is never uncertain.\<close>

lemma committed_quorum:
  assumes "cs_status (apply_tally c) = Committed v"
  shows "QUORUM \<le> length (filter (\<lambda>(_, w). cv_verdict w = cv_verdict v) (cs_votes c))"
    and "cv_verdict v \<noteq> VUncertain"
proof -
  have t: "quorum_tally verdict_key verdict_committable (cs_votes c) (length (cs_jury c)) QUORUM = QCommitted v"
    using assms by (auto simp: apply_tally_status tally_def split: Tally.splits QuorumOutcome.splits)
  note b = verdict_quorum.committed_backed [OF t]
  have "votes_for verdict_key (map snd xs) (verdict_key v)
      \<le> length (filter (\<lambda>(_, w). cv_verdict w = cv_verdict v) xs)" for xs :: "(address \<times> canonical_verdict) list"
    by (induction xs) (auto simp: votes_for_def verdict_key_def)
  with b(2) show "QUORUM \<le> length (filter (\<lambda>(_, w). cv_verdict w = cv_verdict v) (cs_votes c))"
    using order_trans by blast
  show "cv_verdict v \<noteq> VUncertain" using b(3) by (simp add: verdict_committable_def)
qed

section \<open>The registry invariant\<close>

definition poh_ok :: "mem_state \<Rightarrow> bool" where
  "poh_ok s \<longleftrightarrow> acct_store.keys_agree s \<and> human_store.keys_agree s \<and> juror_store.keys_agree s
     \<and> (\<forall>k c. get_case s k = Some c \<longrightarrow> cs_id c = k \<and> case_ok c)"

lemma poh_ok_new [simp]: "poh_ok mem_state_new"
  by (simp add: poh_ok_def acct_store.keys_agree_def human_store.keys_agree_def
      juror_store.keys_agree_def mem_state_new_def state_defs)

lemma poh_ok_account: "poh_ok s \<Longrightarrow> acc_address (get_or_new s a) = a"
  by (auto simp: poh_ok_def acct_store.keys_agree_def get_or_new_def split: option.split)

lemma poh_ok_human: "poh_ok s \<Longrightarrow> get_human s a = Some h \<Longrightarrow> hu_address h = a"
  by (simp add: poh_ok_def human_store.keys_agree_def)

lemma poh_ok_case: "poh_ok s \<Longrightarrow> get_case s k = Some c \<Longrightarrow> cs_id c = k \<and> case_ok c"
  by (simp add: poh_ok_def)

lemma poh_ok_put [simp]: "poh_ok s \<Longrightarrow> poh_ok (put s acct)"
  by (auto simp: poh_ok_def acct_store.keys_agree_def human_store.keys_agree_def juror_store.keys_agree_def)

lemma poh_ok_put_human [simp]: "poh_ok s \<Longrightarrow> poh_ok (put_human s h)"
  by (auto simp: poh_ok_def acct_store.keys_agree_def human_store.keys_agree_def juror_store.keys_agree_def)

lemma poh_ok_put_case: "poh_ok s \<Longrightarrow> case_ok c \<Longrightarrow> poh_ok (put_case s c)"
  by (auto simp: poh_ok_def acct_store.keys_agree_def human_store.keys_agree_def juror_store.keys_agree_def)

lemma poh_ok_frame [simp]:
  "poh_ok (clear_vouch_edges s a) = poh_ok s" "poh_ok (put_vouch s v) = poh_ok s"
  "poh_ok (record_challenge_cleared s a b) = poh_ok s" "poh_ok (s\<lparr>ms_next_case_id := n\<rparr>) = poh_ok s"
  by (simp_all add: poh_ok_def acct_store.keys_agree_def human_store.keys_agree_def
      juror_store.keys_agree_def)

section \<open>The emission gate\<close>

definition emit :: "human \<Rightarrow> u64 option" where
  "emit h = (if hu_status h \<in> {Verified, Challenged} then Some (hu_verified_at h) else None)"

definition emitting_at :: "mem_state \<Rightarrow> address \<Rightarrow> u64 option" where
  "emitting_at s a = Option.bind (get_human s a) emit"

definition cache_at :: "mem_state \<Rightarrow> address \<Rightarrow> u64 option" where
  "cache_at s a =
     (let acct = get_or_new s a in if acc_verified acct then Some (acc_verified_at acct) else None)"

definition gate_ok :: "mem_state \<Rightarrow> bool" where
  "gate_ok s \<longleftrightarrow> cache_at s = emitting_at s"

lemma gate_ok_new [simp]: "gate_ok mem_state_new"
  by (simp add: gate_ok_def fun_eq_iff cache_at_def emitting_at_def get_or_new_def mem_state_new_def
      state_defs)

lemma emitting_frame [simp]:
  "emitting_at (put s acct) = emitting_at s" "emitting_at (put_case s c) = emitting_at s"
  "emitting_at (clear_vouch_edges s a) = emitting_at s" "emitting_at (put_vouch s v) = emitting_at s"
  "emitting_at (record_challenge_cleared s a b) = emitting_at s"
  "emitting_at (s\<lparr>ms_next_case_id := n\<rparr>) = emitting_at s"
  by (simp_all add: emitting_at_def fun_eq_iff)

lemma cache_frame [simp]:
  "cache_at (put_human s h) = cache_at s" "cache_at (put_case s c) = cache_at s"
  "cache_at (clear_vouch_edges s a) = cache_at s" "cache_at (put_vouch s v) = cache_at s"
  "cache_at (record_challenge_cleared s a b) = cache_at s"
  "cache_at (s\<lparr>ms_next_case_id := n\<rparr>) = cache_at s"
  by (simp_all add: cache_at_def fun_eq_iff)

lemma emitting_put_human [simp]:
  "emitting_at (put_human s h) = (emitting_at s)(hu_address h := emit h)"
  by (simp add: emitting_at_def fun_eq_iff)

lemma cache_sync [simp]:
  "poh_ok s \<Longrightarrow> cache_at (sync_account_verified s a v t) = (cache_at s)(a := if v then Some t else None)"
  by (simp add: cache_at_def sync_account_verified_def fun_eq_iff poh_ok_account)

lemma sync_frame [simp]:
  "get_human (sync_account_verified s a v t) = get_human s"
  "get_case (sync_account_verified s a v t) = get_case s"
  "emitting_at (sync_account_verified s a v t) = emitting_at s"
  "poh_ok s \<Longrightarrow> poh_ok (sync_account_verified s a v t)"
  "ms_contracts (sync_account_verified s a v t) = ms_contracts s"
  by (simp_all add: sync_account_verified_def)

lemma emitting_human: "get_human s a = Some h \<Longrightarrow> emitting_at s a = emit h"
  by (simp add: emitting_at_def)

lemma emit_update [simp]:
  "emit (h\<lparr>hu_reputation := r\<rparr>) = emit h" "emit (h\<lparr>hu_vouches_in := vs\<rparr>) = emit h"
  by (simp_all add: emit_def)


section \<open>Preservation\<close>

definition chain_ok :: "mem_state \<Rightarrow> bool" where
  "chain_ok s \<longleftrightarrow> ledger_ok s \<and> poh_ok s \<and> gate_ok s"

lemma chain_ok_new: "chain_ok mem_state_new"
  by (simp add: chain_ok_def)

lemma ledger_ok_frame [simp]:
  "ledger_ok (put_human s h) = ledger_ok s" "ledger_ok (put_case s c) = ledger_ok s"
  "ledger_ok (clear_vouch_edges s a) = ledger_ok s" "ledger_ok (put_vouch s v) = ledger_ok s"
  "ledger_ok (record_challenge_cleared s a b) = ledger_ok s"
  "ledger_ok (s\<lparr>ms_next_case_id := n\<rparr>) = ledger_ok s"
  by (simp_all add: ledger_ok_def)

lemma ledger_ok_sync: "ledger_ok s \<Longrightarrow> t \<le> U64_MAX \<Longrightarrow> ledger_ok (sync_account_verified s a v t)"
  using ledger_ok_account [of s a]
  by (auto simp: sync_account_verified_def account_ok_def intro!: ledger_ok_put)

text \<open>The epoch of an emitting human fits a machine word, because the cache repeats it.\<close>

lemma emitting_bound:
  assumes "chain_ok s" "emitting_at s a = Some t"
  shows "t \<le> U64_MAX"
proof -
  have "cache_at s a = Some t" using assms by (simp add: chain_ok_def gate_ok_def)
  then have "acc_verified_at (get_or_new s a) = t"
    by (simp add: cache_at_def Let_def split: if_splits)
  with ledger_ok_account(2) [of s a] assms(1) show ?thesis
    by (auto simp: chain_ok_def account_ok_def)
qed

text \<open>
  A write to the registry that leaves the emission of its subject as it is, or that is matched by
  the same write to the cache, keeps the invariant.
\<close>

lemma chain_ok_put_human:
  assumes "chain_ok s" "emit h = emitting_at s (hu_address h)"
  shows "chain_ok (put_human s h)" "emitting_at (put_human s h) = emitting_at s"
  using assms by (simp_all add: chain_ok_def gate_ok_def)

lemma chain_ok_put_both:
  assumes "chain_ok s" "emit h = (if v then Some t else None)" "hu_address h = a" "t \<le> U64_MAX"
  shows "chain_ok (put_human (sync_account_verified s a v t) h)"
  using assms by (simp add: chain_ok_def gate_ok_def ledger_ok_sync)

lemma chain_ok_put_case:
  "chain_ok s \<Longrightarrow> case_ok c \<Longrightarrow> chain_ok (put_case s c)"
  by (simp add: chain_ok_def gate_ok_def poh_ok_put_case)

lemma chain_ok_frame [simp]:
  "chain_ok (clear_vouch_edges s a) = chain_ok s" "chain_ok (put_vouch s v) = chain_ok s"
  "chain_ok (record_challenge_cleared s a b) = chain_ok s"
  "chain_ok (s\<lparr>ms_next_case_id := n\<rparr>) = chain_ok s"
  by (simp_all add: chain_ok_def gate_ok_def)

lemma chain_ok_human: "chain_ok s \<Longrightarrow> get_human s a = Some h \<Longrightarrow> hu_address h = a"
  using poh_ok_human by (auto simp: chain_ok_def)

lemma slash_ok:
  assumes "chain_ok s"
  shows "chain_ok (slash n a s)" "emitting_at (slash n a s) = emitting_at s"
    "get_case (slash n a s) = get_case s"
    "map_option hu_status (get_human (slash n a s) b) = map_option hu_status (get_human s b)"
  using chain_ok_put_human [OF assms] chain_ok_human [OF assms] assms
  by (auto simp: slash_def emitting_human split: option.split)

lemma slashes_ok:
  "chain_ok s \<Longrightarrow> chain_ok (fold (slash n) vs s) \<and> emitting_at (fold (slash n) vs s) = emitting_at s
    \<and> get_case (fold (slash n) vs s) = get_case s
    \<and> (\<forall>b. map_option hu_status (get_human (fold (slash n) vs s) b) = map_option hu_status (get_human s b))"
  by (induction vs arbitrary: s) (simp_all add: slash_ok)

lemma revoke_ok:
  assumes "chain_ok s"
  shows "chain_ok (revoke s a)" "emitting_at (revoke s a) = (emitting_at s)(a := None)"
proof -
  have *: "chain_ok (revoke s a) \<and> emitting_at (revoke s a) = (emitting_at s)(a := None)"
  proof (cases "get_human s a")
    case None
    then have "emitting_at s a = None" by (simp add: emitting_at_def)
    moreover have "chain_ok (sync_account_verified (clear_vouch_edges s a) a False 0)"
      using assms \<open>emitting_at s a = None\<close>
      by (simp add: chain_ok_def gate_ok_def ledger_ok_sync) auto
    ultimately show ?thesis using None by (simp add: revoke_def) auto
  next
    case (Some h)
    let ?s = "fold (slash SYBIL_SLASH) (hu_vouches_in h) s"
    let ?h = "h\<lparr>hu_status := Revoked, hu_verified_at := 0, hu_vouches_in := []\<rparr>"
    have r: "revoke s a = sync_account_verified (clear_vouch_edges (put_human ?s ?h) a) a False 0"
      using Some by (simp add: revoke_def)
    have s: "chain_ok ?s" "emitting_at ?s = emitting_at s"
      using slashes_ok [OF assms] by auto
    have h: "emit ?h = None" "hu_address ?h = a"
      using chain_ok_human [OF assms Some] by (simp_all add: emit_def)
    show ?thesis
      using s h unfolding r by (simp add: chain_ok_def gate_ok_def ledger_ok_sync)
  qed
  then show "chain_ok (revoke s a)" "emitting_at (revoke s a) = (emitting_at s)(a := None)" by auto
qed

lemma restore_ok:
  assumes "chain_ok s"
  shows "chain_ok (restore_challenged s a)" "emitting_at (restore_challenged s a) = emitting_at s"
proof -
  have *: "chain_ok (restore_challenged s a) \<and> emitting_at (restore_challenged s a) = emitting_at s"
  proof (cases "\<exists>h. get_human s a = Some h \<and> hu_status h = Challenged")
    case True
    then obtain h where h: "get_human s a = Some h" "hu_status h = Challenged" by auto
    let ?h = "h\<lparr>hu_status := Verified\<rparr>"
    have e: "emitting_at s a = Some (hu_verified_at h)" "emit ?h = Some (hu_verified_at h)"
      using h by (simp_all add: emitting_at_def emit_def)
    have a: "hu_address ?h = a" using chain_ok_human [OF assms h(1)] by simp
    have "chain_ok (put_human (sync_account_verified s a True (hu_verified_at h)) ?h)"
      by (rule chain_ok_put_both [OF assms _ a]) (simp_all add: e emitting_bound [OF assms e(1)])
    then show ?thesis using h e a by (auto simp: restore_challenged_def)
  next
    case False
    then show ?thesis using assms by (auto simp: restore_challenged_def split: option.split)
  qed
  then show "chain_ok (restore_challenged s a)" "emitting_at (restore_challenged s a) = emitting_at s" by auto
qed

lemma case_ok_new_case:
  "distinct jury \<Longrightarrow> length jury \<le> JURY_SIZE \<Longrightarrow> case_ok \<lparr>cs_id = i, cs_subject = a, cs_challenger = b,
     cs_kind = k, cs_evidence_ref = e, cs_jury = jury, cs_votes = [], cs_status = Open, cs_opened_at = t\<rparr>"
  by (simp add: case_ok_def)

lemma open_case_ok:
  assumes "chain_ok s"
  shows "chain_ok (snd (open_case s subject challenger kind ev entropy now))"
    "emitting_at (snd (open_case s subject challenger kind ev entropy now)) = emitting_at s"
    "get_human (snd (open_case s subject challenger kind ev entropy now)) = get_human s"
  using assms select_jury_facts
  by (auto simp: open_case_def next_case_id_def Let_def intro!: chain_ok_put_case case_ok_new_case)

lemma open_case_result:
  assumes "open_case s subject challenger kind ev entropy now = (r, s')"
  shows "r = Inl NoJurors \<and> s' = s \<and> active_jurors s = []
    \<or> r = Inr (ms_next_case_id s) \<and> active_jurors s \<noteq> []
      \<and> (\<exists>c. get_case s' (ms_next_case_id s) = Some c \<and> cs_subject c = subject \<and> cs_kind c = kind
          \<and> cs_challenger c = challenger \<and> cs_votes c = [] \<and> cs_opened_at c = now \<and> cs_status c = Open
          \<and> cs_jury c = select_jury (active_jurors s) JURY_SIZE (jury_seed (ms_next_case_id s) entropy)
          \<and> cs_id c = ms_next_case_id s)"
  using assms by (auto simp: open_case_def next_case_id_def Let_def split: if_splits)


lemma request_cases:
  fixes s :: mem_state and subject :: address
  defines "s1 \<equiv> clear_vouch_edges s subject"
  defines "blocked \<equiv> map_option hu_status (get_human s subject) \<in> {Some Pending, Some Verified, Some Challenged}"
  shows "blocked \<Longrightarrow> \<exists>st. request_verification s oracle subject evidence entropy now = (Inl (AlreadyRegistered st), s)"
    and "\<not> blocked \<Longrightarrow> active_jurors s = [] \<Longrightarrow>
      request_verification s oracle subject evidence entropy now = (Inl NoJurors, s1)"
    and "\<not> blocked \<Longrightarrow> active_jurors s \<noteq> [] \<Longrightarrow>
      request_verification s oracle subject evidence entropy now =
       (let s2 = snd (open_case s1 subject subject Registration (le_liveness_ref evidence) entropy now);
            c = the (get_case s2 (ms_next_case_id s));
            votes = map (\<lambda>j. (j, grade_liveness oracle (le_challenge evidence) (le_response evidence))) (cs_jury c)
        in (Inr (ms_next_case_id s),
            put_human (put_case s2 (apply_tally (c\<lparr>cs_votes := cs_votes c @ votes\<rparr>)))
              (human_pending subject (le_liveness_ref evidence))))"
proof -
  show "blocked \<Longrightarrow> \<exists>st. request_verification s oracle subject evidence entropy now = (Inl (AlreadyRegistered st), s)"
    by (auto simp: blocked_def request_verification_def)
  have jur: "active_jurors s1 = active_jurors s"
    by (simp add: s1_def active_jurors_def)
  have next_id: "ms_next_case_id s1 = ms_next_case_id s" by (simp add: s1_def)
  assume nb: "\<not> blocked"
  have unfold: "request_verification s oracle subject evidence entropy now =
      (case open_case s1 subject subject Registration (le_liveness_ref evidence) entropy now of
            (Inl e, s) \<Rightarrow> (Inl e, s)
          | (Inr case_id, s) \<Rightarrow>
              let c = the (get_case s case_id);
                  c = c\<lparr>cs_votes := cs_votes c @
                    map (\<lambda>j. (j, grade_liveness oracle (le_challenge evidence) (le_response evidence)))
                      (cs_jury c)\<rparr>;
                  s = put_case s (apply_tally c);
                  s = put_human s (human_pending subject (le_liveness_ref evidence))
              in (Inr case_id, s))"
    using nb by (auto simp: blocked_def request_verification_def s1_def split: option.splits HumanStatus.splits)
  show "active_jurors s = [] \<Longrightarrow> request_verification s oracle subject evidence entropy now = (Inl NoJurors, s1)"
    using jur by (simp add: unfold open_case_def)
  show "active_jurors s \<noteq> [] \<Longrightarrow> request_verification s oracle subject evidence entropy now =
       (let s2 = snd (open_case s1 subject subject Registration (le_liveness_ref evidence) entropy now);
            c = the (get_case s2 (ms_next_case_id s));
            votes = map (\<lambda>j. (j, grade_liveness oracle (le_challenge evidence) (le_response evidence))) (cs_jury c)
        in (Inr (ms_next_case_id s),
            put_human (put_case s2 (apply_tally (c\<lparr>cs_votes := cs_votes c @ votes\<rparr>)))
              (human_pending subject (le_liveness_ref evidence))))"
    using open_case_result [of s1 subject subject Registration "le_liveness_ref evidence" entropy now] jur next_id
    unfolding unfold
    by (cases "open_case s1 subject subject Registration (le_liveness_ref evidence) entropy now") (auto simp: Let_def)
qed

lemma emit_pending [simp]: "emit (human_pending a r) = None"
  by (simp add: emit_def human_pending_def)

lemma request_verification_ok:
  assumes "chain_ok s"
  shows "chain_ok (snd (request_verification s oracle subject evidence entropy now))
    \<and> emitting_at (snd (request_verification s oracle subject evidence entropy now)) = emitting_at s"
proof -
  let ?blocked = "map_option hu_status (get_human s subject) \<in> {Some Pending, Some Verified, Some Challenged}"
  let ?s1 = "clear_vouch_edges s subject"
  let ?o = "open_case ?s1 subject subject Registration (le_liveness_ref evidence) entropy now"
  consider "?blocked" | "\<not> ?blocked" "active_jurors s = []" | "\<not> ?blocked" "active_jurors s \<noteq> []" by blast
  then show ?thesis
  proof cases
    case 1
    then obtain st where "request_verification s oracle subject evidence entropy now = (Inl (AlreadyRegistered st), s)"
      using request_cases(1) [OF 1] by blast
    then show ?thesis using assms by simp
  next
    case 2
    then show ?thesis using request_cases(2) [OF 2] assms by simp
  next
    case 3
    have s1: "chain_ok ?s1" using assms by simp
    note opened = open_case_ok [OF s1, of subject subject Registration "le_liveness_ref evidence" entropy now]
    obtain c where c: "get_case (snd ?o) (ms_next_case_id s) = Some c" "cs_votes c = []" "cs_id c = ms_next_case_id s"
      "cs_jury c = select_jury (active_jurors ?s1) JURY_SIZE (jury_seed (ms_next_case_id s) entropy)"
      using open_case_result [of ?s1 subject subject Registration "le_liveness_ref evidence" entropy now "fst ?o" "snd ?o"] 3
      by (auto simp: active_jurors_def)
    let ?votes = "map (\<lambda>j. (j, grade_liveness oracle (le_challenge evidence) (le_response evidence))) (cs_jury c)"
    have ok: "case_ok (apply_tally (c\<lparr>cs_votes := cs_votes c @ ?votes\<rparr>))"
      using c select_jury_facts by (intro case_ok_tallied) (auto simp: comp_def)
    let ?s3 = "put_case (snd ?o) (apply_tally (c\<lparr>cs_votes := cs_votes c @ ?votes\<rparr>))"
    have s3: "chain_ok ?s3" "emitting_at ?s3 = emitting_at s"
      using chain_ok_put_case [OF opened(1) ok] opened(2) by simp_all
    have none: "emitting_at s subject = None"
      using 3(1) by (cases "get_human s subject") (auto simp: emitting_at_def emit_def)
    have "emit (human_pending subject r) = emitting_at ?s3 (hu_address (human_pending subject r))" for r
      using s3(2) none by (simp add: human_pending_def emit_def)
    then have "chain_ok (put_human ?s3 (human_pending subject r)) \<and>
        emitting_at (put_human ?s3 (human_pending subject r)) = emitting_at s" for r
      using chain_ok_put_human [OF s3(1)] s3(2) by metis
    then show ?thesis
      using request_cases(3) [OF 3, of _ evidence entropy now] c(1) by (simp add: Let_def)
  qed
qed

lemma vouch_ok:
  assumes "chain_ok s"
  shows "chain_ok (snd (vouch s voucher vouchee now))
    \<and> emitting_at (snd (vouch s voucher vouchee now)) = emitting_at s"
proof -
  have "chain_ok (put_human (put_vouch s v) h) \<and> emitting_at (put_human (put_vouch s v) h) = emitting_at s"
    if "emit h = emitting_at s (hu_address h)" for v h
    using chain_ok_put_human [of "put_vouch s v" h] assms that by simp
  then show ?thesis
    using assms chain_ok_human [OF assms]
    by (auto simp: vouch_def Let_def emitting_human split: option.split)
qed

lemma challenge_inner_ok:
  assumes "chain_ok s"
  shows "chain_ok (snd (challenge_inner s challenger subject ev entropy now req))
    \<and> emitting_at (snd (challenge_inner s challenger subject ev entropy now req)) = emitting_at s"
proof (cases "open_case s subject challenger Challenge ev entropy now")
  case (Pair r s')
  note opened = open_case_ok [OF assms, of subject challenger Challenge ev entropy now]
  have s': "chain_ok s'" "emitting_at s' = emitting_at s" "get_human s' = get_human s"
    using opened Pair by auto
  have "chain_ok (put_human s' (h\<lparr>hu_status := Challenged\<rparr>))
      \<and> emitting_at (put_human s' (h\<lparr>hu_status := Challenged\<rparr>)) = emitting_at s"
    if "get_human s subject = Some h" "hu_status h = Verified" for h
    using chain_ok_put_human [OF s'(1), of "h\<lparr>hu_status := Challenged\<rparr>"] s' that chain_ok_human [OF assms]
    by (simp add: emitting_human emit_def)
  then show ?thesis
    using s' assms Pair
    by (auto simp: challenge_inner_def Let_def split: option.split sum.split)
qed

lemma finalize_ok:
  assumes "chain_ok s" "t \<le> U64_MAX"
  shows "chain_ok (snd (finalize_registration s a blk t))"
proof (cases "get_human s a")
  case (Some h)
  have "chain_ok (put_human (sync_account_verified s a True t) (h\<lparr>hu_status := Verified, hu_verified_at := t\<rparr>))"
    using assms chain_ok_human [OF assms(1) Some] by (intro chain_ok_put_both) (auto simp: emit_def)
  then show ?thesis using assms Some by (simp add: finalize_registration_def Let_def)
qed (simp add: assms finalize_registration_def)

lemma vote_of_none: "vote_of c j = None \<longleftrightarrow> j \<notin> fst ` set (cs_votes c)"
  by (force simp: vote_of_def find_None_iff)

lemma submit_verdict_accepted:
  assumes "get_case s k = Some c" "cs_status c = Open" "j \<in> set (cs_jury c)" "vote_of c j = None"
  shows "submit_verdict s k j v now =
    (let c' = apply_tally (c\<lparr>cs_votes := cs_votes c @ [(j, v)]\<rparr>); s' = put_case s c' in
     (Inr (cs_status c'),
      case cs_status c' of
        Committed w \<Rightarrow>
          (case cv_verdict w of
             VSybil \<Rightarrow> revoke s' (cs_subject c)
           | VHuman \<Rightarrow> (if cs_kind c = Challenge then
                 record_challenge_cleared (slash FALSE_CHALLENGE_SLASH (cs_challenger c)
                   (restore_challenged s' (cs_subject c))) (cs_challenger c) (cs_subject c) else s')
           | VUncertain \<Rightarrow> s')
      | Escalated \<Rightarrow> (if cs_kind c = Challenge then restore_challenged s' (cs_subject c) else s')
      | Open \<Rightarrow> s'))"
  using assms by (simp add: submit_verdict_def Let_def split: CaseStatus.split Verdict.split)

lemma submit_verdict_rejected:
  assumes "\<not> (\<exists>c. get_case s k = Some c \<and> cs_status c = Open \<and> j \<in> set (cs_jury c) \<and> vote_of c j = None)"
  shows "\<exists>e. submit_verdict s k j v now = (Inl e, s)"
  using assms by (auto simp: submit_verdict_def split: option.split)

lemma case_ok_vote:
  assumes "case_ok c" "j \<in> set (cs_jury c)" "vote_of c j = None"
  shows "case_ok (apply_tally (c\<lparr>cs_votes := cs_votes c @ [(j, v)]\<rparr>))"
  using assms by (intro case_ok_tallied) (auto simp: case_ok_def vote_of_none)

lemma submit_verdict_ok:
  assumes "chain_ok s"
  shows "chain_ok (snd (submit_verdict s k j v now))"
proof (cases "\<exists>c. get_case s k = Some c \<and> cs_status c = Open \<and> j \<in> set (cs_jury c) \<and> vote_of c j = None")
  case True
  then obtain c where c: "get_case s k = Some c" "cs_status c = Open" "j \<in> set (cs_jury c)" "vote_of c j = None"
    by blast
  have "case_ok c" using poh_ok_case c(1) assms by (auto simp: chain_ok_def)
  then have s': "chain_ok (put_case s (apply_tally (c\<lparr>cs_votes := cs_votes c @ [(j, v)]\<rparr>)))"
    using chain_ok_put_case [OF assms] case_ok_vote c by blast
  show ?thesis
    unfolding submit_verdict_accepted [OF c] Let_def
    by (simp add: s' revoke_ok restore_ok slash_ok split: CaseStatus.split Verdict.split)
next
  case False
  then show ?thesis using submit_verdict_rejected [OF False, of v now] assms by auto
qed

lemma seed_verified_ok:
  assumes "chain_ok s" "t \<le> U64_MAX"
  shows "chain_ok (seed_verified_human s a t)"
  using assms
  by (simp add: seed_verified_human_def chain_ok_def gate_ok_def ledger_ok_sync emit_def)

lemma register_juror_ok: "chain_ok s \<Longrightarrow> chain_ok (register_juror s a st)"
  by (auto simp: register_juror_def chain_ok_def gate_ok_def ledger_ok_def poh_ok_def put_juror_def
      acct_store.keys_agree_def human_store.keys_agree_def juror_store.keys_agree_def get_def
      get_human_def get_stream_def get_juror_def get_case_def index_ok_def cache_at_def emitting_at_def
      get_or_new_def fun_eq_iff)

end
