(* ===== verification/Lifecycle_Theorems.thy ===== *)
theory Lifecycle_Theorems
  imports Poh_Invariant
begin

text \<open>
  The properties of proof-of-humanity: the quorum tally, jury selection, and the exact behaviour of
  the registration state machine. The witnesses run on \<open>poh_demo\<close>, a registry with three jurors and
  three seeded verified humans.
\<close>

section \<open>Concrete inputs\<close>

definition poh_demo :: mem_state where
  "poh_demo = fold (\<lambda>a s. register_juror (seed_verified_human s a 50) a 0) [11, 12, 13] mem_state_new"

lemma poh_demo_ok: "chain_ok poh_demo"
  by (simp add: poh_demo_def register_juror_ok seed_verified_ok chain_ok_new U64_MAX_def)

abbreviation "human_high \<equiv> verdict_new VHuman High"
abbreviation "sybil_high \<equiv> verdict_new VSybil High"

section \<open>Tally and jury\<close>

text \<open>
  C32: a verdict is committed only when at least a quorum of the votes cast agree with it on verdict
  and confidence, it was itself cast, and it is not \<^verbatim>\<open>Uncertain\<close>.
\<close>

theorem tally_commits_quorum:
  assumes "tally votes n q = TCommitted v"
  shows "v \<in> snd ` set votes \<and> cv_verdict v \<noteq> VUncertain
    \<and> q \<le> length (filter (\<lambda>(_, w). quorum_eq_verdict w v) votes)"
proof -
  have t: "quorum_tally verdict_key verdict_committable votes n q = QCommitted v"
    using assms by (auto simp: tally_def split: QuorumOutcome.splits)
  note b = verdict_quorum.committed_backed [OF t]
  have "votes_for verdict_key (map snd xs) (verdict_key v) = length (filter (\<lambda>(_, w). quorum_eq_verdict w v) xs)"
    for xs :: "(address \<times> canonical_verdict) list"
    by (induction xs) (auto simp: votes_for_def verdict_key_def quorum_eq_verdict_def)
  with b show ?thesis by (simp add: verdict_committable_def)
qed

theorem tally_commits_quorum_witness:
  "2 \<le> length (filter (\<lambda>(_, w). quorum_eq_verdict w human_high)
     [(1 :: address, human_high), (2, sybil_high), (3, human_high)])"
proof -
  have "tally [(1, human_high), (2, sybil_high), (3, human_high)] 3 2 = TCommitted human_high"
    by (simp add: tally_def quorum_tally_def group_items_def verdict_key_def verdict_new_def
        verdict_committable_def)
  from tally_commits_quorum [OF this] show ?thesis by simp
qed

text \<open>
  the tally does not depend on the order in which the votes arrive: for any two orders of the
  same votes, with fewer votes than two quorums, both are pending, both escalate, or both commit the
  same verdict at the same confidence.
\<close>

theorem tally_order_independent:
  assumes "mset (map snd votes) = mset (map snd votes')" "length votes < 2 * q"
  shows "(tally votes n q = TPending \<longleftrightarrow> tally votes' n q = TPending)
    \<and> (tally votes n q = TEscalated \<longleftrightarrow> tally votes' n q = TEscalated)
    \<and> (\<forall>v. tally votes n q = TCommitted v \<longrightarrow>
          (\<exists>w. tally votes' n q = TCommitted w \<and> quorum_eq_verdict v w))"
  using verdict_quorum.order_independent [OF assms, of n]
  by (auto simp: tally_def quorum_eq_verdict_def verdict_key_def split: QuorumOutcome.splits)

theorem tally_order_independent_witness:
  "tally [(1, sybil_high), (2, human_high), (3, human_high)] 3 2 \<noteq> TPending"
proof -
  have "tally [(1, human_high), (2, human_high), (3, sybil_high)] 3 2 \<noteq> TPending"
    by (simp add: tally_def quorum_tally_def group_items_def verdict_key_def verdict_new_def
        verdict_committable_def)
  with tally_order_independent [of "[(1, human_high), (2, human_high), (3, sybil_high)]"
      "[(1, sybil_high), (2, human_high), (3, human_high)]" 2 3]
  show ?thesis by simp
qed

text \<open>
  C33: a decision is final: once the tally has committed or escalated, no further votes of the same
  jury can change it, as long as the jury is smaller than two quorums (three jurors and a quorum of
  two in the protocol).
\<close>

theorem tally_final:
  assumes "length (votes @ later) \<le> n" "n < 2 * q" "tally votes n q \<noteq> TPending"
  shows "tally (votes @ later) n q = tally votes n q"
proof -
  have len: "length (votes @ later) < 2 * q" using assms(1,2) by simp
  note stable = verdict_quorum.committed_stable [OF _ len] verdict_quorum.split_stable [OF _ len assms(1)]
  show ?thesis
    using assms(3) stable by (auto simp: tally_def split: QuorumOutcome.splits)
qed

theorem tally_final_witness:
  "tally ([(1, human_high), (2, human_high)] @ [(3, sybil_high)]) JURY_SIZE QUORUM = TCommitted human_high"
proof -
  have "tally [(1, human_high), (2, human_high)] 3 2 = TCommitted human_high"
    by (simp add: tally_def quorum_tally_def group_items_def verdict_key_def verdict_new_def
        verdict_committable_def)
  with tally_final [of "[(1, human_high), (2, human_high)]" "[(3, sybil_high)]" 3 2]
  show ?thesis by (simp add: const_defs)
qed

text \<open>
  C34: the selected jury consists of distinct candidates, has the requested size or all candidates
  when there are fewer, and depends only on the set of candidates and the seed, not on their order
  or on repetitions.
\<close>

theorem select_jury_sound:
  "set (select_jury cs n seed) \<subseteq> set cs \<and> distinct (select_jury cs n seed)
   \<and> length (select_jury cs n seed) = min n (card (set cs))
   \<and> (set cs = set cs' \<longrightarrow> select_jury cs n seed = select_jury cs' n seed)"
  using select_jury_facts [of cs n seed] select_jury_order_independent [of cs cs'] by simp

theorem select_jury_sound_witness:
  "select_jury [5, 3, 5, 9, 1] 3 7 = select_jury [1, 3, 5, 9] 3 7"
  using select_jury_sound [of "[5, 3, 5, 9, 1]" 3 7 "[1, 3, 5, 9]"] by auto

section \<open>Registration\<close>


lemma fm_values_snoc:
  fixes m :: "('k :: linorder, 'v) fmap"
  assumes "\<And>x w. fmlookup m x = Some w \<Longrightarrow> x < k"
  shows "fm_values (fmupd k v m) = fm_values m @ [v]"
proof -
  have below: "x < k" if "x |\<in>| fmdom m" for x
    using that assms by (auto simp: fmlookup_dom_iff)
  have sl: "sorted_list_of_fset (finsert k (fmdom m)) = sorted_list_of_fset (fmdom m) @ [k]"
  proof (rule sorted_distinct_set_unique)
    show "sorted (sorted_list_of_fset (fmdom m) @ [k])"
      using below by (auto simp: sorted_append less_imp_le)
    show "distinct (sorted_list_of_fset (fmdom m) @ [k])"
      using below by auto
  qed simp_all
  have "map (\<lambda>x. the (fmlookup (fmupd k v m) x)) (sorted_list_of_fset (fmdom m))
      = map (\<lambda>x. the (fmlookup m x)) (sorted_list_of_fset (fmdom m))"
    using below by (intro map_cong) auto
  then show ?thesis by (simp add: fm_values_eq sl)
qed

lemma registration_effect:
  assumes "chain_ok s" "\<And>k c. get_case s k = Some c \<Longrightarrow> k < ms_next_case_id s"
    and "request_verification s orc a ev entropy now = (Inr k, s')"
  shows "map_option hu_status (get_human s' a) = Some Pending
    \<and> emitting_at s' = emitting_at s \<and> registration_opened_at s' a = Some now
    \<and> (liveness_passed s' a \<longleftrightarrow>
         cv_verdict (grade_liveness orc (le_challenge ev) (le_response ev)) = VHuman
         \<and> QUORUM \<le> card (set (active_jurors s)))
    \<and> (\<exists>c. all_cases s' = all_cases s @ [c] \<and> cs_kind c = Registration)"
proof -
  let ?blocked = "map_option hu_status (get_human s a) \<in> {Some Pending, Some Verified, Some Challenged}"
  let ?v = "grade_liveness orc (le_challenge ev) (le_response ev)"
  have nb: "\<not> ?blocked" using request_cases(1) [of s a orc ev entropy now] assms(3) by auto
  have jur: "active_jurors s \<noteq> []" using request_cases(2) [OF nb, of orc ev entropy now] assms(3) by auto
  let ?s1 = "clear_vouch_edges s a"
  let ?o = "open_case ?s1 a a Registration (le_liveness_ref ev) entropy now"
  have same: "active_jurors ?s1 = active_jurors s" by (simp add: active_jurors_def)
  obtain c where c: "get_case (snd ?o) (ms_next_case_id s) = Some c" "cs_votes c = []"
    "cs_id c = ms_next_case_id s" "cs_subject c = a" "cs_kind c = Registration" "cs_opened_at c = now"
    "cs_jury c = select_jury (active_jurors s) JURY_SIZE (jury_seed (ms_next_case_id s) entropy)"
    using open_case_result [of ?s1 a a Registration "le_liveness_ref ev" entropy now "fst ?o" "snd ?o"] jur same
    by auto
  let ?c = "apply_tally (c\<lparr>cs_votes := map (\<lambda>j. (j, ?v)) (cs_jury c)\<rparr>)"
  have s': "s' = put_human (put_case (snd ?o) ?c) (human_pending a (le_liveness_ref ev))"
    using request_cases(3) [OF nb jur, of orc ev entropy now] assms(3) c(1,2) by (simp add: Let_def)
  have cases: "all_cases s' = all_cases s @ [?c]"
  proof -
    have "ms_cases (snd ?o) = fmupd (ms_next_case_id s) (the (get_case (snd ?o) (ms_next_case_id s))) (ms_cases s)"
      using jur same by (simp add: open_case_def next_case_id_def put_case_def get_case_def Let_def)
    then have "ms_cases s' = fmupd (ms_next_case_id s) ?c (ms_cases s)"
      by (simp add: s' put_case_def put_human_def c(3))
    then show ?thesis
      using fm_values_snoc [of "ms_cases s" "ms_next_case_id s" ?c] assms(2)
      by (simp add: all_cases_def get_case_def)
  qed
  have last: "last_registration s' a = Some ?c"
    using c by (simp add: last_registration_def cases)
  have jury: "length (cs_jury c) = min JURY_SIZE (card (set (active_jurors s)))"
    using select_jury_facts(3) c(7) by simp
  have unanimous: "group_items verdict_key (map (\<lambda>j. (j, ?v)) (js :: address list)) =
      (if js = [] then [] else [(verdict_key ?v, length js, ?v)])" for js
  proof (induction js rule: rev_induct)
    case (snoc j js)
    then show ?case by (auto simp: group_items_def)
  qed (simp add: group_items_def)
  have "cs_status ?c = (if length (cs_jury c) \<ge> QUORUM
      then (if cv_verdict ?v \<noteq> VUncertain then Committed ?v else Escalated) else Escalated)"
    by (auto simp: apply_tally_status tally_def quorum_tally_def unanimous verdict_committable_def
        QUORUM_def)
  then have "liveness_passed s' a \<longleftrightarrow> cv_verdict ?v = VHuman \<and> QUORUM \<le> length (cs_jury c)"
    by (auto simp: liveness_passed_def last)
  moreover have "QUORUM \<le> length (cs_jury c) \<longleftrightarrow> QUORUM \<le> card (set (active_jurors s))"
    unfolding jury by (simp add: JURY_SIZE_def QUORUM_def)
  moreover have "get_human s' a = Some (human_pending a (le_liveness_ref ev))"
    by (simp add: s' human_pending_def)
  ultimately show ?thesis
    using request_verification_ok [OF assms(1), of orc a ev entropy now] assms(3) last c(5,6) cases
    by (simp add: registration_opened_at_def human_pending_def)
qed


text \<open>
  C31: registration. An address that is unknown, unverified or revoked can register when a juror is
  active; it is then pending, earns nothing yet, and its liveness has passed exactly when the oracle
  graded the response \<^verbatim>\<open>Human\<close> and the jury is large enough for a quorum: a jury of one
  fails closed.
\<close>

theorem registration_liveness:
  assumes "chain_ok s" "\<And>k c. get_case s k = Some c \<Longrightarrow> k < ms_next_case_id s"
    and "request_verification s orc a ev entropy now = (Inr k, s')"
  shows "map_option hu_status (get_human s' a) = Some Pending
    \<and> emitting_at s' = emitting_at s \<and> registration_opened_at s' a = Some now
    \<and> (liveness_passed s' a \<longleftrightarrow>
         cv_verdict (grade_liveness orc (le_challenge ev) (le_response ev)) = VHuman
         \<and> QUORUM \<le> card (set (active_jurors s)))"
  using registration_effect [OF assms(1) _ assms(3)] assms(2) by blast

section \<open>Vouching\<close>

lemma bucket_push_once:
  "bucket (push_once k x m) k' =
     (if k' = k then (if x \<in> set (bucket m k) then bucket m k else bucket m k @ [x]) else bucket m k')"
  by (simp add: bucket_def [of "push_once k x m"] push_once_def Let_def) (simp add: bucket_def)

text \<open>
  a vouch is accepted exactly from a verified human, for somebody else whose registration is
  pending, once per pair and below the voucher's capacity. It adds one outgoing edge (so the capacity
  is never exceeded) and the voucher to the applicant's list; a refusal leaves the state unchanged.
\<close>

theorem vouch_exact:
  assumes "chain_ok s"
  shows "if v \<noteq> a \<and> map_option hu_status (get_human s v) = Some Verified
        \<and> map_option hu_status (get_human s a) = Some Pending
        \<and> a \<notin> set (vouches_out s v) \<and> length (vouches_out s v) < VOUCH_CAPACITY
      then fst (vouch s v a now) = Inr ()
        \<and> length (vouches_out (snd (vouch s v a now)) v) = Suc (length (vouches_out s v))
        \<and> set (vouches_out (snd (vouch s v a now)) v) = insert a (set (vouches_out s v))
        \<and> map_option (\<lambda>h. set (hu_vouches_in h)) (get_human (snd (vouch s v a now)) a)
            = map_option (\<lambda>h. insert v (set (hu_vouches_in h))) (get_human s a)
        \<and> map_option hu_status (get_human (snd (vouch s v a now)) a) = Some Pending
      else \<exists>e. vouch s v a now = (Inl e, s)"
proof (cases "v \<noteq> a \<and> map_option hu_status (get_human s v) = Some Verified
    \<and> map_option hu_status (get_human s a) = Some Pending
    \<and> a \<notin> set (vouches_out s v) \<and> length (vouches_out s v) < VOUCH_CAPACITY")
  case True
  then obtain h where h: "get_human s a = Some h" "hu_status h = Pending" by auto
  have addr: "hu_address h = a" using chain_ok_human [OF assms h(1)] .
  let ?h = "if v \<in> set (hu_vouches_in h) then h else h\<lparr>hu_vouches_in := sort (hu_vouches_in h @ [v])\<rparr>"
  let ?s = "put_human (put_vouch s \<lparr>vo_voucher = v, vo_vouchee = a, vo_at = now\<rparr>) ?h"
  have eq: "vouch s v a now = (Inr (), ?s)" using True h by (simp add: vouch_def Let_def)
  have out: "vouches_out ?s v = sort (bucket (ms_vouches_out s) v @ [a])"
    using True by (simp add: vouches_out_def put_human_def put_vouch_def bucket_push_once)
  have "get_human ?s a = Some ?h" using addr by simp
  then show ?thesis using True h eq out by (simp add: vouches_out_def insert_absorb)
next
  case False
  then show ?thesis by (auto simp: vouch_def split: option.split)
qed

section \<open>Challenges and verdicts\<close>

text \<open>
  a challenge is accepted exactly from a verified human, against a pending, verified or
  challenged subject with no open challenge, when the pair is not on cooldown and a juror is active.
  It never changes who earns: a challenged human keeps earning until a jury decides. A refusal
  leaves the state unchanged.
\<close>

theorem challenge_exact:
  assumes "chain_ok s"
  shows "emitting_at (snd (challenge s c a ev entropy now)) = emitting_at s
    \<and> (if map_option hu_status (get_human s c) = Some Verified
          \<and> map_option hu_status (get_human s a) \<in> {Some Pending, Some Verified, Some Challenged}
          \<and> \<not> has_open_challenge s a \<and> \<not> challenge_cleared s c a \<and> active_jurors s \<noteq> []
       then fst (challenge s c a ev entropy now) = Inr (ms_next_case_id s)
         \<and> (\<exists>k. get_case (snd (challenge s c a ev entropy now)) (ms_next_case_id s) = Some k
              \<and> cs_subject k = a \<and> cs_challenger k = c \<and> cs_kind k = Challenge \<and> cs_status k = Open)
       else \<exists>e. challenge s c a ev entropy now = (Inl e, s))"
proof (cases "open_case s a c Challenge ev entropy now")
  case (Pair r s')
  note result = open_case_result [OF Pair]
  have human: "get_human s' = get_human s"
    using open_case_ok(3) [OF assms, of a c Challenge ev entropy now] Pair by simp
  have "if map_option hu_status (get_human s c) = Some Verified
          \<and> map_option hu_status (get_human s a) \<in> {Some Pending, Some Verified, Some Challenged}
          \<and> \<not> has_open_challenge s a \<and> \<not> challenge_cleared s c a \<and> active_jurors s \<noteq> []
       then fst (challenge s c a ev entropy now) = Inr (ms_next_case_id s)
         \<and> (\<exists>k. get_case (snd (challenge s c a ev entropy now)) (ms_next_case_id s) = Some k
              \<and> cs_subject k = a \<and> cs_challenger k = c \<and> cs_kind k = Challenge \<and> cs_status k = Open)
       else \<exists>e. challenge s c a ev entropy now = (Inl e, s)"
  proof (cases "get_human s a")
    case None
    then show ?thesis by (simp add: challenge_def challenge_inner_def Let_def)
  next
    case (Some h)
    then show ?thesis
      using result human Pair
      by (cases "hu_status h") (auto simp: challenge_def challenge_inner_def Let_def)
  qed
  moreover have "emitting_at (snd (challenge s c a ev entropy now)) = emitting_at s"
    using challenge_inner_ok [OF assms] by (simp add: challenge_def)
  ultimately show ?thesis by blast
qed



section \<open>A complete registration\<close>

text \<open>
  Account 20 registers with the scripted oracle, collects two vouches and finalises five blocks
  later. The run serves as the witness of the four properties above.
\<close>

definition demo_evidence :: liveness_evidence where
  "demo_evidence = \<lparr>le_liveness_ref = 7, le_challenge = [], le_response = []\<rparr>"

definition registered :: mem_state where
  "registered = snd (request_verification poh_demo (mock_oracle mock_oracle_default) 20 demo_evidence 0 0)"

definition vouched :: mem_state where
  "vouched = snd (vouch (snd (vouch registered 11 20 1)) 12 20 1)"

lemma poh_demo_human:
  "get_human poh_demo a = (if a \<in> {11, 12, 13} then
     Some \<lparr>hu_address = a, hu_status = Verified, hu_verified_at = 50, hu_liveness_ref = 0,
       hu_vouches_in = [], hu_reputation = 0, hu_assurance = Std\<rparr> else None)"
  by (simp add: poh_demo_def register_juror_def seed_verified_human_def sync_account_verified_def)
    (simp add: put_juror_def put_human_def put_def get_human_def mem_state_new_def)

lemma poh_demo_frame [simp]:
  "get_case poh_demo k = None" "ms_next_case_id poh_demo = 0" "ms_vouches_out poh_demo = fmempty"
  by (simp_all add: poh_demo_def register_juror_def seed_verified_human_def sync_account_verified_def
      put_juror_def put_human_def put_def mem_state_new_def get_case_def)

lemma poh_demo_jurors: "set (active_jurors poh_demo) = {11, 12, 13}"
proof -
  have "get_juror poh_demo a = (if a \<in> {11, 12, 13} then
      Some \<lparr>ju_address = a, ju_stake = 0, ju_active = True\<rparr> else None)" for a
    by (simp add: poh_demo_def register_juror_def seed_verified_human_def sync_account_verified_def
        put_juror_def put_human_def put_def mem_state_new_def get_juror_def)
  moreover have "juror_store.keys_agree poh_demo"
    using poh_demo_ok by (simp add: chain_ok_def poh_ok_def)
  ultimately show ?thesis by (auto simp: active_jurors_iff split: if_splits)
qed

lemma registered_run:
  "request_verification poh_demo (mock_oracle mock_oracle_default) 20 demo_evidence 0 0 = (Inr 0, registered)"
proof -
  have "active_jurors poh_demo \<noteq> []" using poh_demo_jurors by auto
  then show ?thesis
    using request_cases(3) [of poh_demo 20 "mock_oracle mock_oracle_default" demo_evidence 0 0]
    by (simp add: poh_demo_human registered_def Let_def)
qed

theorem registration_liveness_witness:
  "map_option hu_status (get_human registered 20) = Some Pending \<and> liveness_passed registered 20
   \<and> registration_opened_at registered 20 = Some 0"
  using registration_liveness [OF poh_demo_ok _ registered_run]
  by (simp add: poh_demo_jurors card_insert_if mock_oracle_def mock_oracle_default_def
      mock_oracle_new_def verdict_new_def QUORUM_def)

lemma registered_ok: "chain_ok registered"
  using request_verification_ok [OF poh_demo_ok] by (simp add: registered_def)

lemma registered_facts:
  "get_human registered a = (if a = 20 then Some (human_pending 20 7) else get_human poh_demo a)"
  "vouches_out registered a = []" "active_jurors registered \<noteq> []"
proof -
  have jur: "active_jurors poh_demo \<noteq> []" using poh_demo_jurors by auto
  let ?s1 = "clear_vouch_edges poh_demo 20"
  let ?o = "open_case ?s1 20 20 Registration 7 0 0"
  have h: "get_human (snd ?o) = get_human poh_demo" "ms_vouches_out (snd ?o) = fmempty"
      "ms_jurors (snd ?o) = ms_jurors poh_demo"
    by (simp_all add: open_case_def Let_def next_case_id_def put_case_def state_defs fun_eq_iff
        clear_vouch_edges_def)
  have eq: "registered = put_human (put_case (snd ?o) x) (human_pending 20 7)"
    if "x = apply_tally (the (get_case (snd ?o) 0)\<lparr>cs_votes := cs_votes (the (get_case (snd ?o) 0)) @
      map (\<lambda>j. (j, grade_liveness (mock_oracle mock_oracle_default) [] [])) (cs_jury (the (get_case (snd ?o) 0)))\<rparr>)" for x
    using request_cases(3) [of poh_demo 20 "mock_oracle mock_oracle_default" demo_evidence 0 0] jur that
    by (simp add: poh_demo_human registered_def Let_def demo_evidence_def)
  show "get_human registered a = (if a = 20 then Some (human_pending 20 7) else get_human poh_demo a)"
    unfolding eq [OF refl] using h(1) by (simp add: human_pending_def)
  show "vouches_out registered a = []"
    unfolding eq [OF refl] using h(2) by (simp add: vouches_out_def bucket_def put_human_def put_case_def)
  show "active_jurors registered \<noteq> []"
    unfolding eq [OF refl] using h(3) jur by (simp add: active_jurors_def put_human_def put_case_def)
qed

theorem vouch_exact_witness:
  "fst (vouch registered 11 20 1) = Inr () \<and> (\<exists>e. vouch registered 20 20 1 = (Inl e, registered))"
  using vouch_exact [OF registered_ok, of 11 20 1] vouch_exact [OF registered_ok, of 20 20 1]
  by (simp add: registered_facts poh_demo_human human_pending_def VOUCH_CAPACITY_def)

theorem challenge_exact_witness:
  "emitting_at (snd (challenge registered 11 12 99 3 4)) 12 = Some 50"
  using challenge_exact [OF registered_ok, of 11 12 99 3 4]
  by (simp add: emitting_at_def registered_facts poh_demo_human emit_def)


lemma vouch_cases_frame: "ms_cases (snd (vouch s v a now)) = ms_cases s"
  by (simp add: vouch_def Let_def put_vouch_def put_human_def split: option.split)

lemma vouched_cases: "ms_cases vouched = ms_cases registered"
  by (simp add: vouched_def vouch_cases_frame)

lemma vouched_registry:
  "liveness_passed vouched 20" "registration_opened_at vouched 20 = Some 0"
  "\<not> has_pending_or_upheld_challenge vouched 20"
proof -
  note e = registration_effect [OF poh_demo_ok _ registered_run]
  have r: "liveness_passed registered 20" "registration_opened_at registered 20 = Some 0"
    using e by (simp_all add: poh_demo_jurors card_insert_if mock_oracle_def mock_oracle_default_def
      mock_oracle_new_def verdict_new_def QUORUM_def)
  obtain c where c: "all_cases registered = all_cases poh_demo @ [c]" "cs_kind c = Registration"
    using e by auto
  have all: "all_cases vouched = all_cases registered" by (simp add: all_cases_def vouched_cases)
  have none: "all_cases poh_demo = []"
    using set_fm_values [of "ms_cases poh_demo"] poh_demo_frame(1) by (auto simp: all_cases_def get_case_def)
  have "last_registration vouched = last_registration registered"
    by (simp add: last_registration_def fun_eq_iff all)
  then show "liveness_passed vouched 20" "registration_opened_at vouched 20 = Some 0"
    using r by (simp_all add: liveness_passed_def registration_opened_at_def)
  show "\<not> has_pending_or_upheld_challenge vouched 20"
    by (simp add: has_pending_or_upheld_challenge_def all c none)
qed

lemma vouch_step:
  assumes "v \<noteq> a" "map_option hu_status (get_human s v) = Some Verified" "get_human s a = Some h"
    "hu_status h = Pending" "hu_address h = a" "vouches_out s v = []" "v \<notin> set (hu_vouches_in h)"
  shows "get_human (snd (vouch s v a now)) b =
      (if b = a then Some (h\<lparr>hu_vouches_in := sort (hu_vouches_in h @ [v])\<rparr>) else get_human s b)"
    "w \<noteq> v \<Longrightarrow> vouches_out (snd (vouch s v a now)) w = vouches_out s w"
  using assms
  by (simp_all add: vouch_def Let_def VOUCH_CAPACITY_def) (simp_all add: vouches_out_def put_human_def
      put_vouch_def bucket_push_once)

lemma vouched_human: "get_human vouched 20 = Some ((human_pending 20 7)\<lparr>hu_vouches_in := [11, 12]\<rparr>)"
proof -
  let ?s = "snd (vouch registered 11 20 1)"
  have 1: "get_human ?s b = (if b = 20 then Some ((human_pending 20 7)\<lparr>hu_vouches_in := [11]\<rparr>)
      else get_human registered b)" for b
    using vouch_step(1) [of 11 20 registered "human_pending 20 7" 1 b]
    by (simp add: registered_facts poh_demo_human human_pending_def)
  have 2: "vouches_out ?s 12 = []"
    using vouch_step(2) [of 11 20 registered "human_pending 20 7" 12 1]
    by (simp add: registered_facts poh_demo_human human_pending_def)
  show ?thesis
    using vouch_step(1) [of 12 20 ?s "(human_pending 20 7)\<lparr>hu_vouches_in := [11]\<rparr>" 1 20] 1 2
    by (simp add: vouched_def registered_facts poh_demo_human human_pending_def)
qed


text \<open>Account 13 on trial: juror 11 has voted \<^verbatim>\<open>Sybil\<close>, juror 12 is about to.\<close>

definition trial :: mem_state where
  "trial = put_case poh_demo \<lparr>cs_id = 0, cs_subject = 13, cs_challenger = 11, cs_kind = Challenge,
     cs_evidence_ref = 0, cs_jury = [11, 12, 13], cs_votes = [(11, sybil_high)], cs_status = Open,
     cs_opened_at = 0\<rparr>"

lemma trial_ok: "chain_ok trial"
  unfolding trial_def
  by (rule chain_ok_put_case [OF poh_demo_ok]) (simp add: case_ok_def JURY_SIZE_def)


section \<open>Where the code differs from its comments\<close>

text \<open>
  revocation forfeits what was earned and not yet settled. The comment says accrued emission is
  settled first; the code only clears the flag, so the balance drops to the last settled amount.
\<close>

theorem revoke_forfeits_pending:
  assumes "chain_ok s"
  shows "acc_balance (get_or_new (revoke s a) a) now = acc_settled_balance (get_or_new s a)"
proof -
  have fold: "get_or_new (fold (slash n) vs s) = get_or_new s" for n vs s
    by (induction vs arbitrary: s) (simp_all add: slash_def split: option.split)
  have addr: "acc_address (get_or_new s a) = a" and le: "acc_settled_balance (get_or_new s a) \<le> U128_MAX"
    using assms ledger_ok_account [of s a] by (auto simp: chain_ok_def account_ok_def)
  have "get_or_new (revoke s a) a = (get_or_new s a)\<lparr>acc_verified := False, acc_verified_at := 0\<rparr>"
    using addr by (simp add: revoke_def sync_account_verified_def fold split: option.split)
  then show ?thesis
    using le by (simp add: acc_balance_def pending_emission_def)
qed

theorem revoke_forfeits_pending_witness:
  "acc_balance (get_or_new (revoke poh_demo 11) 11) 7250 = 0 \<and> acc_balance (get_or_new poh_demo 11) 7250 = 2 * UBI"
proof -
  have a: "get_or_new poh_demo 11 = (fresh_account 11)\<lparr>acc_verified := True, acc_verified_at := 50\<rparr>"
    by (simp add: poh_demo_def register_juror_def seed_verified_human_def sync_account_verified_def)
      (simp add: put_juror_def put_human_def put_def get_or_new_def get_def mem_state_new_def)
  show ?thesis
    using revoke_forfeits_pending [OF poh_demo_ok, of 11 7250]
    by (simp add: a acc_balance_def pending_emission_def const_defs sat_mul128_def sat_add128_def U128_MAX_def)
qed

text \<open>
  vouches are counted, not checked. Finalisation asks for distinct verified vouchers, but the
  code looks at the length of the stored list only: changing the status of any other human, for
  example revoking every voucher, never changes the outcome.
\<close>

theorem finalize_ignores_voucher_status:
  assumes "hu_address h \<noteq> a"
  shows "fst (finalize_registration (put_human s h) a blk t) = fst (finalize_registration s a blk t)"
proof -
  have "all_cases (put_human s h) = all_cases s" by (simp add: all_cases_def)
  then have "last_registration (put_human s h) = last_registration s"
    "has_pending_or_upheld_challenge (put_human s h) = has_pending_or_upheld_challenge s"
    by (simp_all add: last_registration_def has_pending_or_upheld_challenge_def fun_eq_iff)
  then show ?thesis
    using assms
    by (simp add: finalize_registration_def Let_def liveness_passed_def registration_opened_at_def
        split: option.split)
qed

theorem finalize_ignores_voucher_status_witness:
  "fst (finalize_registration (put_human vouched ((human_pending 11 0)\<lparr>hu_status := Revoked\<rparr>)) 20 5 1000)
   = fst (finalize_registration vouched 20 5 1000)"
  by (rule finalize_ignores_voucher_status) (simp add: human_pending_def)

text \<open>
  an upheld challenge bars its subject for good. The scan for upheld challenges covers the whole
  history of cases, so a human who was revoked by a jury and registers again can never be finalised,
  although re-registration after revocation is allowed.
\<close>

theorem upheld_challenge_bars_forever:
  assumes "get_case s k = Some c" "cs_subject c = a" "cs_kind c = Challenge"
    "cs_status c = Committed v" "cv_verdict v = VSybil"
  shows "\<exists>e. finalize_registration s a blk t = (Inl e, s)"
proof -
  have "c \<in> set (all_cases s)"
    using assms(1) by (auto simp: all_cases_def set_fm_values get_case_def)
  then have "has_pending_or_upheld_challenge s a"
    using assms(2-5) by (auto simp: has_pending_or_upheld_challenge_def list_ex_iff)
  then show ?thesis
    by (auto simp: finalize_registration_def Let_def split: option.split)
qed

theorem upheld_challenge_bars_forever_witness:
  "\<exists>e. finalize_registration (put_case vouched \<lparr>cs_id = 9, cs_subject = 20, cs_challenger = 11,
      cs_kind = Challenge, cs_evidence_ref = 0, cs_jury = [], cs_votes = [],
      cs_status = Committed sybil_high, cs_opened_at = 0\<rparr>) 20 5 1000 =
    (Inl e, put_case vouched \<lparr>cs_id = 9, cs_subject = 20, cs_challenger = 11,
      cs_kind = Challenge, cs_evidence_ref = 0, cs_jury = [], cs_votes = [],
      cs_status = Committed sybil_high, cs_opened_at = 0\<rparr>)"
  by (rule upheld_challenge_bars_forever [where k = 9 and v = sybil_high]) (simp, simp_all add: verdict_new_def)

end
