(* ===== verification/Hash160.thy ===== *)
theory Hash160
  imports Ubi_Prelude
begin

unbundle bit_operations_syntax

text \<open>
  The dependency-free SHA-256 and RIPEMD-160 of \<^verbatim>\<open>crates/runtime/src/hash160.rs\<close>, and the
  \<^verbatim>\<open>user_identifier\<close> digest built from them that binds a passport proof to its submitter. The
  padding loop is a function with a termination proof; the lemmas give the shape of the padded
  message and of the digests.
\<close>

type_synonym u32w = "32 word"

section \<open>Shared pieces\<close>

text \<open>\<^verbatim>\<open>rotate_left\<close> and \<^verbatim>\<open>rotate_right\<close> for amounts between 1 and 31.\<close>

definition rotl32 :: "nat \<Rightarrow> u32w \<Rightarrow> u32w" where
  "rotl32 n x = push_bit n x OR drop_bit (32 - n) x"

definition rotr32 :: "nat \<Rightarrow> u32w \<Rightarrow> u32w" where
  "rotr32 n x = drop_bit n x OR push_bit (32 - n) x"

text \<open>The loop \<^verbatim>\<open>while msg.len() % 64 != 56 { msg.push(0) }\<close>.\<close>

function pad_loop :: "byte list \<Rightarrow> byte list" where
  "pad_loop msg = (if length msg mod 64 \<noteq> 56 then pad_loop (msg @ [0]) else msg)"
  by pat_completeness auto
termination
proof (relation "measure (\<lambda>msg. let k = length msg mod 64 in if k \<le> 56 then 56 - k else 120 - k)")
  fix msg :: "byte list"
  assume "length msg mod 64 \<noteq> 56"
  moreover have "length msg mod 64 < 64" by simp
  moreover have "length (msg @ [0]) mod 64 =
      (if length msg mod 64 = 63 then 0 else Suc (length msg mod 64))"
    by (simp add: mod_Suc)
  ultimately show "(msg @ [0], msg) \<in>
      measure (\<lambda>msg. let k = length msg mod 64 in if k \<le> 56 then 56 - k else 120 - k)"
    by (auto simp: Let_def)
qed simp

declare pad_loop.simps [simp del]

text \<open>The number of zeros the loop appends, in closed form; it is also what is evaluated.\<close>

lemma pad_count:
  fixes k :: nat
  assumes "k < 64" "k \<noteq> 56"
  shows "(120 - k) mod 64 = Suc ((120 - (if k = 63 then 0 else Suc k)) mod 64)"
proof -
  have "list_all (\<lambda>k :: nat. k = 56 \<or>
      (120 - k) mod 64 = Suc ((120 - (if k = 63 then 0 else Suc k)) mod 64)) [0..<64]"
    by code_simp
  with assms show ?thesis by (auto simp: list_all_iff)
qed

lemma pad_loop_closed [code]: "pad_loop msg = msg @ replicate ((120 - length msg mod 64) mod 64) 0"
proof (induction msg rule: pad_loop.induct)
  case (1 msg)
  let ?k = "length msg mod 64"
  have k: "?k < 64" by simp
  show ?case
  proof (cases "?k = 56")
    case True
    then show ?thesis by (simp add: pad_loop.simps [of msg])
  next
    case False
    have suc: "length (msg @ [0]) mod 64 = (if ?k = 63 then 0 else Suc ?k)"
      by (simp add: mod_Suc)
    have "(120 - ?k) mod 64 = Suc ((120 - length (msg @ [0]) mod 64) mod 64)"
      unfolding suc by (rule pad_count [OF k False])
    with 1 False show ?thesis by (simp add: pad_loop.simps [of msg])
  qed
qed

function chunks_exact :: "nat \<Rightarrow> 'a list \<Rightarrow> 'a list list" where
  "chunks_exact n xs =
     (if n = 0 \<or> length xs < n then [] else take n xs # chunks_exact n (drop n xs))"
  by pat_completeness auto
termination
  by (relation "measure (\<lambda>(n, xs). length xs)") auto

declare chunks_exact.simps [simp del]

lemma chunks_exact_closed [code]:
  "chunks_exact n xs = map (\<lambda>i. take n (drop (i * n) xs)) [0..<length xs div n]"
proof (induction n xs rule: chunks_exact.induct)
  case (1 n xs)
  show ?case
  proof (cases "n = 0 \<or> length xs < n")
    case False
    then have len: "length xs div n = Suc (length (drop n xs) div n)"
      by (simp add: le_div_geq)
    have "chunks_exact n xs = take n xs # map (\<lambda>i. take n (drop (i * n) (drop n xs))) [0..<length (drop n xs) div n]"
      using 1 False by (simp add: chunks_exact.simps [of n xs])
    also have "\<dots> = map (\<lambda>i. take n (drop (i * n) xs)) (0 # map Suc [0..<length (drop n xs) div n])"
      by (simp add: add.commute)
    finally show ?thesis unfolding len map_Suc_upt by (simp only: upt_conv_Cons [OF zero_less_Suc, symmetric])
  qed (auto simp: chunks_exact.simps)
qed

definition word_of_be :: "byte list \<Rightarrow> u32w" where
  "word_of_be bs = of_nat (be_nat bs)"

definition word_of_le :: "byte list \<Rightarrow> u32w" where
  "word_of_le bs = of_nat (le_nat bs)"

section \<open>SHA-256\<close>

definition SHA256_H0 :: "u32w list" where
  "SHA256_H0 =
    [0x6a09e667, 0xbb67ae85, 0x3c6ef372, 0xa54ff53a,
     0x510e527f, 0x9b05688c, 0x1f83d9ab, 0x5be0cd19]"

text \<open>The round constants, in the two digit groups the source writes each of them with.\<close>

definition SHA256_K :: "u32w list" where
  "SHA256_K = map (\<lambda>(hi, lo). push_bit 16 hi OR lo)
    [(0x428a, 0x2f98), (0x7137, 0x4491), (0xb5c0, 0xfbcf), (0xe9b5, 0xdba5),
     (0x3956, 0xc25b), (0x59f1, 0x11f1), (0x923f, 0x82a4), (0xab1c, 0x5ed5),
     (0xd807, 0xaa98), (0x1283, 0x5b01), (0x2431, 0x85be), (0x550c, 0x7dc3),
     (0x72be, 0x5d74), (0x80de, 0xb1fe), (0x9bdc, 0x06a7), (0xc19b, 0xf174),
     (0xe49b, 0x69c1), (0xefbe, 0x4786), (0x0fc1, 0x9dc6), (0x240c, 0xa1cc),
     (0x2de9, 0x2c6f), (0x4a74, 0x84aa), (0x5cb0, 0xa9dc), (0x76f9, 0x88da),
     (0x983e, 0x5152), (0xa831, 0xc66d), (0xb003, 0x27c8), (0xbf59, 0x7fc7),
     (0xc6e0, 0x0bf3), (0xd5a7, 0x9147), (0x06ca, 0x6351), (0x1429, 0x2967),
     (0x27b7, 0x0a85), (0x2e1b, 0x2138), (0x4d2c, 0x6dfc), (0x5338, 0x0d13),
     (0x650a, 0x7354), (0x766a, 0x0abb), (0x81c2, 0xc92e), (0x9272, 0x2c85),
     (0xa2bf, 0xe8a1), (0xa81a, 0x664b), (0xc24b, 0x8b70), (0xc76c, 0x51a3),
     (0xd192, 0xe819), (0xd699, 0x0624), (0xf40e, 0x3585), (0x106a, 0xa070),
     (0x19a4, 0xc116), (0x1e37, 0x6c08), (0x2748, 0x774c), (0x34b0, 0xbcb5),
     (0x391c, 0x0cb3), (0x4ed8, 0xaa4a), (0x5b9c, 0xca4f), (0x682e, 0x6ff3),
     (0x748f, 0x82ee), (0x78a5, 0x636f), (0x84c8, 0x7814), (0x8cc7, 0x0208),
     (0x90be, 0xfffa), (0xa450, 0x6ceb), (0xbef9, 0xa3f7), (0xc671, 0x78f2)]"

definition sha_schedule_step :: "u32w list \<Rightarrow> nat \<Rightarrow> u32w list" where
  "sha_schedule_step w i =
     (let x = w ! (i - 15); y = w ! (i - 2);
          s0 = rotr32 7 x XOR rotr32 18 x XOR drop_bit 3 x;
          s1 = rotr32 17 y XOR rotr32 19 y XOR drop_bit 10 y
      in w @ [w ! (i - 16) + s0 + w ! (i - 7) + s1])"

definition sha_schedule :: "byte list \<Rightarrow> u32w list" where
  "sha_schedule chunk = foldl sha_schedule_step (map word_of_be (chunks_exact 4 chunk)) [16..<64]"

type_synonym sha_vars = "u32w \<times> u32w \<times> u32w \<times> u32w \<times> u32w \<times> u32w \<times> u32w \<times> u32w"

fun sha_round :: "sha_vars \<Rightarrow> u32w \<times> u32w \<Rightarrow> sha_vars" where
  "sha_round (a, b, c, d, e, f, g, hh) (k, w) =
     (let s1 = rotr32 6 e XOR rotr32 11 e XOR rotr32 25 e;
          ch = (e AND f) XOR (NOT e AND g);
          t1 = hh + s1 + ch + k + w;
          s0 = rotr32 2 a XOR rotr32 13 a XOR rotr32 22 a;
          maj = (a AND b) XOR (a AND c) XOR (b AND c);
          t2 = s0 + maj
      in (t1 + t2, a, b, c, d + t1, e, f, g))"

definition sha_block :: "u32w list \<Rightarrow> byte list \<Rightarrow> u32w list" where
  "sha_block h chunk =
     (let (a, b, c, d, e, f, g, hh) =
            foldl sha_round (h ! 0, h ! 1, h ! 2, h ! 3, h ! 4, h ! 5, h ! 6, h ! 7)
              (zip SHA256_K (sha_schedule chunk))
      in [h ! 0 + a, h ! 1 + b, h ! 2 + c, h ! 3 + d, h ! 4 + e, h ! 5 + f, h ! 6 + g, h ! 7 + hh])"

text \<open>The bit length is a wrapping 64-bit product.\<close>

definition bit_len :: "byte list \<Rightarrow> nat" where
  "bit_len data = (length data * 8) mod 2 ^ 64"

definition sha_padded :: "byte list \<Rightarrow> byte list" where
  "sha_padded data = pad_loop (data @ [0x80]) @ be_bytes 8 (bit_len data)"

definition sha256 :: "byte list \<Rightarrow> byte list" where
  "sha256 data =
     concat (map (\<lambda>w. be_bytes 4 (unat w))
       (foldl sha_block SHA256_H0 (chunks_exact 64 (sha_padded data))))"

section \<open>RIPEMD-160\<close>

definition RL :: "nat list" where
  "RL =
    [0, 1, 2, 3, 4, 5, 6, 7, 8, 9, 10, 11, 12, 13, 14, 15,
     7, 4, 13, 1, 10, 6, 15, 3, 12, 0, 9, 5, 2, 14, 11, 8,
     3, 10, 14, 4, 9, 15, 8, 1, 2, 7, 0, 6, 13, 11, 5, 12,
     1, 9, 11, 10, 0, 8, 12, 4, 13, 3, 7, 15, 14, 5, 6, 2,
     4, 0, 5, 9, 7, 12, 2, 10, 14, 1, 3, 8, 11, 6, 15, 13]"

definition RR :: "nat list" where
  "RR =
    [5, 14, 7, 0, 9, 2, 11, 4, 13, 6, 15, 8, 1, 10, 3, 12,
     6, 11, 3, 7, 0, 13, 5, 10, 14, 15, 8, 12, 4, 9, 1, 2,
     15, 5, 1, 3, 7, 14, 6, 9, 11, 8, 12, 2, 10, 0, 4, 13,
     8, 6, 4, 1, 3, 11, 15, 0, 5, 12, 2, 13, 9, 7, 10, 14,
     12, 15, 10, 4, 1, 5, 8, 7, 6, 2, 13, 14, 0, 3, 9, 11]"

definition SL :: "nat list" where
  "SL =
    [11, 14, 15, 12, 5, 8, 7, 9, 11, 13, 14, 15, 6, 7, 9, 8,
     7, 6, 8, 13, 11, 9, 7, 15, 7, 12, 15, 9, 11, 7, 13, 12,
     11, 13, 6, 7, 14, 9, 13, 15, 14, 8, 13, 6, 5, 12, 7, 5,
     11, 12, 14, 15, 14, 15, 9, 8, 9, 14, 5, 6, 8, 6, 5, 12,
     9, 15, 5, 11, 6, 8, 13, 12, 5, 12, 13, 14, 11, 8, 5, 6]"

definition SR :: "nat list" where
  "SR =
    [8, 9, 9, 11, 13, 15, 15, 5, 7, 7, 8, 11, 14, 14, 12, 6,
     9, 13, 15, 7, 12, 8, 9, 11, 7, 7, 12, 7, 6, 15, 13, 11,
     9, 7, 15, 11, 8, 6, 6, 14, 12, 13, 5, 14, 13, 13, 7, 5,
     15, 5, 8, 11, 14, 14, 6, 14, 6, 9, 12, 9, 12, 5, 15, 8,
     8, 5, 12, 9, 12, 5, 14, 6, 8, 13, 6, 5, 15, 13, 11, 11]"

definition rmd_f :: "nat \<Rightarrow> u32w \<Rightarrow> u32w \<Rightarrow> u32w \<Rightarrow> u32w" where
  "rmd_f rnd x y z =
     (if rnd = 0 then x XOR y XOR z
      else if rnd = 1 then (x AND y) OR (NOT x AND z)
      else if rnd = 2 then (x OR NOT y) XOR z
      else if rnd = 3 then (x AND z) OR (y AND NOT z)
      else x XOR (y OR NOT z))"

definition rmd_kl :: "nat \<Rightarrow> u32w" where
  "rmd_kl rnd =
     (if rnd = 0 then 0 else if rnd = 1 then 0x5a827999 else if rnd = 2 then 0x6ed9eba1
      else if rnd = 3 then 0x8f1bbcdc else 0xa953fd4e)"

definition rmd_kr :: "nat \<Rightarrow> u32w" where
  "rmd_kr rnd =
     (if rnd = 0 then 0x50a28be6 else if rnd = 1 then 0x5c4dd124 else if rnd = 2 then 0x6d703ef3
      else if rnd = 3 then 0x7a6d76e9 else 0)"

type_synonym rmd_vars = "u32w \<times> u32w \<times> u32w \<times> u32w \<times> u32w"

text \<open>One step of a line: the rnd function's value, the message word, the constant, the rotation.\<close>

fun rmd_line :: "u32w \<Rightarrow> u32w \<Rightarrow> u32w \<Rightarrow> nat \<Rightarrow> rmd_vars \<Rightarrow> rmd_vars" where
  "rmd_line fv xw k s (a, b, c, d, e) = (e, rotl32 s (a + fv + xw + k) + e, b, rotl32 10 c, d)"

fun rmd_step :: "u32w list \<Rightarrow> rmd_vars \<times> rmd_vars \<Rightarrow> nat \<Rightarrow> rmd_vars \<times> rmd_vars" where
  "rmd_step x ((al, bl, cl, dl, el), (ar, br, cr, dr, er)) j =
     (let rnd = j div 16
      in (rmd_line (rmd_f rnd bl cl dl) (x ! (RL ! j)) (rmd_kl rnd) (SL ! j) (al, bl, cl, dl, el),
          rmd_line (rmd_f (4 - rnd) br cr dr) (x ! (RR ! j)) (rmd_kr rnd) (SR ! j)
            (ar, br, cr, dr, er)))"

definition rmd_block :: "u32w list \<Rightarrow> byte list \<Rightarrow> u32w list" where
  "rmd_block h chunk =
     (let x = map word_of_le (chunks_exact 4 chunk);
          v = (h ! 0, h ! 1, h ! 2, h ! 3, h ! 4);
          ((al, bl, cl, dl, el), (ar, br, cr, dr, er)) = foldl (rmd_step x) (v, v) [0..<80]
      in [h ! 1 + cl + dr, h ! 2 + dl + er, h ! 3 + el + ar, h ! 4 + al + br, h ! 0 + bl + cr])"

definition rmd_padded :: "byte list \<Rightarrow> byte list" where
  "rmd_padded data = pad_loop (data @ [0x80]) @ le_bytes 8 (bit_len data)"

definition ripemd160 :: "byte list \<Rightarrow> byte list" where
  "ripemd160 data =
     concat (map (\<lambda>w. le_bytes 4 (unat w))
       (foldl rmd_block [0x67452301, 0xefcdab89, 0x98badcfe, 0x10325476, 0xc3d2e1f0]
         (chunks_exact 64 (rmd_padded data))))"

definition user_identifier_hash :: "byte list \<Rightarrow> hash" where
  "user_identifier_hash user_context_data =
     hash_of_bytes (replicate 12 0 @ ripemd160 (sha256 user_context_data))"


section \<open>Lemmas\<close>

lemma length_foldl_blocks:
  assumes "\<And>h c. length (f h c) = n" "length h0 = n"
  shows "length (foldl f h0 cs) = n"
  using assms by (induction cs rule: rev_induct) simp_all

lemma length_sha_block [simp]: "length (sha_block h c) = 8"
  by (simp add: sha_block_def split: prod.split)

lemma length_rmd_block [simp]: "length (rmd_block h c) = 5"
  by (simp add: rmd_block_def Let_def split: prod.split)

lemma length_concat_words:
  "(\<And>x. length (f x) = k) \<Longrightarrow> length (concat (map f xs)) = k * length xs"
  by (induction xs) simp_all

lemma length_sha256 [simp]: "length (sha256 data) = 32"
  unfolding sha256_def
  by (subst length_concat_words [where k = 4]) (simp_all add: length_foldl_blocks [where n = 8] SHA256_H0_def)

lemma length_ripemd160 [simp]: "length (ripemd160 data) = 20"
  unfolding ripemd160_def
  by (subst length_concat_words [where k = 4]) (simp_all add: length_foldl_blocks [where n = 5])

lemma pad_loop_length: "length (pad_loop msg) mod 64 = 56"
proof -
  have "length (pad_loop msg) = length msg + (120 - length msg mod 64) mod 64"
    by (simp add: pad_loop_closed)
  moreover have "(length msg + (120 - length msg mod 64) mod 64) mod 64
      = (length msg mod 64 + (120 - length msg mod 64)) mod 64"
    by (metis mod_add_left_eq mod_add_right_eq)
  moreover have "length msg mod 64 + (120 - length msg mod 64) = 120"
    using mod_less_divisor [of 64 "length msg"] by linarith
  ultimately show ?thesis by simp
qed

lemma be_nat_zeros: "be_nat (replicate k 0 @ bs) = be_nat bs"
proof -
  have "le_nat (xs @ replicate k 0) = le_nat xs" for xs
    by (induction xs) (simp_all, induction k, simp_all)
  then show ?thesis by (simp add: be_nat_def)
qed

lemma user_identifier_bytes:
  "hash_bytes (user_identifier_hash ucd) = replicate 12 0 @ ripemd160 (sha256 ucd)"
  by (simp add: user_identifier_hash_def hash_bytes_hash_of)

section \<open>Properties\<close>

text \<open>
  C38: the padding loop ends on every message, and appends just as many zeros as bring the length
  to 56 modulo 64, so that with the eight length bytes the padded message is a whole number of
  64-byte blocks, starts with the message, and no block is dropped by \<^verbatim>\<open>chunks_exact\<close>.
\<close>

theorem padding_exact:
  "(\<exists>zs. sha_padded data = data @ [0x80] @ zs @ be_bytes 8 (bit_len data)
       \<and> length zs < 64 \<and> set zs \<subseteq> {0})
   \<and> length (sha_padded data) mod 64 = 0
   \<and> length (rmd_padded data) mod 64 = 0
   \<and> concat (chunks_exact 64 (sha_padded data)) = sha_padded data"
proof -
  have zs: "pad_loop (data @ [0x80]) = data @ [0x80] @ replicate ((120 - length (data @ [0x80]) mod 64) mod 64) 0"
    by (simp add: pad_loop_closed)
  have len: "length (pad_loop (data @ [0x80]) @ tail) mod 64 = 0" if "length tail = 8" for tail :: "byte list"
    using pad_loop_length [of "data @ [0x80]"] that by (simp add: mod_add_left_eq [symmetric])
  have whole: "concat (chunks_exact n xs) = xs" if "length xs mod n = 0" "0 < n" for n and xs :: "byte list"
    using that
  proof (induction n xs rule: chunks_exact.induct)
    case (1 n xs)
    show ?case
    proof (cases "length xs < n")
      case True
      then have "xs = []" using 1(2) by simp
      with 1(3) show ?thesis by (simp add: chunks_exact.simps [of n "[]"])
    next
      case False
      then have "length (drop n xs) mod n = 0" using 1 by (simp add: le_mod_geq)
      with 1 False show ?thesis by (simp add: chunks_exact.simps [of n xs])
    qed
  qed
  have "length (sha_padded data) mod 64 = 0" "length (rmd_padded data) mod 64 = 0"
    unfolding sha_padded_def rmd_padded_def by (intro len; simp)+
  moreover have "length (replicate ((120 - length (data @ [0x80]) mod 64) mod 64) (0 :: byte)) < 64" by simp
  ultimately show ?thesis
    using whole [of "sha_padded data" 64] zs unfolding sha_padded_def by force
qed

text \<open>
  both digests have their fixed width, 32 and 20 bytes, and the user identifier is the 20-byte
  digest in the low bytes of a field element whose high twelve bytes are zero.
\<close>

theorem digest_widths:
  "length (sha256 data) = 32 \<and> length (ripemd160 data) = 20
   \<and> take 12 (hash_bytes (user_identifier_hash data)) = replicate 12 0
   \<and> drop 12 (hash_bytes (user_identifier_hash data)) = ripemd160 (sha256 data)"
  by (simp add: user_identifier_bytes)

end
