(* ===== verification/Zk_Lifecycle.thy ===== *)
theory Zk_Lifecycle
  imports Poh_Invariant Hash160
begin

text \<open>
  The ZK-passport entry point and the governance of its trust anchors
  (\<^verbatim>\<open>crates/runtime/src/lifecycle.rs\<close>), and the decoding of the disclosed attributes
  (\<^verbatim>\<open>crates/runtime/src/self_attributes.rs\<close>). The Groth16 verifier is the parameter
  \<open>zk_verifier\<close>. The lemmas show that the entry point is fail-closed, that it spends each nullifier
  at most once, that an accepted nullifier is a canonical field element, and what it does to
  the emission of its submitter.
\<close>

section \<open>The submission\<close>

datatype ZkPohError =
    UnknownScheme u8
  | UnexpectedAttestation
  | WrongScope
  | SubmitterMismatch
  | UserContextHashMismatch
  | StaleProofDate
  | UntrustedSelfRoot
  | UntrustedOfacRoot
  | NullifierAlreadyUsed
  | InvalidProof
  | AlreadyEnhanced Assurance
  | SubjectRevoked
  | NonCanonicalNullifier

record zk_proof_submission =
  zs_proof :: "byte list"
  zs_signals :: "hash list"
  zs_scheme_tag :: u8
  zs_user_context_data :: "byte list"

text \<open>The checks before any write, in the order of the code: the first that fails.\<close>

definition zk_check ::
    "mem_state \<Rightarrow> zk_verifier \<Rightarrow> address \<Rightarrow> zk_proof_submission \<Rightarrow> u64 \<Rightarrow> u64 \<Rightarrow> ZkPohError option" where
  "zk_check s verifier subject sub now now_block =
     (let pi = \<lparr>pi_signals = zs_signals sub\<rparr>;
          ucd = zs_user_context_data sub;
          nullifier = pi_nullifier pi
      in
      if zs_scheme_tag sub \<noteq> SCHEME_TAG_PASSPORT then Some (UnknownScheme (zs_scheme_tag sub))
      else if pi_attestation_id pi \<noteq> u64_to_hash SELF_ATTESTATION_ID_EPASSPORT
        then Some UnexpectedAttestation
      else if ms_self_scope s \<noteq> Some (pi_scope pi) then Some WrongScope
      else if length ucd < 64 then Some SubmitterMismatch
      else if take 20 (drop 44 ucd) \<noteq> addr_bytes subject then Some SubmitterMismatch
      else if user_identifier_hash ucd \<noteq> pi_user_identifier pi then Some UserContextHashMismatch
      else
        case current_date_to_epoch (pi_current_date pi) of
          None \<Rightarrow> Some StaleProofDate
        | Some date_epoch \<Rightarrow>
            if date_epoch < sat_sub now SELF_DATE_WINDOW_SECS
               \<or> date_epoch > sat_add64 now SELF_DATE_WINDOW_SECS then Some StaleProofDate
            else if \<not> self_identity_root_accepted (self_identity_roots s) (pi_merkle_root pi) now_block
              then Some UntrustedSelfRoot
            else if list_ex (\<lambda>kind. \<not> self_ofac_root_accepted (self_ofac_roots s) kind
                (pi_ofac_root pi kind) now_block)
                [OFAC_KIND_PASSPORTNO, OFAC_KIND_NAMEDOB, OFAC_KIND_NAMEYOB]
              then Some UntrustedOfacRoot
            else
              case get_human s subject of
                Some h \<Rightarrow>
                  if hu_status h = Revoked then Some SubjectRevoked
                  else if hu_assurance h \<noteq> Std then Some (AlreadyEnhanced (hu_assurance h))
                  else if \<not> is_canonical_scalar nullifier then Some NonCanonicalNullifier
                  else if nullifier_used s nullifier then Some NullifierAlreadyUsed
                  else if \<not> verify_passport verifier (zs_proof sub) pi then Some InvalidProof
                  else None
              | None \<Rightarrow>
                  if \<not> is_canonical_scalar nullifier then Some NonCanonicalNullifier
                  else if nullifier_used s nullifier then Some NullifierAlreadyUsed
                  else if \<not> verify_passport verifier (zs_proof sub) pi then Some InvalidProof
                  else None)"

definition zk_commit ::
    "mem_state \<Rightarrow> address \<Rightarrow> zk_public_inputs \<Rightarrow> u64 \<Rightarrow> Assurance \<times> mem_state" where
  "zk_commit s subject pi now =
     (let s = put_nullifier s (pi_nullifier pi);
          s = put_attribute_commitments s subject (pi_attribute_commitments pi);
          enhance = (\<lambda>h.
            (Enh, put_human (sync_account_verified s subject True now)
               (h\<lparr>hu_status := Verified, hu_verified_at := now, hu_assurance := Enh\<rparr>)))
      in case get_human s subject of
           Some h \<Rightarrow>
             if hu_status h = Verified then (Dual, put_human s (h\<lparr>hu_assurance := Dual\<rparr>))
             else enhance h
         | None \<Rightarrow> enhance (human_pending subject 0))"

definition submit_zk_passport_proof ::
    "mem_state \<Rightarrow> zk_verifier \<Rightarrow> address \<Rightarrow> zk_proof_submission \<Rightarrow> u64 \<Rightarrow> u64
      \<Rightarrow> (ZkPohError + Assurance) \<times> mem_state" where
  "submit_zk_passport_proof s verifier subject sub now now_block =
     (case zk_check s verifier subject sub now now_block of
        Some e \<Rightarrow> (Inl e, s)
      | None \<Rightarrow>
          let (assurance, s') = zk_commit s subject \<lparr>pi_signals = zs_signals sub\<rparr> now
          in (Inr assurance, s'))"

section \<open>Trust-anchor governance\<close>

datatype CscaGovError = NotGovernance | UnknownCsca

definition register_csca ::
    "mem_state \<Rightarrow> address \<Rightarrow> byte list \<Rightarrow> hash \<Rightarrow> byte list \<Rightarrow> u64 \<Rightarrow> (CscaGovError + unit) \<times> mem_state" where
  "register_csca s caller country_code key_id pubkey now_block =
     (if \<not> is_csca_governance s caller then (Inl NotGovernance, s)
      else (Inr (), put_csca s (csca_active country_code key_id pubkey now_block)))"

definition revoke_csca :: "mem_state \<Rightarrow> address \<Rightarrow> hash \<Rightarrow> (CscaGovError + unit) \<times> mem_state" where
  "revoke_csca s caller key_id =
     (if \<not> is_csca_governance s caller then (Inl NotGovernance, s)
      else case get_csca s key_id of
        None \<Rightarrow> (Inl UnknownCsca, s)
      | Some entry \<Rightarrow> (Inr (), put_csca s (entry\<lparr>ce_status := CscaRevoked\<rparr>)))"

definition seed_csca :: "mem_state \<Rightarrow> byte list \<Rightarrow> hash \<Rightarrow> byte list \<Rightarrow> mem_state" where
  "seed_csca s country_code key_id pubkey = put_csca s (csca_active country_code key_id pubkey 0)"

definition pin_self_identity_root ::
    "mem_state \<Rightarrow> address \<Rightarrow> hash \<Rightarrow> u64 \<Rightarrow> (CscaGovError + unit) \<times> mem_state" where
  "pin_self_identity_root s caller root now_block =
     (if \<not> is_csca_governance s caller then (Inl NotGovernance, s)
      else (Inr (), put_self_identity_root s \<lparr>si_root = root, si_pinned_at_block = now_block\<rparr>))"

definition pin_self_ofac_root ::
    "mem_state \<Rightarrow> address \<Rightarrow> u8 \<Rightarrow> hash \<Rightarrow> u64 \<Rightarrow> (CscaGovError + unit) \<times> mem_state" where
  "pin_self_ofac_root s caller kind root now_block =
     (if \<not> is_csca_governance s caller then (Inl NotGovernance, s)
      else (Inr (), put_self_ofac_root s
        \<lparr>so_kind = kind, so_root = root, so_pinned_at_block = now_block\<rparr>))"

definition retire_self_root :: "mem_state \<Rightarrow> address \<Rightarrow> hash \<Rightarrow> (CscaGovError + unit) \<times> mem_state" where
  "retire_self_root s caller root =
     (if \<not> is_csca_governance s caller then (Inl NotGovernance, s)
      else (Inr (), retire_root s root))"

definition seed_self_identity_root :: "mem_state \<Rightarrow> hash \<Rightarrow> mem_state" where
  "seed_self_identity_root s root =
     put_self_identity_root s \<lparr>si_root = root, si_pinned_at_block = 0\<rparr>"

definition seed_self_ofac_root :: "mem_state \<Rightarrow> u8 \<Rightarrow> hash \<Rightarrow> mem_state" where
  "seed_self_ofac_root s kind root =
     put_self_ofac_root s \<lparr>so_kind = kind, so_root = root, so_pinned_at_block = 0\<rparr>"

definition seed_self_scope :: "mem_state \<Rightarrow> hash \<Rightarrow> mem_state" where
  "seed_self_scope s scope = put_self_scope s scope"

section \<open>Disclosed attributes\<close>

record self_attributes =
  sa_nationality :: "byte list"
  sa_gender :: byte
  sa_older_than :: u8
  sa_ofac_clear :: bool

definition is_ascii_digit :: "byte \<Rightarrow> bool" where
  "is_ascii_digit b \<longleftrightarrow> 48 \<le> b \<and> b \<le> 57"

definition packed_buffer :: "hash list \<Rightarrow> byte list" where
  "packed_buffer revealed =
     concat (map (\<lambda>r. map (\<lambda>k. hash_bytes r ! (31 - k)) [0..<31]) revealed)"

definition decode_self_attributes :: "hash list \<Rightarrow> self_attributes" where
  "decode_self_attributes revealed =
     (let buf = packed_buffer revealed
      in \<lparr>sa_nationality = [buf ! 54, buf ! 55, buf ! 56],
          sa_gender = buf ! 64,
          sa_older_than =
            (if is_ascii_digit (buf ! 88) \<and> is_ascii_digit (buf ! 89)
             then (unat (buf ! 88) - 48) * 10 + (unat (buf ! 89) - 48) else 0),
          sa_ofac_clear = (buf ! 90 = 1 \<and> buf ! 91 = 1 \<and> buf ! 92 = 1)\<rparr>)"

definition gender_label :: "self_attributes \<Rightarrow> string" where
  "gender_label a =
     (if sa_gender a \<in> {of_char (CHR ''M''), of_char (CHR ''m'')} then ''male''
      else if sa_gender a \<in> {of_char (CHR ''F''), of_char (CHR ''f'')} then ''female''
      else if sa_gender a \<in> {of_char (CHR ''<''), of_char (CHR ''X''), of_char (CHR ''x'')} then ''other''
      else '''')"

section \<open>Lemmas\<close>

lemma nullifier_frame [simp]:
  "get (put_nullifier s n) = get s" "get_human (put_nullifier s n) = get_human s"
  "get_case (put_nullifier s n) = get_case s" "get_juror (put_nullifier s n) = get_juror s"
  "get_stream (put_nullifier s n) = get_stream s" "index_ok (put_nullifier s n) = index_ok s"
  "ms_next_id (put_nullifier s n) = ms_next_id s" "get_or_new (put_nullifier s n) = get_or_new s"
  by (simp_all add: state_defs fun_eq_iff get_or_new_def index_ok_def)

lemma attribute_frame [simp]:
  "get (put_attribute_commitments s a cs) = get s"
  "get_human (put_attribute_commitments s a cs) = get_human s"
  "get_case (put_attribute_commitments s a cs) = get_case s"
  "get_juror (put_attribute_commitments s a cs) = get_juror s"
  "get_stream (put_attribute_commitments s a cs) = get_stream s"
  "index_ok (put_attribute_commitments s a cs) = index_ok s"
  "ms_next_id (put_attribute_commitments s a cs) = ms_next_id s"
  "get_or_new (put_attribute_commitments s a cs) = get_or_new s"
  by (simp_all add: state_defs fun_eq_iff get_or_new_def index_ok_def)

lemma zk_registries_ok [simp]:
  "chain_ok (put_nullifier s n) = chain_ok s"
  "chain_ok (put_attribute_commitments s a cs) = chain_ok s"
  "emitting_at (put_nullifier s n) = emitting_at s"
  "emitting_at (put_attribute_commitments s a cs) = emitting_at s"
  by (simp_all add: chain_ok_def ledger_ok_def poh_ok_def gate_ok_def acct_store.keys_agree_def
      human_store.keys_agree_def juror_store.keys_agree_def fun_eq_iff cache_at_def emitting_at_def)

lemma nullifiers_sync [simp]:
  "ms_nullifiers (sync_account_verified s a v t) = ms_nullifiers s"
  "ms_nullifiers (put_human s h) = ms_nullifiers s"
  "ms_nullifiers (put_attribute_commitments s a cs) = ms_nullifiers s"
  by (simp_all add: sync_account_verified_def put_def put_human_def put_attribute_commitments_def)

lemma zk_commit_nullifier:
  "ms_nullifiers (snd (zk_commit s a pi now)) = finsert (pi_nullifier pi) (ms_nullifiers s)"
  by (simp add: zk_commit_def Let_def put_nullifier_def split: option.split)

lemma zk_commit_ok:
  assumes ok: "chain_ok s" and now: "now \<le> U64_MAX"
  shows "chain_ok (snd (zk_commit s a pi now))"
    and "emitting_at (snd (zk_commit s a pi now)) =
      (if map_option hu_status (get_human s a) = Some Verified then emitting_at s
       else (emitting_at s)(a := Some now))"
    and "fst (zk_commit s a pi now) =
      (if map_option hu_status (get_human s a) = Some Verified then Dual else Enh)"
    and "map_option hu_status (get_human (snd (zk_commit s a pi now)) a) = Some Verified"
proof -
  let ?s = "put_attribute_commitments (put_nullifier s (pi_nullifier pi)) a (pi_attribute_commitments pi)"
  have s: "chain_ok ?s" "emitting_at ?s = emitting_at s" "get_human ?s = get_human s"
    using ok by simp_all
  have enh: "chain_ok (put_human (sync_account_verified ?s a True now) h')"
    "emitting_at (put_human (sync_account_verified ?s a True now) h') = (emitting_at s)(a := Some now)"
    if "h' = h\<lparr>hu_status := Verified, hu_verified_at := now, hu_assurance := Enh\<rparr>" "hu_address h = a" for h h'
    using chain_ok_put_both [OF s(1), of h' True now a] that now s(2) by (simp_all add: emit_def)
  have dual: "chain_ok (put_human ?s h')" "emitting_at (put_human ?s h') = emitting_at s"
    if "h' = h\<lparr>hu_assurance := Dual\<rparr>" "get_human s a = Some h" for h h'
  proof -
    have "emit h' = emitting_at ?s (hu_address h')"
      using that s(2) chain_ok_human [OF ok that(2)] emitting_human [OF that(2)] by (simp add: emit_def)
    then show "chain_ok (put_human ?s h')" "emitting_at (put_human ?s h') = emitting_at s"
      using chain_ok_put_human [OF s(1)] s(2) by metis+
  qed
  have addr: "hu_address h = a" if "get_human s a = Some h" for h
    using chain_ok_human [OF ok that] .
  have pend: "hu_address (human_pending a 0) = a" by (simp add: human_pending_def)
  show "chain_ok (snd (zk_commit s a pi now))"
    by (cases "get_human s a") (auto simp: zk_commit_def Let_def enh dual addr pend)
  show "emitting_at (snd (zk_commit s a pi now)) =
      (if map_option hu_status (get_human s a) = Some Verified then emitting_at s
       else (emitting_at s)(a := Some now))"
    by (cases "get_human s a") (auto simp: zk_commit_def Let_def enh dual addr pend simp del: emitting_put_human)
  show "fst (zk_commit s a pi now) =
      (if map_option hu_status (get_human s a) = Some Verified then Dual else Enh)"
    by (cases "get_human s a") (auto simp: zk_commit_def Let_def)
  show "map_option hu_status (get_human (snd (zk_commit s a pi now)) a) = Some Verified"
    by (cases "get_human s a") (auto simp: zk_commit_def Let_def addr pend)
qed

lemma submit_zk_cases:
  "submit_zk_passport_proof s v a sub now blk =
     (case zk_check s v a sub now blk of
        Some e \<Rightarrow> (Inl e, s)
      | None \<Rightarrow> (Inr (fst (zk_commit s a \<lparr>pi_signals = zs_signals sub\<rparr> now)),
                 snd (zk_commit s a \<lparr>pi_signals = zs_signals sub\<rparr> now)))"
  by (simp add: submit_zk_passport_proof_def split: option.split prod.split)

lemma zk_check_none:
  assumes "zk_check s v a sub now blk = None"
  shows "is_canonical_scalar (pi_nullifier \<lparr>pi_signals = zs_signals sub\<rparr>)"
    "\<not> nullifier_used s (pi_nullifier \<lparr>pi_signals = zs_signals sub\<rparr>)"
    "verify_passport v (zs_proof sub) \<lparr>pi_signals = zs_signals sub\<rparr>"
    "take 20 (drop 44 (zs_user_context_data sub)) = addr_bytes a"
    "user_identifier_hash (zs_user_context_data sub) = pi_user_identifier \<lparr>pi_signals = zs_signals sub\<rparr>"
    "ms_self_scope s = Some (pi_scope \<lparr>pi_signals = zs_signals sub\<rparr>)"
    "self_identity_root_accepted (self_identity_roots s) (pi_merkle_root \<lparr>pi_signals = zs_signals sub\<rparr>) blk"
    "map_option hu_status (get_human s a) \<noteq> Some Revoked"
    "\<And>h. get_human s a = Some h \<Longrightarrow> hu_assurance h = Std"
  using assms by (auto simp: zk_check_def Let_def split: if_splits option.splits)

text \<open>One call of the entry point as an operation on the state.\<close>

type_synonym zk_call = "zk_verifier \<times> address \<times> zk_proof_submission \<times> u64 \<times> u64"

fun zk_exec :: "mem_state \<Rightarrow> zk_call \<Rightarrow> (ZkPohError + Assurance) \<times> mem_state" where
  "zk_exec s (v, a, sub, now, blk) = submit_zk_passport_proof s v a sub now blk"

fun call_nullifier :: "zk_call \<Rightarrow> hash" where
  "call_nullifier (v, a, sub, now, blk) = pi_nullifier \<lparr>pi_signals = zs_signals sub\<rparr>"

interpretation zk_layer: fail_closed zk_exec
proof
  fix s i e s'
  assume "zk_exec s i = (Inl e, s')"
  then show "s' = s"
    by (cases i) (auto simp: submit_zk_cases split: option.splits)
qed

lemma zk_exec_accepted:
  assumes "zk_exec s c = (Inr r, s')"
  shows "\<not> nullifier_used s (call_nullifier c)"
    "ms_nullifiers s' = finsert (call_nullifier c) (ms_nullifiers s)"
    "is_canonical_scalar (call_nullifier c)"
  using assms
  by (cases c; auto simp: submit_zk_cases zk_commit_nullifier dest: zk_check_none split: option.splits)+

lemma zk_accepted_fresh:
  "set (map call_nullifier (zk_layer.accepted s cs)) \<inter> fset (ms_nullifiers s) = {}
   \<and> distinct (map call_nullifier (zk_layer.accepted s cs))
   \<and> fset (ms_nullifiers (zk_layer.run s cs)) =
       fset (ms_nullifiers s) \<union> set (map call_nullifier (zk_layer.accepted s cs))"
proof (induction cs arbitrary: s)
  case (Cons c cs)
  obtain r s' where e: "zk_exec s c = (r, s')" by (cases "zk_exec s c")
  show ?case
  proof (cases r)
    case (Inl err)
    then have "s' = s" using zk_layer.rejected_unchanged e by blast
    then show ?thesis using Cons [of s] e Inl by simp
  next
    case (Inr ass)
    note acc = zk_exec_accepted [OF e [unfolded Inr]]
    show ?thesis
      using Cons [of s'] acc e Inr by (auto simp: nullifier_used_def)
  qed
qed simp

lemma zk_accepted_canonical:
  "c \<in> set (zk_layer.accepted s cs) \<Longrightarrow> call_nullifier c < BN254_FR_MODULUS_BE"
proof (induction cs arbitrary: s)
  case (Cons d cs)
  obtain r s' where e: "zk_exec s d = (r, s')" by (cases "zk_exec s d")
  show ?case
    using Cons e zk_exec_accepted(3) [of s d _ s']
    by (cases r) (auto simp: canonical_iff_less)
qed simp

text \<open>The registries of pinned roots are keyed stores too.\<close>

definition get_self_identity_root :: "mem_state \<Rightarrow> hash \<Rightarrow> self_identity_root option" where
  "get_self_identity_root s = fmlookup (ms_self_identity_roots s)"

definition get_self_ofac_root :: "mem_state \<Rightarrow> u8 \<times> hash \<Rightarrow> self_ofac_root option" where
  "get_self_ofac_root s = fmlookup (ms_self_ofac_roots s)"

interpretation identity_roots: keyed_store get_self_identity_root put_self_identity_root si_root
  by unfold_locales (simp add: get_self_identity_root_def put_self_identity_root_def)

interpretation ofac_roots: keyed_store get_self_ofac_root put_self_ofac_root "\<lambda>e. (so_kind e, so_root e)"
  by unfold_locales (simp add: get_self_ofac_root_def put_self_ofac_root_def)

lemma identity_root_accepted_iff:
  assumes "identity_roots.keys_agree s"
  shows "self_identity_root_accepted (self_identity_roots s) root blk \<longleftrightarrow>
    (\<exists>e. get_self_identity_root s root = Some e \<and> blk - si_pinned_at_block e \<le> SELF_ROOT_WINDOW_BLOCKS)"
  using assms
  by (fastforce simp: self_identity_root_accepted_def self_identity_roots_def list_ex_iff set_fm_values
      identity_roots.keys_agree_def get_self_identity_root_def)

lemma ofac_root_accepted_iff:
  assumes "ofac_roots.keys_agree s"
  shows "self_ofac_root_accepted (self_ofac_roots s) kind root blk \<longleftrightarrow>
    (\<exists>e. get_self_ofac_root s (kind, root) = Some e \<and> blk - so_pinned_at_block e \<le> SELF_ROOT_WINDOW_BLOCKS)"
  using assms
  by (fastforce simp: self_ofac_root_accepted_def self_ofac_roots_def list_ex_iff set_fm_values
      ofac_roots.keys_agree_def get_self_ofac_root_def)

lemma retire_root_keys:
  "identity_roots.keys_agree s \<Longrightarrow> identity_roots.keys_agree (retire_root s root)"
  "ofac_roots.keys_agree s \<Longrightarrow> ofac_roots.keys_agree (retire_root s root)"
  by (auto simp: identity_roots.keys_agree_def ofac_roots.keys_agree_def retire_root_def
      get_self_identity_root_def get_self_ofac_root_def split: if_splits)

lemma pinned_identity_window:
  assumes "identity_roots.keys_agree s"
  shows "self_identity_root_accepted (self_identity_roots
      (put_self_identity_root s \<lparr>si_root = root, si_pinned_at_block = b\<rparr>)) r n
    = (if r = root then n \<le> b + SELF_ROOT_WINDOW_BLOCKS
       else self_identity_root_accepted (self_identity_roots s) r n)"
  by (auto simp: identity_roots.lookup_store identity_root_accepted_iff [OF assms]
      identity_root_accepted_iff [OF identity_roots.keys_agree_store [OF assms]])

lemma pinned_ofac_window:
  assumes "ofac_roots.keys_agree s"
  shows "self_ofac_root_accepted (self_ofac_roots
      (put_self_ofac_root s \<lparr>so_kind = k, so_root = root, so_pinned_at_block = b\<rparr>)) k' r n
    = (if (k', r) = (k, root) then n \<le> b + SELF_ROOT_WINDOW_BLOCKS
       else self_ofac_root_accepted (self_ofac_roots s) k' r n)"
  by (auto simp: ofac_roots.lookup_store ofac_root_accepted_iff [OF assms]
      ofac_root_accepted_iff [OF ofac_roots.keys_agree_store [OF assms]])

lemma retired_root_refused:
  assumes "identity_roots.keys_agree s" "ofac_roots.keys_agree s"
  shows "\<not> self_identity_root_accepted (self_identity_roots (retire_root s root)) root n"
    "\<not> self_ofac_root_accepted (self_ofac_roots (retire_root s root)) k root n"
proof -
  have "get_self_identity_root (retire_root s root) root = None"
    "get_self_ofac_root (retire_root s root) (k, root) = None"
    by (simp_all add: retire_root_def get_self_identity_root_def get_self_ofac_root_def)
  then show "\<not> self_identity_root_accepted (self_identity_roots (retire_root s root)) root n"
    "\<not> self_ofac_root_accepted (self_ofac_roots (retire_root s root)) k root n"
    by (simp_all add: identity_root_accepted_iff [OF retire_root_keys(1) [OF assms(1)]]
        ofac_root_accepted_iff [OF retire_root_keys(2) [OF assms(2)]])
qed

end
