(* ===== verification/Zk_Theorems.thy ===== *)
theory Zk_Theorems
  imports Zk_Lifecycle
begin

text \<open>
  The properties of the ZK-passport path: the exact effect of a submission, one human per
  passport, the canonicality of nullifiers, governance of the trust anchors with their freshness
  window, and the registry commitments. The witness input is a complete accepted submission
  against the scripted verifier.
\<close>

section \<open>An accepted submission\<close>

definition demo_ucd :: "byte list" where
  "demo_ucd = replicate 44 0 @ addr_bytes 77"

text \<open>Signals of a proof dated 2026-01-01 with nullifier 7, for the submitter 77.\<close>

definition demo_signals :: "hash list" where
  "demo_signals = [100, 101, 102, 0, 0, 0, 0, 7, u64_to_hash 1, 9, 2, 6, 0, 1, 0, 1, 16, 17, 18, 5,
     user_identifier_hash demo_ucd]"

definition demo_submission :: zk_proof_submission where
  "demo_submission = \<lparr>zs_proof = [1], zs_signals = demo_signals, zs_scheme_tag = 0,
     zs_user_context_data = demo_ucd\<rparr>"

definition zk_demo :: mem_state where
  "zk_demo = mem_state_new\<lparr>ms_self_scope := Some 5,
     ms_self_identity_roots := fmap_of_list [(9, \<lparr>si_root = 9, si_pinned_at_block = 0\<rparr>)],
     ms_self_ofac_roots := fmap_of_list
       [((0, 16), \<lparr>so_kind = 0, so_root = 16, so_pinned_at_block = 0\<rparr>),
        ((1, 17), \<lparr>so_kind = 1, so_root = 17, so_pinned_at_block = 0\<rparr>),
        ((2, 18), \<lparr>so_kind = 2, so_root = 18, so_pinned_at_block = 0\<rparr>)]\<rparr>"

abbreviation "demo_verifier \<equiv> mock_verifier (mock_zk_new True)"

abbreviation "demo_now \<equiv> (1767225600 :: nat)"

lemma hash_bytes_small:
  assumes "d < 256"
  shows "hash_bytes (of_nat d) = replicate 31 0 @ [of_nat d]"
proof -
  have "be_nat [of_nat d :: byte] = d"
    using assms by (simp add: be_nat_def unat_of_nat)
  then have "hash_of_bytes (replicate 31 0 @ [of_nat d]) = of_nat d"
    by (simp add: hash_of_bytes_def be_nat_zeros)
  then show ?thesis
    using hash_bytes_hash_of [of "replicate 31 0 @ [of_nat d]"] by simp
qed

lemma date_digit_small:
  assumes "d \<le> 9"
  shows "date_digit (of_nat d) = Some d"
proof -
  have "unat (of_nat d :: byte) = d" using assms by (simp add: unat_of_nat)
  then show ?thesis
    using assms hash_bytes_small [of d] by (simp add: date_digit_def Let_def nth_append)
qed

lemma demo_date: "current_date_to_epoch [2, 6, 0, 1, 0, 1] = Some demo_now"
proof -
  have "date_digits [2, 6, 0, 1, 0, 1] = Some [2, 6, 0, 1, 0, 1]"
    using date_digit_small [of 2] date_digit_small [of 6] date_digit_small [of 0] date_digit_small [of 1]
    by simp
  then show ?thesis
    by (simp add: current_date_to_epoch_def days_from_civil_def Let_def)
qed

lemma zk_demo_roots:
  "self_identity_root_accepted (self_identity_roots zk_demo) 9 10"
  "self_ofac_root_accepted (self_ofac_roots zk_demo) 0 16 10"
  "self_ofac_root_accepted (self_ofac_roots zk_demo) (Suc 0) 17 10"
  "self_ofac_root_accepted (self_ofac_roots zk_demo) 2 18 10"
proof -
  have id_roots: "\<lparr>si_root = 9, si_pinned_at_block = 0\<rparr> \<in> set (self_identity_roots zk_demo)"
    by (auto simp: self_identity_roots_def set_fm_values zk_demo_def)
  have ofac: "\<lparr>so_kind = 0, so_root = 16, so_pinned_at_block = 0\<rparr> \<in> set (self_ofac_roots zk_demo)"
    "\<lparr>so_kind = 1, so_root = 17, so_pinned_at_block = 0\<rparr> \<in> set (self_ofac_roots zk_demo)"
    "\<lparr>so_kind = 2, so_root = 18, so_pinned_at_block = 0\<rparr> \<in> set (self_ofac_roots zk_demo)"
    using set_fm_values [of "ms_self_ofac_roots zk_demo"]
    by (fastforce simp: self_ofac_roots_def zk_demo_def intro: exI [of _ "(0, 16)"]
        exI [of _ "(1, 17)"] exI [of _ "(2, 18)"])+
  show "self_identity_root_accepted (self_identity_roots zk_demo) 9 10"
    using id_roots by (force simp: self_identity_root_accepted_def list_ex_iff SELF_ROOT_WINDOW_BLOCKS_def)
  show "self_ofac_root_accepted (self_ofac_roots zk_demo) 0 16 10"
    "self_ofac_root_accepted (self_ofac_roots zk_demo) (Suc 0) 17 10"
    "self_ofac_root_accepted (self_ofac_roots zk_demo) 2 18 10"
    using ofac by (force simp: self_ofac_root_accepted_def list_ex_iff SELF_ROOT_WINDOW_BLOCKS_def)+
qed

lemma demo_slots:
  "pi_nullifier \<lparr>pi_signals = demo_signals\<rparr> = 7"
  "pi_attestation_id \<lparr>pi_signals = demo_signals\<rparr> = u64_to_hash 1"
  "pi_merkle_root \<lparr>pi_signals = demo_signals\<rparr> = 9"
  "pi_ofac_root \<lparr>pi_signals = demo_signals\<rparr> 0 = 16"
  "pi_ofac_root \<lparr>pi_signals = demo_signals\<rparr> (Suc 0) = 17"
  "pi_ofac_root \<lparr>pi_signals = demo_signals\<rparr> 2 = 18"
  "pi_current_date \<lparr>pi_signals = demo_signals\<rparr> = [2, 6, 0, 1, 0, 1]"
  "pi_scope \<lparr>pi_signals = demo_signals\<rparr> = 5"
  "pi_user_identifier \<lparr>pi_signals = demo_signals\<rparr> = user_identifier_hash demo_ucd"
  by (simp_all add: demo_signals_def pi_nullifier_def pi_attestation_id_def pi_merkle_root_def
      pi_ofac_root_def pi_current_date_def pi_scope_def pi_user_identifier_def const_defs)

lemma zk_demo_frame [simp]:
  "get_human zk_demo a = None" "ms_self_scope zk_demo = Some 5" "nullifier_used zk_demo n = False"
  by (simp_all add: zk_demo_def mem_state_new_def get_human_def nullifier_used_def)

lemma zk_demo_ok: "chain_ok zk_demo"
  using chain_ok_new
  by (simp add: zk_demo_def chain_ok_def ledger_ok_def poh_ok_def gate_ok_def acct_store.keys_agree_def
      human_store.keys_agree_def juror_store.keys_agree_def fun_eq_iff cache_at_def emitting_at_def
      get_def get_human_def get_case_def get_juror_def get_stream_def get_or_new_def index_ok_def)

lemma demo_accepted: "zk_check zk_demo demo_verifier 77 demo_submission demo_now 10 = None"
proof -
  have "take 20 (drop 44 demo_ucd) = addr_bytes 77" "length demo_ucd = 64"
    by (simp_all add: demo_ucd_def)
  moreover have "is_canonical_scalar 7"
    by (simp add: canonical_iff_less BN254_FR_MODULUS_BE_def)
  moreover have "verify_passport demo_verifier p q" for p q
    by (simp add: mock_verifier_def mock_zk_new_def)
  ultimately show ?thesis
    using zk_demo_roots
    by (simp add: zk_check_def Let_def demo_submission_def demo_slots demo_date const_defs
        sat_add64_def U64_MAX_def)
qed

section \<open>Properties\<close>



text \<open>
  C15: One passport, one human. Over any run of submissions, in any order and by any callers, the
  nullifiers of the accepted ones differ from each other even modulo the order of the scalar field
  (so a re-encoding of a spent nullifier is never accepted), none of them was spent before, and the
  spent set at the end is exactly the old one with these added.
\<close>
theorem one_passport_one_human:
  "distinct (map (\<lambda>c. unat (call_nullifier c) mod unat BN254_FR_MODULUS_BE) (zk_layer.accepted s cs))
   \<and> set (map call_nullifier (zk_layer.accepted s cs)) \<inter> fset (ms_nullifiers s) = {}
   \<and> fset (ms_nullifiers (zk_layer.run s cs)) =
       fset (ms_nullifiers s) \<union> set (map call_nullifier (zk_layer.accepted s cs))"
proof -
  note fresh = zk_accepted_fresh [of s cs]
  have "map (\<lambda>c. unat (call_nullifier c) mod unat BN254_FR_MODULUS_BE) (zk_layer.accepted s cs)
      = map unat (map call_nullifier (zk_layer.accepted s cs))"
    using zk_accepted_canonical by (auto simp: word_less_nat_alt)
  moreover have "distinct (map unat (map call_nullifier (zk_layer.accepted s cs)))"
    using fresh by (subst distinct_map) (simp add: inj_on_def unsigned_word_eqI)
  ultimately have "distinct (map (\<lambda>c. unat (call_nullifier c) mod unat BN254_FR_MODULUS_BE)
      (zk_layer.accepted s cs))"
    by (rule ssubst)
  then show ?thesis using fresh by (intro conjI) blast+
qed

text \<open>
  C35: Governance of the trust anchors is exact. Only the governance address changes anything; a root
  it pins at block \<open>b\<close> is accepted at block \<open>n\<close> exactly up to the freshness window after \<open>b\<close> (pinning
  again restarts the window), other roots are unaffected, and a root it retires is accepted by
  neither registry at any block.
\<close>
theorem root_governance_exact:
  assumes keys: "identity_roots.keys_agree s" "ofac_roots.keys_agree s"
  shows "if is_csca_governance s g then
      (\<forall>r n. self_identity_root_accepted (self_identity_roots (snd (pin_self_identity_root s g root b))) r n
        = (if r = root then n \<le> b + SELF_ROOT_WINDOW_BLOCKS
           else self_identity_root_accepted (self_identity_roots s) r n))
      \<and> (\<forall>k' r n. self_ofac_root_accepted (self_ofac_roots (snd (pin_self_ofac_root s g k root b))) k' r n
        = (if (k', r) = (k, root) then n \<le> b + SELF_ROOT_WINDOW_BLOCKS
           else self_ofac_root_accepted (self_ofac_roots s) k' r n))
      \<and> (\<forall>n k'. \<not> self_identity_root_accepted (self_identity_roots (snd (retire_self_root s g root))) root n
        \<and> \<not> self_ofac_root_accepted (self_ofac_roots (snd (retire_self_root s g root))) k' root n)
    else pin_self_identity_root s g root b = (Inl NotGovernance, s)
      \<and> pin_self_ofac_root s g k root b = (Inl NotGovernance, s)
      \<and> retire_self_root s g root = (Inl NotGovernance, s)
      \<and> register_csca s g cc key pub b = (Inl NotGovernance, s)
      \<and> revoke_csca s g key = (Inl NotGovernance, s)"
  using pinned_identity_window [OF keys(1)] pinned_ofac_window [OF keys(2)] retired_root_refused [OF keys]
  by (simp add: pin_self_identity_root_def pin_self_ofac_root_def retire_self_root_def
      register_csca_def revoke_csca_def)

theorem root_governance_exact_witness:
  "self_identity_root_accepted (self_identity_roots
     (snd (pin_self_identity_root (set_csca_governance zk_demo 3) 3 9 100))) 9 5000100
   \<and> \<not> self_identity_root_accepted (self_identity_roots
     (snd (pin_self_identity_root (set_csca_governance zk_demo 3) 3 9 100))) 9 5000101"
proof -
  have "identity_roots.keys_agree (set_csca_governance zk_demo 3)"
    "ofac_roots.keys_agree (set_csca_governance zk_demo 3)"
    by (auto simp: identity_roots.keys_agree_def ofac_roots.keys_agree_def get_self_identity_root_def
        get_self_ofac_root_def set_csca_governance_def zk_demo_def split: if_splits)
  then show ?thesis
    using root_governance_exact [of "set_csca_governance zk_demo 3" 3 9 100]
    by (simp add: is_csca_governance_def set_csca_governance_def SELF_ROOT_WINDOW_BLOCKS_def)
qed

text \<open>
  The registry commitments are functions of the registry contents alone: listing the entries in
  another order gives the same root, and revoked country keys do not contribute.
\<close>
theorem registry_roots_canonical:
  assumes "mset es = mset es'" "inj_on ce_key_id (set es)"
    and "mset ids = mset ids'" "inj_on si_root (set ids)"
    and "mset ofs = mset ofs'" "inj_on (\<lambda>e. (so_kind e, so_root e)) (set ofs)"
  shows "csca_registry_root es = csca_registry_root es'
    \<and> csca_registry_root es = csca_registry_root (filter (\<lambda>e. ce_status e = CscaActive) es)
    \<and> self_root_registry_root ids ofs = self_root_registry_root ids' ofs'"
proof -
  have "mset (filter (\<lambda>e. ce_status e = CscaActive) es) = mset (filter (\<lambda>e. ce_status e = CscaActive) es')"
    using assms(1) by simp
  moreover have "inj_on ce_key_id (set (filter (\<lambda>e. ce_status e = CscaActive) es))"
    using assms(2) by (rule inj_on_subset) auto
  ultimately have "sort_key ce_key_id (filter (\<lambda>e. ce_status e = CscaActive) es)
      = sort_key ce_key_id (filter (\<lambda>e. ce_status e = CscaActive) es')"
    by (rule sort_key_perm)
  then show ?thesis
    using sort_key_perm [OF assms(3, 4)] sort_key_perm [OF assms(5, 6)]
    by (simp add: csca_registry_root_def self_root_registry_root_def)
qed

theorem registry_roots_canonical_witness:
  "csca_registry_root [csca_active [] 1 [] 0, csca_active [] 2 [] 0]
     = csca_registry_root [csca_active [] 2 [] 0, csca_active [] 1 [] 0]"
  using registry_roots_canonical
    [of "[csca_active [] 1 [] 0, csca_active [] 2 [] 0]" "[csca_active [] 2 [] 0, csca_active [] 1 [] 0]"
        "[]" "[]" "[]" "[]"]
  by (simp add: csca_active_def add_mset_commute)

text \<open>
  The three copies of the consensus digest are one function: the state root's streaming hasher and
  the trust-anchor sponge, fed any sequence of chunks, give the one-shot digest of their
  concatenation.
\<close>
theorem digests_agree:
  "hasher_finish (fold hasher_write chunks hasher_new) = fnv1a_256 (concat chunks)
   \<and> csca_sponge_finish (fold csca_sponge_write chunks csca_sponge_new) = fnv1a_256 (concat chunks)"
  by (simp add: streamed_chunks csca_sponge_eq_hasher)

end
