(* ===== verification/Ledger_Frame.thy ===== *)
theory Ledger_Frame
  imports Poh_Invariant
begin

text \<open>
  What the value-moving operations leave alone. \<open>ledger_step now a v s s'\<close> says that going from \<open>s\<close>
  to \<open>s'\<close> touches no registry but accounts and streams, changes nobody's emission flags, and takes
  at most \<open>v\<close> from the balance of \<open>a\<close> (settled, and as read at \<open>now\<close>) and nothing from anybody
  else's. Every ledger
  operation is such a step, and steps compose, so the components above the ledger need no other
  fact about it.
\<close>

definition settled :: "mem_state \<Rightarrow> address \<Rightarrow> nat" where
  "settled s a = acc_settled_balance (get_or_new s a)"

text \<open>The state with its ledger part blanked out.\<close>

definition registries :: "mem_state \<Rightarrow> mem_state" where
  "registries s = s\<lparr>ms_accounts := fmempty, ms_streams := fmempty, ms_outgoing := fmempty,
     ms_incoming := fmempty, ms_next_id := 0\<rparr>"

definition same_registries :: "mem_state \<Rightarrow> mem_state \<Rightarrow> bool" where
  "same_registries s s' \<longleftrightarrow> registries s' = registries s"

definition ledger_step :: "u64 \<Rightarrow> address \<Rightarrow> nat \<Rightarrow> mem_state \<Rightarrow> mem_state \<Rightarrow> bool" where
  "ledger_step now a v s s' \<longleftrightarrow> same_registries s s' \<and> cache_at s' = cache_at s
     \<and> (\<forall>b. settled s b \<le> settled s' b + (if b = a then v else 0)
          \<and> bal s b now \<le> bal s' b now + (if b = a then v else 0))"

section \<open>Registries\<close>

lemma same_registries_refl [simp]: "same_registries s s"
  by (simp add: same_registries_def)

lemma same_registries_trans: "same_registries s t \<Longrightarrow> same_registries t u \<Longrightarrow> same_registries s u"
  by (simp add: same_registries_def)

lemma same_registries_fields:
  assumes "same_registries s s'"
  shows "ms_humans s' = ms_humans s" "ms_vouches_out s' = ms_vouches_out s"
    "ms_vouchers_of s' = ms_vouchers_of s" "ms_cases s' = ms_cases s"
    "ms_next_case_id s' = ms_next_case_id s" "ms_jurors s' = ms_jurors s"
    "ms_cleared_challenges s' = ms_cleared_challenges s" "ms_contracts s' = ms_contracts s"
    "ms_next_contract_id s' = ms_next_contract_id s" "ms_exec_cases s' = ms_exec_cases s"
    "ms_next_exec_case_id s' = ms_next_exec_case_id s" "ms_nullifiers s' = ms_nullifiers s"
    "ms_attribute_commitments s' = ms_attribute_commitments s" "ms_csca s' = ms_csca s"
    "ms_csca_governance s' = ms_csca_governance s" "ms_self_identity_roots s' = ms_self_identity_roots s"
    "ms_self_ofac_roots s' = ms_self_ofac_roots s" "ms_self_scope s' = ms_self_scope s"
    "ms_epoch_validators s' = ms_epoch_validators s"
  using arg_cong [OF assms [unfolded same_registries_def], of ms_humans]
    arg_cong [OF assms [unfolded same_registries_def], of ms_vouches_out]
    arg_cong [OF assms [unfolded same_registries_def], of ms_vouchers_of]
    arg_cong [OF assms [unfolded same_registries_def], of ms_cases]
    arg_cong [OF assms [unfolded same_registries_def], of ms_next_case_id]
    arg_cong [OF assms [unfolded same_registries_def], of ms_jurors]
    arg_cong [OF assms [unfolded same_registries_def], of ms_cleared_challenges]
    arg_cong [OF assms [unfolded same_registries_def], of ms_contracts]
    arg_cong [OF assms [unfolded same_registries_def], of ms_next_contract_id]
    arg_cong [OF assms [unfolded same_registries_def], of ms_exec_cases]
    arg_cong [OF assms [unfolded same_registries_def], of ms_next_exec_case_id]
    arg_cong [OF assms [unfolded same_registries_def], of ms_nullifiers]
    arg_cong [OF assms [unfolded same_registries_def], of ms_attribute_commitments]
    arg_cong [OF assms [unfolded same_registries_def], of ms_csca]
    arg_cong [OF assms [unfolded same_registries_def], of ms_csca_governance]
    arg_cong [OF assms [unfolded same_registries_def], of ms_self_identity_roots]
    arg_cong [OF assms [unfolded same_registries_def], of ms_self_ofac_roots]
    arg_cong [OF assms [unfolded same_registries_def], of ms_self_scope]
    arg_cong [OF assms [unfolded same_registries_def], of ms_epoch_validators]
  by (simp_all add: registries_def)

lemma same_registries_lookups:
  assumes "same_registries s s'"
  shows "get_human s' = get_human s" "get_case s' = get_case s" "get_juror s' = get_juror s"
    "get_contract s' = get_contract s" "get_exec_case s' = get_exec_case s"
    "emitting_at s' = emitting_at s" "active_jurors s' = active_jurors s"
  by (simp_all add: fun_eq_iff get_human_def get_case_def get_juror_def get_contract_def
      get_exec_case_def emitting_at_def active_jurors_def same_registries_fields [OF assms])

lemma same_registries_put [simp]: "same_registries s (put s x)"
  and same_registries_put_stream [simp]: "same_registries s (put_stream s st)"
  and same_registries_next [simp]: "same_registries s (s\<lparr>ms_next_id := n\<rparr>)"
  by (simp_all add: same_registries_def registries_def put_def put_stream_def Let_def)

section \<open>Composition\<close>

lemma ledger_step_refl [simp]: "ledger_step now a v s s"
  by (simp add: ledger_step_def)

lemma ledger_step_trans:
  assumes "ledger_step now a v s t" "ledger_step now a w t u"
  shows "ledger_step now a (v + w) s u"
proof -
  have "settled s b \<le> settled u b + (if b = a then v + w else 0)
      \<and> bal s b now \<le> bal u b now + (if b = a then v + w else 0)" for b
    using assms by (cases "b = a") (auto simp: ledger_step_def intro: order_trans dest!: spec [of _ b])
  then show ?thesis
    using assms same_registries_trans by (auto simp: ledger_step_def)
qed

lemma ledger_step_any: "ledger_step now a 0 s t \<Longrightarrow> ledger_step now b v s t"
  by (fastforce simp: ledger_step_def split: if_splits intro: trans_le_add1)

lemma ledger_step_registries: "ledger_step now a v s s' \<Longrightarrow> same_registries s s'"
  by (simp add: ledger_step_def)

lemma ledger_step_covers:
  assumes "ledger_step now a v s s'" "e \<le> settled s a"
  shows "e - v \<le> settled s' a"
proof -
  have "settled s a \<le> settled s' a + (if a = a then v else 0)"
    using assms(1) unfolding ledger_step_def by blast
  with assms(2) show ?thesis by simp
qed

lemma ledger_step_other:
  assumes "ledger_step now a v s s'" "b \<noteq> a"
  shows "settled s b \<le> settled s' b" "bal s b now \<le> bal s' b now"
proof -
  have "settled s b \<le> settled s' b + (if b = a then v else 0)
      \<and> bal s b now \<le> bal s' b now + (if b = a then v else 0)"
    using assms(1) unfolding ledger_step_def by blast
  with assms(2) show "settled s b \<le> settled s' b" "bal s b now \<le> bal s' b now" by simp_all
qed

lemma ledger_step_spender:
  assumes "ledger_step now a v s s'"
  shows "bal s a now \<le> bal s' a now + v"
proof -
  have "bal s a now \<le> bal s' a now + (if a = a then v else 0)"
    using assms(1) unfolding ledger_step_def by blast
  then show ?thesis by simp
qed

lemma settled_le_bal: "ledger_ok s \<Longrightarrow> settled s a \<le> bal s a now"
  using ledger_ok_account(2) settled_le_balance by (simp add: settled_def)

text \<open>The write of one account: its flags stay, its settled balance falls by at most \<open>v\<close>.\<close>

lemma ledger_step_put:
  assumes "acc_address x = a" "acc_verified x = acc_verified (get_or_new s a)"
    "acc_verified_at x = acc_verified_at (get_or_new s a)"
    "settled s a \<le> acc_settled_balance x + v" "bal s a now \<le> acc_balance x now + v"
  shows "ledger_step now a v s (put s x)"
  using assms by (auto simp: ledger_step_def settled_def cache_at_def fun_eq_iff)

lemma ledger_step_put_stream: "ledger_step now a v s (put_stream s st)"
  by (simp add: ledger_step_def settled_def cache_at_def fun_eq_iff)

lemma ledger_step_next: "ledger_step now a v s (s\<lparr>ms_next_id := n\<rparr>)"
  by (simp add: ledger_step_def settled_def cache_at_def fun_eq_iff get_or_new_def get_def)

lemma flags_adjusted [simp]:
  "acc_verified (credit x now v) = acc_verified x" "acc_verified (debit x now v) = acc_verified x"
  "acc_verified_at (credit x now v) = acc_verified_at x" "acc_verified_at (debit x now v) = acc_verified_at x"
  "acc_settled_balance (credit x now v) = sat_add128 (acc_balance x now) v"
  "acc_settled_balance (debit x now v) = acc_balance x now - v"
  by (simp_all add: credit_def debit_def)

lemma ledger_step_credit:
  assumes "ledger_ok s"
  shows "ledger_step now b w s (put s (credit (get_or_new s a) now v))"
proof -
  note acct = ledger_ok_account [OF assms, of a]
  have "settled s a \<le> sat_add128 (bal s a now) v" "bal s a now \<le> sat_add128 (bal s a now) v"
    using settled_le_bal [OF assms, of a now] balance_le [of "get_or_new s a" now]
    unfolding sat_add128_def by linarith+
  then have "ledger_step now a 0 s (put s (credit (get_or_new s a) now v))"
    using acct by (intro ledger_step_put) simp_all
  then show ?thesis by (rule ledger_step_any)
qed

lemma ledger_step_debit:
  assumes "ledger_ok s"
  shows "ledger_step now a v s (put s (debit (get_or_new s a) now v))"
    and "ledger_step now a v s (put s (debit (get_or_new s a) now v\<lparr>acc_nonce := n\<rparr>))"
  using ledger_ok_account [OF assms, of a] settled_le_bal [OF assms, of a now]
  by (auto intro!: ledger_step_put)

section \<open>The operations are steps\<close>

lemma settle_stream_step:
  assumes "ledger_ok s"
  shows "ledger_step now a v s (snd (settle_stream s k now))"
proof (cases "get_stream s k")
  case (Some st)
  have "ledger_step now a 0 s (snd (settle_stream s k now))"
    using ledger_step_trans [OF ledger_step_credit [OF assms, of now a 0] ledger_step_put_stream [of now a 0]]
    by (simp add: settle_stream_eq [OF Some ledger_ok_stream(2) [OF assms Some]])
  then show ?thesis by (rule ledger_step_any)
qed simp

lemma settle_incoming_step:
  assumes "ledger_ok s" "now \<le> U64_MAX" "wealth now s \<le> U128_MAX"
  shows "ledger_step now b v s (settle_incoming s a now)"
proof -
  have "ledger_step now b 0 s (fold (\<lambda>k s. snd (settle_stream s k now)) ids s)"
    if "ledger_ok s" "wealth now s \<le> U128_MAX" for ids s
    using that
  proof (induction ids arbitrary: s)
    case (Cons k ids)
    let ?s = "snd (settle_stream s k now)"
    have "ledger_ok ?s \<and> wealth now ?s = wealth now s"
      using settle_stream_known [OF Cons.prems(1) _ assms(2) Cons.prems(2)] Cons.prems(1)
      by (cases "get_stream s k") auto
    then have "ledger_step now b 0 ?s (fold (\<lambda>k s. snd (settle_stream s k now)) ids ?s)"
      using Cons by simp
    then show ?case
      using ledger_step_trans [OF settle_stream_step [OF Cons.prems(1), of now b 0]] by simp
  qed simp
  from ledger_step_any [OF this [OF assms(1,3)]] show ?thesis
    by (simp add: settle_incoming_def)
qed

lemma transfer_step:
  assumes "ledger_ok s" "now \<le> U64_MAX" "wealth now s \<le> U128_MAX"
  shows "ledger_step now frm (if frm = to then 0 else val) s (snd (apply_transfer s frm to val nonce now))"
proof -
  let ?s1 = "settle_incoming s frm now"
  let ?x = "get_or_new ?s1 frm"
  note ok = settle_incoming_facts(1) [OF assms, of frm]
  have one: "ledger_step now frm 0 s ?s1" by (rule settle_incoming_step [OF assms])
  have self: "ledger_step now frm 0 ?s1 (put ?s1 (settle ?x now\<lparr>acc_nonce := n\<rparr>))" for n
    using ledger_ok_account [OF ok, of frm] settled_le_bal [OF ok, of frm now]
    by (intro ledger_step_put) simp_all
  have move: "ledger_step now frm val ?s1 (put (put ?s1 (debit ?x now val\<lparr>acc_nonce := incr64 n\<rparr>))
      (credit (get_or_new ?s1 to) now val))" if "frm \<noteq> to" for n
  proof -
    let ?s2 = "put ?s1 (debit ?x now val\<lparr>acc_nonce := incr64 n\<rparr>)"
    have same: "get_or_new ?s2 to = get_or_new ?s1 to"
      using that ledger_ok_account(1) [OF ok, of frm] by simp
    have "ledger_ok ?s2"
      using ok ledger_ok_account [OF ok, of frm] assms(2) by (simp add: ledger_ok_put account_ok_nonce)
    then show ?thesis
      using ledger_step_trans [OF ledger_step_debit(2) [OF ok] ledger_step_credit [of ?s2 now frm 0 to val]]
      unfolding same by simp
  qed
  let ?n = "incr64 (acc_nonce ?x)"
  consider "snd (apply_transfer s frm to val nonce now) = ?s1"
    | "frm = to" "snd (apply_transfer s frm to val nonce now) = put ?s1 (settle ?x now\<lparr>acc_nonce := ?n\<rparr>)"
    | "frm \<noteq> to" "snd (apply_transfer s frm to val nonce now) =
        put (put ?s1 (debit ?x now val\<lparr>acc_nonce := ?n\<rparr>)) (credit (get_or_new ?s1 to) now val)"
    unfolding transfer_cases
    by (cases "nonce \<noteq> acc_nonce ?x"; cases "bal ?s1 frm now < val"; cases "frm = to") simp_all
  then show ?thesis
  proof cases
    case 1
    show ?thesis unfolding 1 by (rule ledger_step_any [OF one])
  next
    case 2
    have "ledger_step now frm (0 + 0) s (snd (apply_transfer s frm to val nonce now))"
      unfolding 2(2) by (rule ledger_step_trans [OF one self])
    with 2(1) show ?thesis by simp
  next
    case 3
    have "ledger_step now frm (0 + val) s (snd (apply_transfer s frm to val nonce now))"
      unfolding 3(2) by (rule ledger_step_trans [OF one move [OF 3(1)]])
    with 3(1) show ?thesis by simp
  qed
qed

lemma charge_fee_step:
  assumes "ledger_ok s" "now \<le> U64_MAX" "wealth now s \<le> U128_MAX" "frm \<noteq> TREASURY"
  shows "ledger_step now frm (fee_for_gas gas) s (snd (charge_fee s frm gas now))"
proof -
  let ?s1 = "settle_incoming s frm now" and ?fee = "fee_for_gas gas"
  let ?s2 = "put ?s1 (debit (get_or_new ?s1 frm) now ?fee)"
  note ok = settle_incoming_facts(1) [OF assms(1-3), of frm]
  have one: "ledger_step now frm 0 s ?s1" by (rule settle_incoming_step [OF assms(1-3)])
  have "ledger_ok ?s2"
    using ok ledger_ok_account [OF ok, of frm] assms(2) by (simp add: ledger_ok_put)
  moreover have "get_or_new ?s2 TREASURY = get_or_new ?s1 TREASURY"
    using assms(4) ledger_ok_account(1) [OF ok, of frm] by simp
  ultimately have two: "ledger_step now frm ?fee ?s1 (put ?s2 (credit (get_or_new ?s1 TREASURY) now ?fee))"
    using ledger_step_trans [OF ledger_step_debit(1) [OF ok] ledger_step_credit [of ?s2 now frm 0 TREASURY ?fee]]
    by (metis add_0_right)
  have zero: "ledger_step now frm 0 ?s1 (put ?s1 (debit (get_or_new ?s1 frm) now 0))"
    by (rule ledger_step_debit(1) [OF ok])
  consider "snd (charge_fee s frm gas now) = ?s1"
    | "snd (charge_fee s frm gas now) = put ?s1 (debit (get_or_new ?s1 frm) now 0)"
    | "snd (charge_fee s frm gas now) = put ?s2 (credit (get_or_new ?s1 TREASURY) now ?fee)"
    unfolding fee_cases by (cases "bal ?s1 frm now < ?fee"; cases "?fee = 0") simp_all
  then show ?thesis
  proof cases
    case 1
    show ?thesis unfolding 1 by (rule ledger_step_any [OF one])
  next
    case 2
    have "ledger_step now frm (0 + 0) s (snd (charge_fee s frm gas now))"
      unfolding 2 by (rule ledger_step_trans [OF one zero])
    then show ?thesis by (simp only: add_0_right) (rule ledger_step_any)
  next
    case 3
    have "ledger_step now frm (0 + ?fee) s (snd (charge_fee s frm gas now))"
      unfolding 3 by (rule ledger_step_trans [OF one two])
    then show ?thesis by simp
  qed
qed

lemma open_stream_step:
  assumes "ledger_ok s" "ms_next_id s < U64_MAX"
  shows "ledger_step now frm deposit s (snd (open_stream s frm to rate deposit now))"
proof (cases "frm = to \<or> rate = 0 \<or> deposit = 0 \<or> rate > MAX_RATE \<or> bal s frm now < deposit")
  case True
  from open_stream_cases(1) [OF this] obtain e where "open_stream s frm to rate deposit now = (Inl e, s)" ..
  then show ?thesis by simp
next
  case False
  let ?s = "s\<lparr>ms_next_id := incr64 (ms_next_id s)\<rparr>"
  have ok: "ledger_ok ?s" by (rule ledger_ok_next_id [OF assms])
  have same: "get_or_new ?s = get_or_new s"
    by (simp add: fun_eq_iff get_or_new_def get_def)
  have "ledger_step now frm deposit ?s (put ?s (debit (get_or_new s frm) now deposit))"
    using ledger_step_debit(1) [OF ok, of now frm deposit] same by simp
  note ledger_step_trans [OF ledger_step_trans [OF ledger_step_next [of now frm 0] this] ledger_step_put_stream [of now frm 0]]
  then show ?thesis
    using open_stream_cases(2) [OF False] by simp
qed

lemma stop_stream_step:
  assumes "ledger_ok s" "now \<le> U64_MAX" "wealth now s \<le> U128_MAX"
  shows "ledger_step now a v s (snd (stop_stream s k caller now))"
proof (cases "\<exists>st. get_stream s k = Some st \<and> st_from st = caller \<and> st_status st = Active")
  case True
  then obtain st where st: "get_stream s k = Some st" "st_from st = caller" "st_status st = Active" by auto
  let ?s1 = "snd (settle_stream s k now)"
  note known = settle_stream_known [OF assms(1) st(1) assms(2,3)]
  have eq: "snd (stop_stream s k caller now) =
    put_stream (put ?s1 (credit (get_or_new ?s1 caller) now (st_deposit st - (st_drawn st + owed st now))))
      (drawn_stream st now\<lparr>st_status := Stopped now\<rparr>)"
    using st known(5) [of k] by (simp add: stop_stream_def Let_def credit_def)
  have "ledger_step now a 0 s (snd (stop_stream s k caller now))"
    using ledger_step_trans [OF ledger_step_trans [OF settle_stream_step [OF assms(1), of now a 0]
        ledger_step_credit [OF known(2), of now a 0]] ledger_step_put_stream [of now a 0]]
    unfolding eq by simp
  then show ?thesis by (rule ledger_step_any)
next
  case False
  then obtain e t where "stop_stream s k caller now = (Inl e, t)"
    using stop_stream_rejected by blast
  with stop_stream_fail_closed show ?thesis by fastforce
qed

section \<open>Accepted operations\<close>

text \<open>
  The contract of each accepted operation as its callers need it: the step it is, the nonce it
  leaves, and that the sender's own outgoing streams are untouched.
\<close>

lemma transfer_accepted:
  assumes ok: "ledger_ok s" "now \<le> U64_MAX" "wealth now s \<le> U128_MAX"
    and covered: "nonce = acc_nonce (get_or_new s frm)" "val \<le> bal s frm now"
  obtains s' where "apply_transfer s frm to val nonce now = (Inr (), s')"
    "ledger_ok s'" "wealth now s' = wealth now s"
    "ledger_step now frm (if frm = to then 0 else val) s s'"
    "acc_nonce (get_or_new s' frm) = incr64 nonce" "ms_next_id s' = ms_next_id s"
    "\<And>k st. get_stream s k = Some st \<Longrightarrow> st_to st \<noteq> frm \<Longrightarrow> get_stream s' k = Some st"
proof -
  let ?s1 = "settle_incoming s frm now" and ?s' = "snd (apply_transfer s frm to val nonce now)"
  note f = settle_incoming_facts [OF ok, of frm]
  note addr = ledger_ok_account(1) [OF f(1)]
  have "nonce = acc_nonce (get_or_new ?s1 frm)" "\<not> bal ?s1 frm now < val"
    using covered settle_incoming_nonce [OF ok, of frm frm] f(3) [of frm] by simp_all
  then have eq: "apply_transfer s frm to val nonce now = (Inr (), ?s')"
    and nonce: "acc_nonce (get_or_new ?s' frm) = incr64 nonce"
    and frame: "ms_next_id ?s' = ms_next_id s" "get_stream ?s' = get_stream ?s1"
    using addr by (cases "frm = to"; auto simp: transfer_cases)+
  have "get_stream ?s' k = Some st" if "get_stream s k = Some st" "st_to st \<noteq> frm" for k st
    using that f(4) [of k] incoming_iff [OF ledger_ok_index [OF ok(1)], of k frm] by (simp add: frame)
  with that [OF eq transfer_sound [OF ok] transfer_step [OF ok] nonce frame(1)] show thesis by blast
qed

lemma transfer_credits:
  assumes ok: "ledger_ok s" "now \<le> U64_MAX" "wealth now s \<le> U128_MAX" and neq: "frm \<noteq> to"
    and acc: "apply_transfer s frm to val nonce now = (Inr (), s')"
  shows "settled s to + val \<le> settled s' to" "settled s to + val \<le> U128_MAX"
proof -
  let ?s1 = "settle_incoming s frm now"
  note f = settle_incoming_facts [OF ok, of frm]
  note addr = ledger_ok_account(1) [OF f(1)]
  have cover: "val \<le> bal ?s1 frm now"
    and s': "s' = put (put ?s1 (debit (get_or_new ?s1 frm) now val\<lparr>acc_nonce := incr64 (acc_nonce (get_or_new ?s1 frm))\<rparr>))
        (credit (get_or_new ?s1 to) now val)"
    using acc neq by (simp_all add: transfer_cases split: if_splits)
  have "bal ?s1 to now + val \<le> U128_MAX"
    using bal_two_le_wealth [OF neq, of ?s1 now] cover f(2) ok(3) by linarith
  moreover have "settled s' to = sat_add128 (bal ?s1 to now) val"
    using addr [of to] by (simp add: s' settled_def)
  moreover have "settled s to \<le> bal ?s1 to now"
    using settled_le_bal [OF ok(1), of to now] f(3) [of to] by linarith
  ultimately show "settled s to + val \<le> settled s' to" "settled s to + val \<le> U128_MAX"
    by simp_all
qed

lemma open_accepted:
  assumes ok: "ledger_ok s" "now \<le> U64_MAX" "ms_next_id s < U64_MAX"
    and args: "frm \<noteq> to" "0 < rate" "rate \<le> MAX_RATE" "0 < deposit" "deposit \<le> bal s frm now"
  obtains s' where "open_stream s frm to rate deposit now = (Inr (ms_next_id s), s')"
    "ledger_ok s'" "wealth now s' = wealth now s" "ledger_step now frm deposit s s'"
    "acc_nonce (get_or_new s' frm) = acc_nonce (get_or_new s frm)" "ms_next_id s' = Suc (ms_next_id s)"
    "\<And>k st. get_stream s k = Some st \<Longrightarrow> get_stream s' k = Some st"
proof -
  let ?s' = "snd (open_stream s frm to rate deposit now)"
  let ?s = "s\<lparr>ms_next_id := incr64 (ms_next_id s)\<rparr>"
  have "\<not> (frm = to \<or> rate = 0 \<or> deposit = 0 \<or> rate > MAX_RATE \<or> bal s frm now < deposit)"
    using args by auto
  note eq = open_stream_cases(2) [OF this]
  have same: "get_or_new ?s = get_or_new s" "get_stream ?s = get_stream s"
    by (simp_all add: fun_eq_iff get_or_new_def get_def get_stream_def)
  have "acc_nonce (get_or_new ?s' frm) = acc_nonce (get_or_new s frm)" "ms_next_id ?s' = Suc (ms_next_id s)"
    using ok(3) ledger_ok_account(1) [OF ok(1), of frm] by (simp_all add: eq same incr64_exact)
  moreover have "get_stream ?s' k = Some st" if "get_stream s k = Some st" for k st
    using that ledger_ok_stream(3) [OF ok(1) that] by (simp add: eq same)
  moreover have "open_stream s frm to rate deposit now = (Inr (ms_next_id s), ?s')"
    by (simp add: eq)
  ultimately show thesis
    using that open_stream_sound [OF ok] open_stream_step [OF ok(1,3)] by blast
qed

lemma stop_accepted:
  assumes ok: "ledger_ok s" "now \<le> U64_MAX" "wealth now s \<le> U128_MAX"
    and st: "get_stream s k = Some st" "st_from st = caller" "st_status st = Active"
  defines "refund \<equiv> st_deposit st - (st_drawn st + owed st now)"
  obtains s' where "stop_stream s k caller now = (Inr refund, s')"
    "ledger_ok s'" "wealth now s' = wealth now s" "ledger_step now caller 0 s s'"
    "acc_nonce (get_or_new s' caller) = acc_nonce (get_or_new s caller)" "ms_next_id s' = ms_next_id s"
    "settled s caller + refund \<le> settled s' caller" "settled s caller + refund \<le> U128_MAX"
    "\<And>j. j \<noteq> k \<Longrightarrow> get_stream s' j = get_stream s j"
proof -
  let ?s1 = "snd (settle_stream s k now)" and ?s' = "snd (stop_stream s k caller now)"
  note known = settle_stream_known [OF ok(1) st(1) ok(2,3)]
  note sok = ledger_ok_stream [OF ok(1) st(1)]
  note addr = ledger_ok_account(1) [OF known(2)]
  have s': "?s' = put_stream (put ?s1 (credit (get_or_new ?s1 caller) now refund))
      (drawn_stream st now\<lparr>st_status := Stopped now\<rparr>)"
    using st known(5) [of k] by (simp add: stop_stream_def Let_def credit_def refund_def)
  have eq: "stop_stream s k caller now = (Inr refund, ?s')"
    by (rule stop_stream_accepted [OF ok st]) (simp add: refund_def)
  have neq: "caller \<noteq> st_to st" using sok(2) st(2) by (auto simp: stream_ok_def)
  have "refund \<le> locked st" using st(3) by (simp add: refund_def locked_def)
  then have fits: "bal s caller now + refund \<le> U128_MAX"
    using bal_lock_le_wealth [of s caller now k] st(1) ok(3) by simp
  then have "settled ?s' caller = bal s caller now + refund"
    using known(4) [of caller] neq addr [of caller] by (simp add: s' settled_def)
  then have "settled s caller + refund \<le> settled ?s' caller" "settled s caller + refund \<le> U128_MAX"
    using settled_le_bal [OF ok(1), of caller now] fits by linarith+
  moreover have "acc_nonce (get_or_new ?s' caller) = acc_nonce (get_or_new s caller)"
    "ms_next_id ?s' = ms_next_id s"
    using settle_stream_nonce [OF ok(1)] addr [of caller] by (simp_all add: s')
  moreover have "get_stream ?s' j = get_stream s j" if "j \<noteq> k" for j
    using that known(5) [of j] sok(1) by (simp add: s')
  ultimately show thesis
    using that [OF eq stop_stream_sound [OF ok] stop_stream_step [OF ok]] by blast
qed

section \<open>Steps keep the registries' invariants\<close>

lemma ledger_step_chain_ok:
  assumes "chain_ok s" "ledger_step now a v s s'" "ledger_ok s'"
  shows "chain_ok s'" "emitting_at s' = emitting_at s"
proof -
  note reg = same_registries_lookups [OF ledger_step_registries [OF assms(2)]]
  have "acct_store.keys_agree s'"
    using assms(3) by (auto simp: ledger_ok_def acct_store.keys_agree_def)
  then have "poh_ok s'"
    using assms(1) reg by (simp add: chain_ok_def poh_ok_def human_store.keys_agree_def juror_store.keys_agree_def)
  moreover have "gate_ok s'"
    using assms(1,2) reg by (simp add: chain_ok_def gate_ok_def ledger_step_def)
  ultimately show "chain_ok s'" using assms(3) by (simp add: chain_ok_def)
  show "emitting_at s' = emitting_at s" by (rule reg)
qed

end
