(* ===== verification/Contracts.thy ===== *)
theory Contracts
  imports Ledger_Frame
begin

unbundle bit_operations_syntax

text \<open>
  The prompt-contract engine (\<^verbatim>\<open>crates/runtime/src/contracts.rs\<close>): deployment, funding, invocation,
  deferred submission of effects, the resolution of a case and the two-phase application of a
  committed effect. The interpreter is a parameter. An operation whose code can reach an
  \<^verbatim>\<open>expect\<close> or \<^verbatim>\<open>unreachable!\<close> is an option whose \<open>None\<close> is that panic. The lemmas show that an effect is
  applied whole or not at all, that it conserves value, that it takes nothing from any account but
  the escrow of its own contract and no more than that escrow holds, and which validated effects
  cannot panic.
\<close>

section \<open>Errors\<close>

datatype ContractError =
    NoParties
  | TextTooLarge usize usize      \<comment> \<open>len, max\<close>
  | TooManyParties usize usize    \<comment> \<open>count, max\<close>
  | NoSuchContract contract_id
  | ContractTerminated contract_id
  | NoInterpreters
  | NoSuchExecCase exec_case_id
  | NotOnInterpreterJury
  | ExecCaseClosed
  | AlreadySubmitted
  | TransferFailed TransferError

datatype EffectError =
    Insolvent u128 u128           \<comment> \<open>need, escrow\<close>
  | RefundToNonParty address
  | StreamOp StreamError
  | NotOwnedStream stream_id
  | AbortOp

section \<open>Deploying and funding\<close>

definition deploy_contract ::
    "mem_state \<Rightarrow> byte list \<Rightarrow> hash \<Rightarrow> address list \<Rightarrow> (ContractError + contract_id) \<times> mem_state" where
  "deploy_contract s text text_ref parties =
     (if parties = [] then (Inl NoParties, s)
      else if length text > MAX_CONTRACT_TEXT_BYTES
        then (Inl (TextTooLarge (length text) MAX_CONTRACT_TEXT_BYTES), s)
      else if length parties > MAX_CONTRACT_PARTIES
        then (Inl (TooManyParties (length parties) MAX_CONTRACT_PARTIES), s)
      else
        let (cid, s) = next_contract_id s
        in (Inr cid, put_contract s (prompt_contract_new cid text text_ref parties)))"

definition fund_contract ::
    "mem_state \<Rightarrow> address \<Rightarrow> contract_id \<Rightarrow> u128 \<Rightarrow> u64 \<Rightarrow> u64 \<Rightarrow> (ContractError + unit) \<times> mem_state" where
  "fund_contract s funder cid amount nonce now =
     (case get_contract s cid of
        None \<Rightarrow> (Inl (NoSuchContract cid), s)
      | Some c \<Rightarrow>
          if pc_status c = Terminated then (Inl (ContractTerminated cid), s)
          else
            case apply_transfer s funder (contract_address cid) amount nonce now of
              (Inl e, s) \<Rightarrow> (Inl (TransferFailed e), s)
            | (Inr _, s) \<Rightarrow>
                (Inr (), put_contract s (c\<lparr>pc_escrow := sat_add128 (pc_escrow c) amount\<rparr>)))"

definition interpreter_seed :: "exec_case_id \<Rightarrow> u64 \<Rightarrow> 64 word" where
  "interpreter_seed case_id entropy =
     (let z = (of_nat case_id * 0x9E3779B97F4A7C15) XOR of_nat entropy;
          z = (z XOR drop_bit 30 z) * 0xBF58476D1CE4E5B9;
          z = (z XOR drop_bit 27 z) * 0x94D049BB133111EB
      in z XOR drop_bit 31 z)"

definition state_view :: "mem_state \<Rightarrow> prompt_contract \<Rightarrow> u64 \<Rightarrow> contract_state_view" where
  "state_view s c now =
     \<lparr>cv_contract_id = pc_id c, cv_escrow = pc_escrow c, cv_parties = pc_parties c,
      cv_vars = sorted_vars c, cv_streams = sort (outgoing s (contract_address (pc_id c))),
      cv_now = now\<rparr>"

section \<open>Applying an effect\<close>

text \<open>Phase 1: the whole effect is validated, and its draws on the escrow are added up.\<close>

fun validate_ops :: "prompt_contract \<Rightarrow> stream_id list \<Rightarrow> u128 \<Rightarrow> Op list \<Rightarrow> EffectError + u128" where
  "validate_ops c owned draw [] = Inr draw"
| "validate_ops c owned draw (Transfer to amount # ops) =
     validate_ops c owned (sat_add128 draw amount) ops"
| "validate_ops c owned draw (Refund party amount # ops) =
     (if \<not> is_party c party then Inl (RefundToNonParty party)
      else validate_ops c owned (sat_add128 draw amount) ops)"
| "validate_ops c owned draw (OpenStream to rate deposit # ops) =
     (if rate = 0 then Inl (StreamOp ZeroRate)
      else if deposit = 0 then Inl (StreamOp ZeroDeposit)
      else if rate > MAX_RATE then Inl (StreamOp (RateTooHigh rate MAX_RATE))
      else validate_ops c owned (sat_add128 draw deposit) ops)"
| "validate_ops c owned draw (StopStream sid # ops) =
     (if sid \<notin> set owned then Inl (NotOwnedStream sid) else validate_ops c owned draw ops)"
| "validate_ops c owned draw (SetVar k v # ops) = validate_ops c owned draw ops"
| "validate_ops c owned draw (Abort reason_hash # ops) = Inl AbortOp"

text \<open>
  Phase 2: one operation, on the contract record being built, the escrow's nonce and the state.
  \<open>None\<close> is a failed \<^verbatim>\<open>expect\<close> or the \<^verbatim>\<open>unreachable!\<close> of an abort.
\<close>

type_synonym effect_run = "prompt_contract \<times> u64 \<times> mem_state"

fun apply_op :: "address \<Rightarrow> u64 \<Rightarrow> Op \<Rightarrow> effect_run \<Rightarrow> effect_run option" where
  "apply_op escrow_addr now (Transfer to amount) (c, nonce, s) =
     (case apply_transfer s escrow_addr to amount nonce now of
        (Inl _, _) \<Rightarrow> None
      | (Inr _, s) \<Rightarrow> Some (c\<lparr>pc_escrow := sat_sub (pc_escrow c) amount\<rparr>, incr64 nonce, s))"
| "apply_op escrow_addr now (Refund party amount) (c, nonce, s) =
     (case apply_transfer s escrow_addr party amount nonce now of
        (Inl _, _) \<Rightarrow> None
      | (Inr _, s) \<Rightarrow> Some (c\<lparr>pc_escrow := sat_sub (pc_escrow c) amount\<rparr>, incr64 nonce, s))"
| "apply_op escrow_addr now (OpenStream to rate deposit) (c, nonce, s) =
     (case open_stream s escrow_addr to rate deposit now of
        (Inl _, _) \<Rightarrow> None
      | (Inr _, s) \<Rightarrow> Some (c\<lparr>pc_escrow := sat_sub (pc_escrow c) deposit\<rparr>, nonce, s))"
| "apply_op escrow_addr now (StopStream sid) (c, nonce, s) =
     (case stop_stream s sid escrow_addr now of
        (Inl _, _) \<Rightarrow> None
      | (Inr refund, s) \<Rightarrow> Some (c\<lparr>pc_escrow := sat_add128 (pc_escrow c) refund\<rparr>, nonce, s))"
| "apply_op escrow_addr now (SetVar k v) (c, nonce, s) =
     Some (c\<lparr>pc_vars := fmupd k v (pc_vars c)\<rparr>, nonce, s)"
| "apply_op escrow_addr now (Abort reason_hash) (c, nonce, s) = None"

primrec apply_effect_ops :: "address \<Rightarrow> u64 \<Rightarrow> Op list \<Rightarrow> effect_run \<Rightarrow> effect_run option" where
  "apply_effect_ops escrow_addr now [] run = Some run"
| "apply_effect_ops escrow_addr now (op # ops) run =
     Option.bind (apply_op escrow_addr now op run) (apply_effect_ops escrow_addr now ops)"

definition apply_effect ::
    "mem_state \<Rightarrow> contract_id \<Rightarrow> canonical_effect \<Rightarrow> u64 \<Rightarrow> ((EffectError + unit) \<times> mem_state) option" where
  "apply_effect s cid effect now =
     (case get_contract s cid of
        None \<Rightarrow> Some (Inl (Insolvent 0 0), s)
      | Some c \<Rightarrow>
          let escrow_addr = contract_address cid;
              owned_streams = outgoing s escrow_addr
          in case validate_ops c owned_streams 0 (ef_ops effect) of
               Inl e \<Rightarrow> Some (Inl e, s)
             | Inr draw \<Rightarrow>
                 if draw > pc_escrow c then Some (Inl (Insolvent draw (pc_escrow c)), s)
                 else
                   let escrow_acct = settle (get_or_new s escrow_addr) now
                   in map_option (\<lambda>(c, _, s). (Inr (), put_contract s c))
                        (apply_effect_ops escrow_addr now (ef_ops effect)
                          (c, acc_nonce escrow_acct, put s escrow_acct)))"

section \<open>Cases\<close>

definition resolve_case :: "mem_state \<Rightarrow> exec_case \<Rightarrow> u64 \<Rightarrow> u64 \<Rightarrow> (exec_case \<times> mem_state) option" where
  "resolve_case s c block now =
     (case tally_effects (ec_effects c) (length (ec_jury c)) QUORUM of
        None \<Rightarrow> None
      | Some ETPending \<Rightarrow> Some (c\<lparr>ec_status := ExecOpen\<rparr>, s)
      | Some ETNoQuorum \<Rightarrow> Some (c\<lparr>ec_status := Aborted, ec_resolved_at := Some block\<rparr>, s)
      | Some (ETCommitted effect) \<Rightarrow>
          if is_abort effect
          then Some (c\<lparr>ec_status := Aborted, ec_resolved_at := Some block\<rparr>, s)
          else
            case apply_effect s (ec_contract c) effect now of
              None \<Rightarrow> None
            | Some (Inr _, s) \<Rightarrow>
                Some (c\<lparr>ec_status := ExecCommitted effect, ec_resolved_at := Some block\<rparr>, s)
            | Some (Inl _, s) \<Rightarrow>
                Some (c\<lparr>ec_status := Aborted, ec_resolved_at := Some block\<rparr>, s))"

definition invoke_contract ::
    "mem_state \<Rightarrow> interpreter \<Rightarrow> contract_id \<Rightarrow> hash \<Rightarrow> byte list \<Rightarrow> address \<Rightarrow> u64 \<Rightarrow> u64 \<Rightarrow> u64
      \<Rightarrow> ((ContractError + exec_case_id) \<times> mem_state) option" where
  "invoke_contract s interp cid trigger_ref trigger invoker entropy block now =
     (case get_contract s cid of
        None \<Rightarrow> Some (Inl (NoSuchContract cid), s)
      | Some c \<Rightarrow>
          if pc_status c = Terminated then Some (Inl (ContractTerminated cid), s)
          else
            let candidates = active_jurors s in
            if candidates = [] then Some (Inl NoInterpreters, s)
            else
              let (case_id, s) = next_exec_case_id s;
                  jury = select_jury candidates JURY_SIZE (interpreter_seed case_id entropy);
                  view = state_view s c now;
                  effects = map (\<lambda>a. (a, interp (pc_text c) view trigger)) jury;
                  ec = \<lparr>ec_id = case_id, ec_contract = cid, ec_trigger_ref = trigger_ref,
                        ec_invoker = invoker, ec_jury = jury, ec_effects = effects,
                        ec_status = ExecOpen, ec_opened_at = block, ec_resolved_at = None\<rparr>
              in map_option (\<lambda>(ec, s). (Inr case_id, put_exec_case s ec)) (resolve_case s ec block now))"

definition submit_effect ::
    "mem_state \<Rightarrow> exec_case_id \<Rightarrow> address \<Rightarrow> canonical_effect \<Rightarrow> u64 \<Rightarrow> u64
      \<Rightarrow> ((ContractError + ExecStatus) \<times> mem_state) option" where
  "submit_effect s case_id interp effect block now =
     (case get_exec_case s case_id of
        None \<Rightarrow> Some (Inl (NoSuchExecCase case_id), s)
      | Some c \<Rightarrow>
          if ec_status c \<noteq> ExecOpen then Some (Inl ExecCaseClosed, s)
          else if interp \<notin> set (ec_jury c) then Some (Inl NotOnInterpreterJury, s)
          else if effect_of c interp \<noteq> None then Some (Inl AlreadySubmitted, s)
          else
            map_option (\<lambda>(c, s). (Inr (ec_status c), put_exec_case s c))
              (resolve_case s (c\<lparr>ec_effects := ec_effects c @ [(interp, effect)]\<rparr>) block now))"

section \<open>Frames\<close>

lemma contract_frame:
  "get (put_contract s c) = get s" "get_stream (put_contract s c) = get_stream s"
  "wealth now (put_contract s c) = wealth now s" "chain_ok (put_contract s c) = chain_ok s"
  "emitting_at (put_contract s c) = emitting_at s" "ledger_ok (put_contract s c) = ledger_ok s"
  "get_or_new (put_contract s c) = get_or_new s" "settled (put_contract s c) = settled s"
  by (simp_all add: fun_eq_iff put_contract_def get_def get_stream_def wealth_def chain_ok_def ledger_ok_def
      poh_ok_def gate_ok_def cache_at_def emitting_at_def get_or_new_def index_ok_def get_human_def
      acct_store.keys_agree_def human_store.keys_agree_def juror_store.keys_agree_def get_case_def
      get_juror_def settled_def)

lemma exec_case_frame:
  "get (put_exec_case s c) = get s" "get_stream (put_exec_case s c) = get_stream s"
  "wealth now (put_exec_case s c) = wealth now s" "chain_ok (put_exec_case s c) = chain_ok s"
  "emitting_at (put_exec_case s c) = emitting_at s" "ledger_ok (put_exec_case s c) = ledger_ok s"
  "get_or_new (put_exec_case s c) = get_or_new s" "settled (put_exec_case s c) = settled s"
  "get_contract (put_exec_case s c) = get_contract s"
  "ms_next_contract_id (put_exec_case s c) = ms_next_contract_id s"
  by (simp_all add: fun_eq_iff put_exec_case_def get_def get_stream_def wealth_def chain_ok_def ledger_ok_def
      poh_ok_def gate_ok_def cache_at_def emitting_at_def get_or_new_def index_ok_def get_human_def
      acct_store.keys_agree_def human_store.keys_agree_def juror_store.keys_agree_def get_case_def
      get_juror_def settled_def get_contract_def)

section \<open>What an effect draws and releases\<close>

primrec op_draw :: "Op \<Rightarrow> nat" where
  "op_draw (Transfer to amount) = amount"
| "op_draw (Refund party amount) = amount"
| "op_draw (OpenStream to rate deposit) = deposit"
| "op_draw (StopStream sid) = 0"
| "op_draw (SetVar k v) = 0"
| "op_draw (Abort reason_hash) = 0"

definition draws :: "Op list \<Rightarrow> nat" where
  "draws ops = (\<Sum>op\<leftarrow>ops. op_draw op)"

definition stream_rest :: "mem_state \<Rightarrow> u64 \<Rightarrow> stream_id \<Rightarrow> nat" where
  "stream_rest s now sid =
     opt_val (\<lambda>st. st_deposit st - (st_drawn st + owed st now)) (get_stream s sid)"

fun stops :: "Op list \<Rightarrow> stream_id list" where
  "stops [] = []"
| "stops (StopStream sid # ops) = sid # stops ops"
| "stops (_ # ops) = stops ops"

definition releases :: "mem_state \<Rightarrow> u64 \<Rightarrow> Op list \<Rightarrow> nat" where
  "releases s now ops = (\<Sum>sid\<leftarrow>stops ops. stream_rest s now sid)"

lemma draws_simps [simp]: "draws [] = 0" "draws (op # ops) = op_draw op + draws ops"
  by (simp_all add: draws_def)

lemma validate_ops_draw:
  assumes "validate_ops c owned d ops = Inr n"
  shows "n = min (d + draws ops) U128_MAX \<or> (n = d \<and> draws ops = 0)"
  using assms
  by (induction c owned d ops arbitrary: n rule: validate_ops.induct)
    (auto simp: sat_add128_def split: if_splits)

text \<open>The syntactic half of validation, op by op.\<close>

fun op_valid :: "prompt_contract \<Rightarrow> stream_id list \<Rightarrow> Op \<Rightarrow> bool" where
  "op_valid c owned (Refund party amount) = is_party c party"
| "op_valid c owned (OpenStream to rate deposit) = (0 < rate \<and> 0 < deposit \<and> rate \<le> MAX_RATE)"
| "op_valid c owned (StopStream sid) = (sid \<in> set owned)"
| "op_valid c owned (Abort reason_hash) = False"
| "op_valid c owned _ = True"

lemma validate_ops_ok:
  "(\<exists>n. validate_ops c owned d ops = Inr n) \<longleftrightarrow> list_all (op_valid c owned) ops"
  by (induction c owned d ops rule: validate_ops.induct) auto

text \<open>
  The conditions under which the second phase cannot panic beyond what the first phase checks:
  every stopped stream is active and stopped once, no stream is opened to the escrow itself, and
  stream ids are left.
\<close>

definition runnable :: "mem_state \<Rightarrow> address \<Rightarrow> Op list \<Rightarrow> bool" where
  "runnable s escrow ops \<longleftrightarrow>
     distinct (stops ops)
     \<and> (\<forall>sid \<in> set (stops ops). \<exists>st. get_stream s sid = Some st \<and> st_from st = escrow \<and> st_status st = Active)
     \<and> (\<forall>rate deposit. OpenStream escrow rate deposit \<notin> set ops)
     \<and> ms_next_id s + length ops \<le> U64_MAX"

section \<open>The second phase\<close>

text \<open>The invariant of the run: the record's escrow is covered by the escrow account.\<close>

definition run_ok :: "address \<Rightarrow> u64 \<Rightarrow> effect_run \<Rightarrow> bool" where
  "run_ok escrow now r =
     (case r of (c, nonce, s) \<Rightarrow>
        ledger_ok s \<and> wealth now s \<le> U128_MAX \<and> nonce = acc_nonce (get_or_new s escrow)
        \<and> pc_escrow c \<le> settled s escrow)"

lemma runnable_next:
  assumes "runnable s escrow (op # ops)" "ms_next_id s' \<le> Suc (ms_next_id s)"
    "\<And>k st. get_stream s k = Some st \<Longrightarrow> st_from st = escrow \<Longrightarrow> k \<notin> set (stops [op]) \<Longrightarrow> get_stream s' k = Some st"
  shows "runnable s' escrow ops" "releases s' now ops = releases s now ops"
proof -
  have split: "stops (op # ops) = stops [op] @ stops ops" by (cases op) simp_all
  have keep: "get_stream s' k = get_stream s k" if k: "k \<in> set (stops ops)" for k
  proof -
    from assms(1) k obtain st where "get_stream s k = Some st" "st_from st = escrow" "k \<notin> set (stops [op])"
      unfolding runnable_def split by fastforce
    with assms(3) show ?thesis by simp
  qed
  show "runnable s' escrow ops"
    using assms(1,2) keep by (auto simp: runnable_def split)
  show "releases s' now ops = releases s now ops"
    unfolding releases_def by (intro arg_cong [of _ _ sum_list] map_cong) (simp_all add: stream_rest_def keep)
qed

lemma run_ok_step:
  assumes run: "run_ok escrow now (c, nonce, s)" and now: "now \<le> U64_MAX"
    and valid: "op_valid c owned op" and runnable: "runnable s escrow (op # ops)"
    and draw: "op_draw op \<le> pc_escrow c"
  obtains c' nonce' s' where "apply_op escrow now op (c, nonce, s) = Some (c', nonce', s')"
    "run_ok escrow now (c', nonce', s')" "wealth now s' = wealth now s"
    "ledger_step now escrow (op_draw op) s s'"
    "pc_escrow c' + op_draw op = pc_escrow c + (\<Sum>sid\<leftarrow>stops [op]. stream_rest s now sid)"
    "pc_parties c' = pc_parties c" "pc_id c' = pc_id c" "pc_status c' = pc_status c" "pc_text c' = pc_text c"
    "ms_next_id s' \<le> Suc (ms_next_id s)"
    "runnable s' escrow ops" "releases s' now ops = releases s now ops"
proof -
  note result = that
  have ok: "ledger_ok s" "wealth now s \<le> U128_MAX" "nonce = acc_nonce (get_or_new s escrow)"
    "pc_escrow c \<le> settled s escrow"
    using run by (simp_all add: run_ok_def)
  have cover: "op_draw op \<le> bal s escrow now"
    using draw ok(4) settled_le_bal [OF ok(1), of escrow now] by linarith
  have own: "st_to st \<noteq> escrow" if "get_stream s k = Some st" "st_from st = escrow" for k st
    using ledger_ok_stream(2) [OF ok(1) that(1)] that(2) by (auto simp: stream_ok_def)
  have ids: "ms_next_id s < U64_MAX" using runnable by (simp add: runnable_def)
  have move: thesis if op: "op = Transfer to v \<or> op = Refund to v" for to v
  proof -
    have v: "op_draw op = v" "stops [op] = []" using op by auto
    obtain s' where s': "apply_transfer s escrow to v nonce now = (Inr (), s')"
      "ledger_ok s'" "wealth now s' = wealth now s"
      "ledger_step now escrow (if escrow = to then 0 else v) s s'"
      "acc_nonce (get_or_new s' escrow) = incr64 nonce" "ms_next_id s' = ms_next_id s"
      "\<And>k st. get_stream s k = Some st \<Longrightarrow> st_to st \<noteq> escrow \<Longrightarrow> get_stream s' k = Some st"
      using transfer_accepted [OF ok(1) now ok(2,3), of v to] cover v by auto
    have step: "ledger_step now escrow v s s'"
      using s'(4) ledger_step_any [of now escrow s s' escrow v] by (cases "escrow = to") simp_all
    have backed: "pc_escrow c - v \<le> settled s' escrow"
      by (rule ledger_step_covers [OF step ok(4)])
    have next_run: "runnable s' escrow ops" "releases s' now ops = releases s now ops"
      using runnable_next [OF runnable, of s'] s'(6,7) own by auto
    have "apply_op escrow now op (c, nonce, s) = Some (c\<lparr>pc_escrow := pc_escrow c - v\<rparr>, incr64 nonce, s')"
      using op s'(1) by auto
    then show thesis
      by (rule result) (use s' step backed next_run ok(2) v draw in \<open>simp_all add: run_ok_def\<close>)
  qed
  show thesis
  proof (cases op)
    case (Transfer to v)
    then show thesis using move by blast
  next
    case (Refund to v)
    then show thesis using move by blast
  next
    case (OpenStream to rate deposit)
    then have args: "escrow \<noteq> to" "0 < rate" "rate \<le> MAX_RATE" "0 < deposit"
      using valid runnable by (auto simp: runnable_def)
    obtain s' where s': "open_stream s escrow to rate deposit now = (Inr (ms_next_id s), s')"
      "ledger_ok s'" "wealth now s' = wealth now s" "ledger_step now escrow deposit s s'"
      "acc_nonce (get_or_new s' escrow) = acc_nonce (get_or_new s escrow)" "ms_next_id s' = Suc (ms_next_id s)"
      "\<And>k st. get_stream s k = Some st \<Longrightarrow> get_stream s' k = Some st"
      using open_accepted [OF ok(1) now ids args] cover OpenStream by auto
    have backed: "pc_escrow c - deposit \<le> settled s' escrow"
      by (rule ledger_step_covers [OF s'(4) ok(4)])
    have next_run: "runnable s' escrow ops" "releases s' now ops = releases s now ops"
      using runnable_next [OF runnable, of s'] s'(6,7) by auto
    have "apply_op escrow now op (c, nonce, s) = Some (c\<lparr>pc_escrow := pc_escrow c - deposit\<rparr>, nonce, s')"
      using OpenStream s'(1) by simp
    then show thesis
      by (rule result) (use s' backed next_run ok(2,3) OpenStream draw in \<open>simp_all add: run_ok_def\<close>)
  next
    case (StopStream sid)
    then obtain st where st: "get_stream s sid = Some st" "st_from st = escrow" "st_status st = Active"
      using runnable by (auto simp: runnable_def)
    let ?r = "st_deposit st - (st_drawn st + owed st now)"
    obtain s' where s': "stop_stream s sid escrow now = (Inr ?r, s')"
      "ledger_ok s'" "wealth now s' = wealth now s" "ledger_step now escrow 0 s s'"
      "acc_nonce (get_or_new s' escrow) = acc_nonce (get_or_new s escrow)" "ms_next_id s' = ms_next_id s"
      "settled s escrow + ?r \<le> settled s' escrow" "settled s escrow + ?r \<le> U128_MAX"
      "\<And>j. j \<noteq> sid \<Longrightarrow> get_stream s' j = get_stream s j"
      using stop_accepted [OF ok(1) now ok(2) st] by blast
    have exact: "sat_add128 (pc_escrow c) ?r = pc_escrow c + ?r" "pc_escrow c + ?r \<le> settled s' escrow"
      using ok(4) s'(7,8) by simp_all
    have next_run: "runnable s' escrow ops" "releases s' now ops = releases s now ops"
      using runnable_next [OF runnable, of s'] s'(6,9) StopStream by auto
    have "apply_op escrow now op (c, nonce, s) = Some (c\<lparr>pc_escrow := pc_escrow c + ?r\<rparr>, nonce, s')"
      using StopStream s'(1) exact(1) by simp
    then show thesis
      by (rule result) (use s' exact next_run ok(2,3) StopStream st in \<open>simp_all add: run_ok_def stream_rest_def\<close>)
  next
    case (SetVar k v)
    then have "apply_op escrow now op (c, nonce, s) = Some (c\<lparr>pc_vars := fmupd k v (pc_vars c)\<rparr>, nonce, s)"
      by simp
    then show thesis
      by (rule result) (use run SetVar runnable_next [OF runnable, of s] in \<open>simp_all add: run_ok_def\<close>)
  next
    case (Abort r)
    with valid show thesis by simp
  qed
qed

lemma is_party_cong: "pc_parties c' = pc_parties c \<Longrightarrow> is_party c' = is_party c"
  by (simp add: is_party_def fun_eq_iff)

lemma op_valid_cong:
  assumes "pc_parties c' = pc_parties c"
  shows "op_valid c' owned op = op_valid c owned op"
  by (cases op) (simp_all add: is_party_cong [OF assms])

lemma releases_Cons:
  "releases s now (op # ops) = (\<Sum>sid\<leftarrow>stops [op]. stream_rest s now sid) + releases s now ops"
  by (cases op) (simp_all add: releases_def)

lemma apply_effect_ops_ok:
  assumes "run_ok escrow now (c, nonce, s)" "now \<le> U64_MAX" "list_all (op_valid c owned) ops"
    "runnable s escrow ops" "draws ops \<le> pc_escrow c"
  shows "\<exists>c' nonce' s'. apply_effect_ops escrow now ops (c, nonce, s) = Some (c', nonce', s')
    \<and> run_ok escrow now (c', nonce', s') \<and> wealth now s' = wealth now s
    \<and> ledger_step now escrow (draws ops) s s'
    \<and> pc_escrow c' + draws ops = pc_escrow c + releases s now ops
    \<and> pc_parties c' = pc_parties c \<and> pc_id c' = pc_id c"
  using assms
proof (induction ops arbitrary: c nonce s)
  case Nil
  then show ?case by (simp add: releases_def)
next
  case (Cons op ops)
  have "op_draw op \<le> pc_escrow c" "op_valid c owned op" using Cons.prems(3,5) by simp_all
  then obtain c1 nonce1 s1 where one: "apply_op escrow now op (c, nonce, s) = Some (c1, nonce1, s1)"
    "run_ok escrow now (c1, nonce1, s1)" "wealth now s1 = wealth now s"
    "ledger_step now escrow (op_draw op) s s1"
    "pc_escrow c1 + op_draw op = pc_escrow c + (\<Sum>sid\<leftarrow>stops [op]. stream_rest s now sid)"
    "pc_parties c1 = pc_parties c" "pc_id c1 = pc_id c"
    "runnable s1 escrow ops" "releases s1 now ops = releases s now ops"
    using run_ok_step [OF Cons.prems(1,2) _ Cons.prems(4)] by metis
  have "list_all (op_valid c1 owned) ops"
    using Cons.prems(3) op_valid_cong [OF one(6)] by (simp add: list_all_iff)
  moreover have "draws ops \<le> pc_escrow c1" using one(5) Cons.prems(5) by simp
  ultimately obtain c' nonce' s' where rest: "apply_effect_ops escrow now ops (c1, nonce1, s1) = Some (c', nonce', s')"
    "run_ok escrow now (c', nonce', s')" "wealth now s' = wealth now s1"
    "ledger_step now escrow (draws ops) s1 s'"
    "pc_escrow c' + draws ops = pc_escrow c1 + releases s1 now ops"
    "pc_parties c' = pc_parties c1" "pc_id c' = pc_id c1"
    using Cons.IH [OF one(2) Cons.prems(2) _ one(8)] by blast
  have "pc_escrow c' + draws (op # ops) = pc_escrow c + releases s now (op # ops)"
    using one(5,9) rest(5) by (simp add: releases_Cons)
  then show ?case
    using one rest ledger_step_trans [OF one(4) rest(4)] by simp
qed

text \<open>An operation that returned met the conditions, so a run that returned kept the invariant.\<close>

lemma apply_op_runnable:
  assumes "apply_op escrow now op (c, nonce, s) = Some r" "ms_next_id s < U64_MAX"
  shows "runnable s escrow [op]"
proof (cases op)
  case (OpenStream to rate deposit)
  then show ?thesis
    using assms by (auto simp: runnable_def open_stream_def split: if_splits)
next
  case (StopStream sid)
  then have "\<not> (\<exists>e s'. stop_stream s sid escrow now = (Inl e, s'))"
    using assms(1) by (auto split: prod.splits sum.splits)
  then show ?thesis
    using StopStream assms(2) by (auto simp: runnable_def stop_stream_rejected)
qed (use assms(2) in \<open>simp_all add: runnable_def\<close>)

lemma apply_effect_ops_inv:
  assumes "run_ok escrow now (c, nonce, s)" "now \<le> U64_MAX" "list_all (op_valid c owned) ops"
    "ms_next_id s + length ops \<le> U64_MAX" "draws ops \<le> pc_escrow c"
    "apply_effect_ops escrow now ops (c, nonce, s) = Some (c', nonce', s')"
  shows "run_ok escrow now (c', nonce', s') \<and> wealth now s' = wealth now s
    \<and> ledger_step now escrow (draws ops) s s' \<and> pc_parties c' = pc_parties c \<and> pc_id c' = pc_id c
    \<and> ms_next_id s' \<le> ms_next_id s + length ops"
  using assms
proof (induction ops arbitrary: c nonce s)
  case (Cons op ops)
  from Cons.prems(6) obtain c1 nonce1 s1 where one: "apply_op escrow now op (c, nonce, s) = Some (c1, nonce1, s1)"
    "apply_effect_ops escrow now ops (c1, nonce1, s1) = Some (c', nonce', s')"
    by (auto simp: bind_eq_Some_conv)
  have "op_draw op \<le> pc_escrow c" "op_valid c owned op" "ms_next_id s < U64_MAX"
    using Cons.prems(3-5) by simp_all
  note step = run_ok_step [OF Cons.prems(1,2) this(2) apply_op_runnable [OF one(1) this(3)] this(1)]
  have s1: "run_ok escrow now (c1, nonce1, s1)" "wealth now s1 = wealth now s"
    "ledger_step now escrow (op_draw op) s s1" "pc_escrow c \<le> pc_escrow c1 + op_draw op"
    "pc_parties c1 = pc_parties c" "pc_id c1 = pc_id c" "ms_next_id s1 \<le> Suc (ms_next_id s)"
    by (rule step; use one(1) in simp)+
  have "list_all (op_valid c1 owned) ops"
    using Cons.prems(3) op_valid_cong [OF s1(5)] by (simp add: list_all_iff)
  moreover have "draws ops \<le> pc_escrow c1" using s1(4) Cons.prems(5) by simp
  moreover have "ms_next_id s1 + length ops \<le> U64_MAX" using s1(7) Cons.prems(4) by simp
  ultimately have "run_ok escrow now (c', nonce', s') \<and> wealth now s' = wealth now s1
      \<and> ledger_step now escrow (draws ops) s1 s' \<and> pc_parties c' = pc_parties c1 \<and> pc_id c' = pc_id c1
      \<and> ms_next_id s' \<le> ms_next_id s1 + length ops"
    using Cons.IH [OF s1(1) Cons.prems(2) _ _ _ one(2)] by blast
  then show ?case
    using s1 ledger_step_trans [OF s1(3)] by auto
qed simp

text \<open>The escrow account is settled before the first operation.\<close>

lemma run_ok_start:
  assumes ok: "ledger_ok s" "now \<le> U64_MAX" "wealth now s \<le> U128_MAX" "pc_escrow c \<le> settled s escrow"
  defines "x \<equiv> settle (get_or_new s escrow) now"
  shows "run_ok escrow now (c, acc_nonce x, put s x)" "wealth now (put s x) = wealth now s"
    "ledger_step now escrow 0 s (put s x)"
proof -
  note acct = ledger_ok_account [OF ok(1), of escrow]
  have x: "x = credit (get_or_new s escrow) now 0" by (simp add: x_def credit_zero)
  show w: "wealth now (put s x) = wealth now s"
    unfolding x using wealth_credit [of s escrow now 0] acct by simp
  show step: "ledger_step now escrow 0 s (put s x)"
    unfolding x by (rule ledger_step_credit [OF ok(1)])
  show "run_ok escrow now (c, acc_nonce x, put s x)"
    using ok w acct ledger_step_covers [OF step ok(4)]
    by (simp add: run_ok_def x_def ledger_ok_put)
qed

section \<open>The registry invariant\<close>

text \<open>The length of an operation list fits the count field of its encoding.\<close>

definition effect_small :: "canonical_effect \<Rightarrow> bool" where
  "effect_small e \<longleftrightarrow> length (ef_ops e) < 2 ^ 32"

definition ids_left :: "mem_state \<Rightarrow> bool" where
  "ids_left s \<longleftrightarrow> ms_next_id s + 2 ^ 32 \<le> U64_MAX"

definition exec_case_ok :: "exec_case \<Rightarrow> bool" where
  "exec_case_ok c \<longleftrightarrow> distinct (ec_jury c) \<and> length (ec_jury c) \<le> JURY_SIZE
     \<and> distinct (map fst (ec_effects c)) \<and> fst ` set (ec_effects c) \<subseteq> set (ec_jury c)
     \<and> (\<forall>(a, e) \<in> set (ec_effects c). effect_small e)"

text \<open>Every escrow the registry promises is covered by the settled balance of its account.\<close>

definition contracts_ok :: "mem_state \<Rightarrow> bool" where
  "contracts_ok s \<longleftrightarrow> ms_next_contract_id s \<le> U64_MAX
     \<and> (\<forall>cid c. get_contract s cid = Some c \<longrightarrow>
          pc_id c = cid \<and> cid < ms_next_contract_id s \<and> sorted (pc_parties c)
          \<and> pc_escrow c \<le> settled s (contract_address cid))
     \<and> (\<forall>k ec. get_exec_case s k = Some ec \<longrightarrow> ec_id ec = k \<and> exec_case_ok ec)"

definition is_escrow :: "address \<Rightarrow> bool" where
  "is_escrow a \<longleftrightarrow> (\<exists>cid \<le> U64_MAX. a = contract_address cid)"

lemma contracts_okD:
  assumes "contracts_ok s" "get_contract s cid = Some c"
  shows "pc_id c = cid" "cid \<le> U64_MAX" "sorted (pc_parties c)" "pc_escrow c \<le> settled s (contract_address cid)"
    "is_escrow (contract_address cid)" "cid < ms_next_contract_id s"
proof -
  show facts: "pc_id c = cid" "cid < ms_next_contract_id s" "sorted (pc_parties c)"
    "pc_escrow c \<le> settled s (contract_address cid)"
    using assms by (simp_all add: contracts_ok_def)
  then show "cid \<le> U64_MAX" using assms(1) by (simp add: contracts_ok_def)
  then show "is_escrow (contract_address cid)" by (auto simp: is_escrow_def)
qed

lemma contracts_ok_new [simp]: "contracts_ok mem_state_new"
  by (simp add: contracts_ok_def mem_state_new_def get_contract_def get_exec_case_def)

text \<open>A ledger step spent by an ordinary account keeps every escrow covered.\<close>

lemma contracts_ok_step:
  assumes "contracts_ok s" "ledger_step now a v s s'" "\<not> is_escrow a"
  shows "contracts_ok s'"
proof -
  note reg = ledger_step_registries [OF assms(2)]
  note look = same_registries_lookups [OF reg] same_registries_fields [OF reg]
  have "pc_escrow c \<le> settled s' (contract_address cid)" if "get_contract s cid = Some c" for cid c
  proof -
    note c = contracts_okD [OF assms(1) that]
    have "contract_address cid \<noteq> a" using assms(3) c(5) by auto
    from ledger_step_other(1) [OF assms(2) this] c(4) show ?thesis by simp
  qed
  then show ?thesis
    using assms(1) unfolding contracts_ok_def look by simp
qed

section \<open>The outcome of an effect\<close>

lemma validated_draw:
  assumes "wealth now s < U128_MAX" "ledger_ok s" "pc_escrow c \<le> settled s a"
    "validate_ops c owned 0 ops = Inr n"
  shows "n \<le> pc_escrow c \<longleftrightarrow> draws ops \<le> pc_escrow c"
proof -
  have "pc_escrow c < U128_MAX"
    using assms(1,3) settled_le_bal [OF assms(2), of a now] bal_le_wealth [of s a now] by linarith
  then show ?thesis
    using validate_ops_draw [OF assms(4)] by (auto simp: min_def split: if_splits)
qed

lemma apply_effect_valid:
  assumes "ledger_ok s" "wealth now s < U128_MAX" "contracts_ok s" "get_contract s cid = Some c"
  defines "addr \<equiv> contract_address cid" and "x \<equiv> settle (get_or_new s (contract_address cid)) now"
  shows "if list_all (op_valid c (outgoing s addr)) (ef_ops e) \<and> draws (ef_ops e) \<le> pc_escrow c
    then apply_effect s cid e now = map_option (\<lambda>(c, _, s). (Inr (), put_contract s c))
      (apply_effect_ops addr now (ef_ops e) (c, acc_nonce x, put s x))
    else \<exists>err. apply_effect s cid e now = Some (Inl err, s)"
proof (cases "validate_ops c (outgoing s addr) 0 (ef_ops e)")
  case (Inl err)
  then have "\<not> list_all (op_valid c (outgoing s addr)) (ef_ops e)"
    using validate_ops_ok [of c "outgoing s addr" 0 "ef_ops e"] by simp
  then show ?thesis
    using assms(4) Inl by (simp add: apply_effect_def addr_def)
next
  case (Inr n)
  then have valid: "list_all (op_valid c (outgoing s addr)) (ef_ops e)"
    using validate_ops_ok [of c "outgoing s addr" 0 "ef_ops e"] by auto
  note draw = validated_draw [OF assms(2,1) contracts_okD(4) [OF assms(3,4)] Inr]
  show ?thesis
    using assms(4) Inr valid draw by (auto simp: apply_effect_def addr_def x_def not_le Let_def)
qed

lemma contracts_ok_put_contract:
  assumes "contracts_ok s" "ledger_step now a v s s1" "is_escrow a \<Longrightarrow> a = contract_address (pc_id c)"
    "pc_escrow c \<le> settled s1 (contract_address (pc_id c))" "sorted (pc_parties c)"
    "pc_id c < ms_next_contract_id s"
  shows "contracts_ok (put_contract s1 c)"
proof -
  note reg = ledger_step_registries [OF assms(2)]
  note look = same_registries_lookups [OF reg] same_registries_fields [OF reg]
  let ?s = "put_contract s1 c"
  have frame: "settled ?s = settled s1" "get_exec_case ?s = get_exec_case s"
    "ms_next_contract_id ?s = ms_next_contract_id s"
    by (simp_all add: put_contract_def settled_def get_or_new_def get_def get_exec_case_def fun_eq_iff look)
  have "pc_escrow d \<le> settled s1 (contract_address k)" if d: "get_contract s k = Some d" "k \<noteq> pc_id c" for k d
  proof -
    note dk = contracts_okD [OF assms(1) d(1)]
    have "pc_id c \<le> U64_MAX" using assms(1,6) by (simp add: contracts_ok_def)
    then have "contract_address k \<noteq> a"
      using assms(3) dk(2,5) d(2) contract_address_inject by blast
    from ledger_step_other(1) [OF assms(2) this] dk(4) show ?thesis by simp
  qed
  then show ?thesis
    using assms(1,4-6) unfolding contracts_ok_def frame by (auto simp: look)
qed

lemma apply_effect_ok:
  assumes "ledger_ok s" "now \<le> U64_MAX" "wealth now s < U128_MAX" "contracts_ok s"
    "get_contract s cid = Some c" "runnable s (contract_address cid) (ef_ops e)"
    "list_all (op_valid c (outgoing s (contract_address cid))) (ef_ops e)" "draws (ef_ops e) \<le> pc_escrow c"
  obtains s1 c' where "apply_effect s cid e now = Some (Inr (), put_contract s1 c')"
    "ledger_ok s1" "wealth now s1 = wealth now s" "ledger_step now (contract_address cid) (draws (ef_ops e)) s s1"
    "pc_escrow c' + draws (ef_ops e) = pc_escrow c + releases s now (ef_ops e)"
    "pc_id c' = cid" "contracts_ok (put_contract s1 c')"
proof -
  let ?addr = "contract_address cid"
  let ?x = "settle (get_or_new s ?addr) now"
  note c = contracts_okD [OF assms(4,5)]
  have w: "wealth now s \<le> U128_MAX" using assms(3) by simp
  note start = run_ok_start [OF assms(1,2) w c(4)]
  have "runnable (put s ?x) ?addr (ef_ops e)" "releases (put s ?x) now (ef_ops e) = releases s now (ef_ops e)"
    using assms(6) by (simp_all add: runnable_def releases_def stream_rest_def)
  then obtain c' n' s1 where run: "apply_effect_ops ?addr now (ef_ops e) (c, acc_nonce ?x, put s ?x) = Some (c', n', s1)"
    "run_ok ?addr now (c', n', s1)" "wealth now s1 = wealth now s"
    "ledger_step now ?addr (draws (ef_ops e)) (put s ?x) s1"
    "pc_escrow c' + draws (ef_ops e) = pc_escrow c + releases s now (ef_ops e)"
    "pc_parties c' = pc_parties c" "pc_id c' = cid"
    using apply_effect_ops_ok [OF start(1) assms(2,7) _ assms(8)] start(2) c(1) by auto
  note step = ledger_step_trans [OF start(3) run(4)]
  have "contracts_ok (put_contract s1 c')"
    using contracts_ok_put_contract [OF assms(4) step, of c'] run(2,6,7) c by (simp add: run_ok_def)
  moreover have "apply_effect s cid e now = Some (Inr (), put_contract s1 c')"
    using apply_effect_valid [OF assms(1,3-5), of e] assms(7,8) run(1) by simp
  ultimately show thesis
    using that run step by (simp add: run_ok_def)
qed

text \<open>Whatever an effect returns, the invariants hold afterwards.\<close>

lemma apply_effect_inv:
  assumes "chain_ok s" "now \<le> U64_MAX" "wealth now s < U128_MAX" "contracts_ok s"
    "ms_next_id s + length (ef_ops e) \<le> U64_MAX" "apply_effect s cid e now = Some (r, s')"
  shows "chain_ok s' \<and> contracts_ok s' \<and> wealth now s' = wealth now s \<and> emitting_at s' = emitting_at s
    \<and> ms_next_id s' \<le> ms_next_id s + length (ef_ops e)
    \<and> ((\<exists>err. r = Inl err) \<longrightarrow> s' = s)
    \<and> ms_next_contract_id s' = ms_next_contract_id s \<and> ms_exec_cases s' = ms_exec_cases s"
proof (cases "get_contract s cid")
  case None
  then show ?thesis using assms by (simp add: apply_effect_def)
next
  case (Some c)
  let ?addr = "contract_address cid"
  let ?x = "settle (get_or_new s ?addr) now"
  have ok: "ledger_ok s" using assms(1) by (simp add: chain_ok_def)
  note c = contracts_okD [OF assms(4) Some]
  have w: "wealth now s \<le> U128_MAX" using assms(3) by simp
  note start = run_ok_start [OF ok assms(2) w c(4)]
  show ?thesis
  proof (cases "list_all (op_valid c (outgoing s ?addr)) (ef_ops e) \<and> draws (ef_ops e) \<le> pc_escrow c")
    case False
    then show ?thesis
      using apply_effect_valid [OF ok assms(3,4) Some, of e] assms by auto
  next
    case True
    then obtain c' n' s1 where run: "apply_effect_ops ?addr now (ef_ops e) (c, acc_nonce ?x, put s ?x) = Some (c', n', s1)"
      and r: "r = Inr ()" "s' = put_contract s1 c'"
      using apply_effect_valid [OF ok assms(3,4) Some, of e] assms(6)
      by (cases "apply_effect_ops ?addr now (ef_ops e) (c, acc_nonce ?x, put s ?x)") auto
    have "ms_next_id (put s ?x) + length (ef_ops e) \<le> U64_MAX" using assms(5) by simp
    note f = apply_effect_ops_inv [OF start(1) assms(2) conjunct1 [OF True] this conjunct2 [OF True] run]
    have step: "ledger_step now ?addr (0 + draws (ef_ops e)) s s1"
      using f by (intro ledger_step_trans [OF start(3)]) simp
    note look = same_registries_fields [OF ledger_step_registries [OF step]]
    have "ledger_ok s1" using f by (simp add: run_ok_def)
    note ch = ledger_step_chain_ok [OF assms(1) step this]
    have frame: "chain_ok (put_contract s1 c') = chain_ok s1" "emitting_at (put_contract s1 c') = emitting_at s1"
      "wealth now (put_contract s1 c') = wealth now s1"
      by (simp_all add: contract_frame)
    have "contracts_ok s'"
      unfolding r using contracts_ok_put_contract [OF assms(4) step, of c'] f c by (simp add: run_ok_def)
    then show ?thesis
      using f start(2) ch frame r look by (simp add: put_contract_def)
  qed
qed

end
