(* ===== verification/Contract_Invariant.thy ===== *)
theory Contract_Invariant
  imports Contracts
begin

text \<open>
  The operations of the contract engine keep the invariants of ledger, proof-of-humanity registry,
  emission gate and contract registry, and how a case is decided. \<open>apply_effect_fail_closed\<close> and
  \<open>resolve_outcome\<close> are the two facts the properties rest on.
\<close>

lemma apply_effect_fail_closed: "apply_effect s cid e now = Some (Inl err, s') \<Longrightarrow> s' = s"
  by (auto simp: apply_effect_def Let_def split: option.splits sum.splits if_splits)

section \<open>Deciding a case\<close>

text \<open>A case commits only an effect that a quorum submitted and that applied; otherwise the state is left alone.\<close>

lemma resolve_outcome:
  assumes "resolve_case s c block now = Some (c', s')"
  shows "case ec_status c' of
      ExecCommitted eff \<Rightarrow> eff \<in> snd ` set (ec_effects c) \<and> \<not> is_abort eff
        \<and> QUORUM \<le> backers (ec_effects c) (ef_effect_hash eff)
        \<and> apply_effect s (ec_contract c) eff now = Some (Inr (), s')
    | _ \<Rightarrow> s' = s"
    and "ec_id c' = ec_id c" "ec_jury c' = ec_jury c" "ec_effects c' = ec_effects c"
proof -
  show "ec_id c' = ec_id c" "ec_jury c' = ec_jury c" "ec_effects c' = ec_effects c"
    using assms by (auto simp: resolve_case_def split: option.splits EffectTally.splits if_splits sum.splits)
  obtain t where t: "tally_effects (ec_effects c) (length (ec_jury c)) QUORUM = Some t"
    using assms by (auto simp: resolve_case_def split: option.splits)
  show "case ec_status c' of
      ExecCommitted eff \<Rightarrow> eff \<in> snd ` set (ec_effects c) \<and> \<not> is_abort eff
        \<and> QUORUM \<le> backers (ec_effects c) (ef_effect_hash eff)
        \<and> apply_effect s (ec_contract c) eff now = Some (Inr (), s')
    | _ \<Rightarrow> s' = s"
  proof (cases t)
    case (ETCommitted eff)
    note quorum = tally_effects_committed [OF t [unfolded ETCommitted]]
    have "ec_status c' = ExecCommitted eff \<and> \<not> is_abort eff
          \<and> apply_effect s (ec_contract c) eff now = Some (Inr (), s')
        \<or> ec_status c' = Aborted \<and> s' = s"
      using assms t ETCommitted apply_effect_fail_closed
      by (auto simp: resolve_case_def split: option.splits if_splits sum.splits)
    with quorum show ?thesis by (elim disjE conjE) simp_all
  qed (use assms t in \<open>auto simp: resolve_case_def\<close>)
qed

text \<open>Distinct submitters turn the count of submissions into a count of jurors.\<close>

lemma backers_card:
  assumes "distinct (map fst subs)"
  shows "backers subs h = card {a. \<exists>e. (a, e) \<in> set subs \<and> ef_effect_hash e = h}"
proof -
  let ?xs = "filter (\<lambda>(_, e). ef_effect_hash e = h) subs"
  have "distinct (map fst ?xs)" using assms by (rule distinct_map_filter)
  then have "length ?xs = card (set (map fst ?xs))" using distinct_card [of "map fst ?xs"] by simp
  also have "set (map fst ?xs) = {a. \<exists>e. (a, e) \<in> set subs \<and> ef_effect_hash e = h}" by (auto simp: image_def)
  finally show ?thesis by (simp add: backers_def)
qed

section \<open>Preservation\<close>

definition engine_ok :: "mem_state \<Rightarrow> bool" where
  "engine_ok s \<longleftrightarrow> chain_ok s \<and> contracts_ok s"

text \<open>What an operation of the engine keeps: the invariants, the value in the system and who earns.\<close>

definition keeps :: "u64 \<Rightarrow> mem_state \<Rightarrow> mem_state \<Rightarrow> bool" where
  "keeps now s s' \<longleftrightarrow> engine_ok s' \<and> wealth now s' = wealth now s \<and> emitting_at s' = emitting_at s"

lemma keeps_refl: "engine_ok s \<Longrightarrow> keeps now s s"
  by (simp add: keeps_def)

lemma keeps_trans: "keeps now s t \<Longrightarrow> keeps now t u \<Longrightarrow> keeps now s u"
  by (simp add: keeps_def)

lemma engine_ok_new [simp]: "engine_ok mem_state_new"
  by (simp add: engine_ok_def chain_ok_new)

lemma next_contract_frame:
  "wealth now (s\<lparr>ms_next_contract_id := n\<rparr>) = wealth now s"
  "chain_ok (s\<lparr>ms_next_contract_id := n\<rparr>) = chain_ok s"
  "emitting_at (s\<lparr>ms_next_contract_id := n\<rparr>) = emitting_at s"
  "settled (s\<lparr>ms_next_contract_id := n\<rparr>) = settled s"
  "get_contract (s\<lparr>ms_next_contract_id := n\<rparr>) = get_contract s"
  "get_exec_case (s\<lparr>ms_next_contract_id := n\<rparr>) = get_exec_case s"
  by (simp_all add: fun_eq_iff get_def get_stream_def wealth_def chain_ok_def ledger_ok_def
      poh_ok_def gate_ok_def cache_at_def emitting_at_def get_or_new_def index_ok_def get_human_def
      acct_store.keys_agree_def human_store.keys_agree_def juror_store.keys_agree_def get_case_def
      get_juror_def settled_def get_contract_def get_exec_case_def)

lemma next_exec_case_frame:
  "wealth now (s\<lparr>ms_next_exec_case_id := n\<rparr>) = wealth now s"
  "chain_ok (s\<lparr>ms_next_exec_case_id := n\<rparr>) = chain_ok s"
  "emitting_at (s\<lparr>ms_next_exec_case_id := n\<rparr>) = emitting_at s"
  "contracts_ok (s\<lparr>ms_next_exec_case_id := n\<rparr>) = contracts_ok s"
  by (simp_all add: fun_eq_iff get_def get_stream_def wealth_def chain_ok_def ledger_ok_def
      poh_ok_def gate_ok_def cache_at_def emitting_at_def get_or_new_def index_ok_def get_human_def
      acct_store.keys_agree_def human_store.keys_agree_def juror_store.keys_agree_def get_case_def
      get_juror_def settled_def get_contract_def get_exec_case_def contracts_ok_def)

lemma contracts_ok_put_exec:
  "contracts_ok s \<Longrightarrow> exec_case_ok c \<Longrightarrow> contracts_ok (put_exec_case s c)"
  by (auto simp: contracts_ok_def exec_case_frame)

lemma put_exec_keeps:
  assumes "keeps now s t" "exec_case_ok c"
  shows "keeps now s (put_exec_case t c)"
  using assms contracts_ok_put_exec by (simp add: keeps_def engine_ok_def exec_case_frame)

lemma deploy_keeps:
  assumes "engine_ok s" "ms_next_contract_id s < U64_MAX"
  shows "keeps now s (snd (deploy_contract s text text_ref parties))"
proof (cases "parties = [] \<or> length text > MAX_CONTRACT_TEXT_BYTES \<or> length parties > MAX_CONTRACT_PARTIES")
  case True
  then have "snd (deploy_contract s text text_ref parties) = s"
    by (auto simp: deploy_contract_def)
  then show ?thesis using assms(1) by (simp add: keeps_refl)
next
  case False
  let ?n = "ms_next_contract_id s"
  let ?s = "s\<lparr>ms_next_contract_id := incr64 ?n\<rparr>"
  let ?c = "prompt_contract_new ?n text text_ref parties"
  have eq: "snd (deploy_contract s text text_ref parties) = put_contract ?s ?c"
    using False by (simp add: deploy_contract_def next_contract_id_def)
  have "contracts_ok ?s"
    using assms by (auto simp: engine_ok_def contracts_ok_def next_contract_frame incr64_exact less_SucI)
  then have "contracts_ok (put_contract ?s ?c)"
    using contracts_ok_put_contract [OF _ ledger_step_refl [of now "contract_address ?n" 0], of ?s ?c] assms(2)
    by (simp add: prompt_contract_new_def incr64_exact)
  then show ?thesis
    using assms(1) by (simp add: eq keeps_def engine_ok_def contract_frame next_contract_frame)
qed

lemma step_keeps:
  assumes "engine_ok s" "ledger_step now a v s s'" "ledger_ok s'" "wealth now s' = wealth now s" "\<not> is_escrow a"
  shows "keeps now s s'"
  using assms ledger_step_chain_ok [OF _ assms(2,3)] contracts_ok_step [OF _ assms(2,5)]
  by (simp add: keeps_def engine_ok_def)

lemma transfer_keeps:
  assumes "engine_ok s" "now \<le> U64_MAX" "wealth now s \<le> U128_MAX" "\<not> is_escrow frm"
  shows "keeps now s (snd (apply_transfer s frm to val nonce now))"
proof -
  have ok: "ledger_ok s" using assms(1) by (simp add: engine_ok_def chain_ok_def)
  show ?thesis
    by (rule step_keeps [OF assms(1) transfer_step [OF ok assms(2,3)] transfer_sound [OF ok assms(2,3)] assms(4)])
qed

lemma fund_keeps:
  assumes "engine_ok s" "now \<le> U64_MAX" "wealth now s \<le> U128_MAX" "\<not> is_escrow funder"
  shows "keeps now s (snd (fund_contract s funder cid amount nonce now))"
proof -
  have ok: "ledger_ok s" "contracts_ok s" using assms(1) by (simp_all add: engine_ok_def chain_ok_def)
  let ?s = "snd (apply_transfer s funder (contract_address cid) amount nonce now)"
  note tr = transfer_keeps [OF assms, of "contract_address cid" amount nonce]
  consider "snd (fund_contract s funder cid amount nonce now) = s"
    | "snd (fund_contract s funder cid amount nonce now) = ?s"
    | c where "get_contract s cid = Some c" "apply_transfer s funder (contract_address cid) amount nonce now = (Inr (), ?s)"
        "snd (fund_contract s funder cid amount nonce now)
          = put_contract ?s (c\<lparr>pc_escrow := sat_add128 (pc_escrow c) amount\<rparr>)"
  proof (cases "get_contract s cid")
    case None
    then show thesis using that(1) by (simp add: fund_contract_def)
  next
    case (Some c)
    obtain r t where rt: "apply_transfer s funder (contract_address cid) amount nonce now = (r, t)"
      by (cases "apply_transfer s funder (contract_address cid) amount nonce now")
    show thesis
    proof (cases "pc_status c = Terminated")
      case True
      with Some show thesis using that(1) by (simp add: fund_contract_def)
    next
      case False
      with Some rt that(2,3) show thesis by (cases r) (simp_all add: fund_contract_def)
    qed
  qed
  then show ?thesis
  proof cases
    case 1
    then show ?thesis using assms(1) by (simp add: keeps_refl)
  next
    case 2
    then show ?thesis using tr by simp
  next
    case (3 c)
    let ?c = "c\<lparr>pc_escrow := sat_add128 (pc_escrow c) amount\<rparr>"
    note c = contracts_okD [OF ok(2) 3(1)]
    have neq: "funder \<noteq> contract_address cid" using assms(4) c(5) by auto
    note cr = transfer_credits [OF ok(1) assms(2,3) neq 3(2)]
    have "contracts_ok (put_contract ?s ?c)"
      using c cr assms(4)
      by (intro contracts_ok_put_contract [OF ok(2) transfer_step [OF ok(1) assms(2,3)]]) (simp_all add: sat_add128_def)
    then show ?thesis
      using tr unfolding 3(3) by (simp add: keeps_def engine_ok_def contract_frame)
  qed
qed

lemma resolve_keeps:
  assumes "engine_ok s" "now \<le> U64_MAX" "wealth now s < U128_MAX" "exec_case_ok c"
    "ids_left s" "resolve_case s c block now = Some (c', s')"
  shows "keeps now s s' \<and> exec_case_ok c'"
proof
  note out = resolve_outcome [OF assms(6)]
  show "exec_case_ok c'" using assms(4) out(2-4) by (simp add: exec_case_ok_def)
  show "keeps now s s'"
  proof (cases "ec_status c'")
    case (ExecCommitted eff)
    then have "eff \<in> snd ` set (ec_effects c)" "apply_effect s (ec_contract c) eff now = Some (Inr (), s')"
      using out(1) by simp_all
    moreover from this(1) have "effect_small eff" using assms(4) by (auto simp: exec_case_ok_def)
    ultimately show ?thesis
      using apply_effect_inv [of s now eff "ec_contract c"] assms(1-3,5)
      by (simp add: keeps_def engine_ok_def effect_small_def ids_left_def)
  qed (use out(1) assms(1) keeps_refl in auto)
qed

lemma submit_keeps:
  assumes "engine_ok s" "now \<le> U64_MAX" "wealth now s < U128_MAX"
    "effect_small effect" "ids_left s"
    "submit_effect s case_id interp effect block now = Some (r, s')"
  shows "keeps now s s'"
proof (cases "\<exists>err. r = Inl err")
  case True
  then have "s' = s"
    using assms(6) by (auto simp: submit_effect_def split: option.splits if_splits)
  then show ?thesis using assms(1) by (simp add: keeps_refl)
next
  case False
  then obtain c c' s1 where c: "get_exec_case s case_id = Some c" "interp \<in> set (ec_jury c)"
      "effect_of c interp = None"
    and res: "resolve_case s (c\<lparr>ec_effects := ec_effects c @ [(interp, effect)]\<rparr>) block now = Some (c', s1)"
    and s': "s' = put_exec_case s1 c'"
    using assms(6) by (auto simp: submit_effect_def split: option.splits if_splits)
  have "exec_case_ok c" using assms(1) c(1) by (simp add: engine_ok_def contracts_ok_def)
  then have "exec_case_ok (c\<lparr>ec_effects := ec_effects c @ [(interp, effect)]\<rparr>)"
    using c(2,3) assms(4) by (auto simp: exec_case_ok_def effect_of_def find_None_iff)
  then show ?thesis
    using resolve_keeps [OF assms(1-3) _ assms(5) res] put_exec_keeps s' by simp
qed

lemma invoke_keeps:
  assumes "engine_ok s" "now \<le> U64_MAX" "wealth now s < U128_MAX"
    "\<And>text view. effect_small (interp text view trigger)" "ids_left s"
    "invoke_contract s interp cid trigger_ref trigger invoker entropy block now = Some (r, s')"
  shows "keeps now s s'"
proof (cases "\<exists>err. r = Inl err")
  case True
  then have "s' = s"
    using assms(6) by (auto simp: invoke_contract_def Let_def split: option.splits if_splits prod.splits)
  then show ?thesis using assms(1) by (simp add: keeps_refl)
next
  case False
  let ?s = "s\<lparr>ms_next_exec_case_id := incr64 (ms_next_exec_case_id s)\<rparr>"
  from False obtain c c1 s1 where
    res0: "resolve_case ?s \<lparr>ec_id = ms_next_exec_case_id s, ec_contract = cid, ec_trigger_ref = trigger_ref,
        ec_invoker = invoker,
        ec_jury = select_jury (active_jurors s) JURY_SIZE (interpreter_seed (ms_next_exec_case_id s) entropy),
        ec_effects = map (\<lambda>a. (a, interp (pc_text c) (state_view ?s c now) trigger))
          (select_jury (active_jurors s) JURY_SIZE (interpreter_seed (ms_next_exec_case_id s) entropy)),
        ec_status = ExecOpen, ec_opened_at = block, ec_resolved_at = None\<rparr> block now = Some (c1, s1)"
      (is "resolve_case _ ?ec _ _ = _")
    and s'0: "s' = put_exec_case s1 c1"
    using assms(6)
    by (auto simp: invoke_contract_def Let_def next_exec_case_id_def split: option.splits if_splits)
  have ok: "engine_ok ?s" "wealth now ?s < U128_MAX" "keeps now s ?s"
    using assms(1,3) by (simp_all add: engine_ok_def next_exec_case_frame keeps_def)
  have "exec_case_ok ?ec"
    using select_jury_facts [of "active_jurors s" JURY_SIZE "interpreter_seed (ms_next_exec_case_id s) entropy"]
      assms(4) by (auto simp: exec_case_ok_def comp_def)
  moreover have "ids_left ?s" using assms(5) by (simp add: ids_left_def)
  ultimately show ?thesis
    using resolve_keeps [OF ok(1) assms(2) ok(2) _ _ res0] put_exec_keeps keeps_trans [OF ok(3)] s'0 by blast
qed

end
