(* ===== verification/Contract_Theorems.thy ===== *)
theory Contract_Theorems
  imports Contract_Invariant
begin

text \<open>
  The properties of the contract engine: the exact outcome of a committed effect, the quorum behind
  it, funding, and the effects that pass validation and still stop the node. The witnesses run on
  one funded contract with a juror.
\<close>

section \<open>A funded contract\<close>

definition escrow_acct :: account where
  "escrow_acct = (fresh_account (contract_address 0))\<lparr>acc_settled_balance := 100\<rparr>"

definition demo_contract :: prompt_contract where
  "demo_contract = (prompt_contract_new 0 [] 0 [7])\<lparr>pc_escrow := 100\<rparr>"

definition demo_case :: exec_case where
  "demo_case = \<lparr>ec_id = 0, ec_contract = 0, ec_trigger_ref = 0, ec_invoker = 7, ec_jury = [1, 2, 3],
     ec_effects = [(1, effect_new [Refund 7 40])], ec_status = ExecOpen, ec_opened_at = 0,
     ec_resolved_at = None\<rparr>"

definition contract_demo :: mem_state where
  "contract_demo = mem_state_new\<lparr>
     ms_accounts := fmap_of_list [(contract_address 0, escrow_acct)],
     ms_contracts := fmap_of_list [(0, demo_contract)], ms_next_contract_id := 1,
     ms_exec_cases := fmap_of_list [(0, demo_case)], ms_next_exec_case_id := 1\<rparr>"

lemma contract_demo_lookups [simp]:
  "get contract_demo a = (if a = contract_address 0 then Some escrow_acct else None)"
  "get_stream contract_demo k = None" "get_human contract_demo a = None" "get_case contract_demo k = None"
  "get_juror contract_demo a = None" "ms_next_id contract_demo = 0" "outgoing contract_demo a = []"
  "get_contract contract_demo k = (if k = 0 then Some demo_contract else None)"
  "get_exec_case contract_demo k = (if k = 0 then Some demo_case else None)"
  "incoming contract_demo a = []" "ms_next_contract_id contract_demo = 1"
  by (simp_all add: contract_demo_def mem_state_new_def state_defs outgoing_def incoming_def bucket_def)

lemma contract_demo_fields:
  "ms_incoming contract_demo = fmempty" "ms_outgoing contract_demo = fmempty"
  "ms_streams contract_demo = fmempty"
  "ms_accounts contract_demo = fmupd (contract_address 0) escrow_acct fmempty"
  by (simp_all add: contract_demo_def mem_state_new_def)

lemma contract_demo_wealth: "wealth now contract_demo = 100"
proof -
  have "acc_balance escrow_acct now = 100"
    by (simp add: escrow_acct_def acc_balance_def pending_emission_def U128_MAX_def)
  then show ?thesis
    by (simp add: wealth_def contract_demo_fields fm_sum_fmupd_fresh)
qed

lemma contract_demo_ok: "engine_ok contract_demo"
proof -
  have "index_ok contract_demo"
    by (simp add: index_ok_def contract_demo_fields bucket_def)
  then have "ledger_ok contract_demo"
    by (simp add: ledger_ok_def escrow_acct_def account_ok_def U128_MAX_def)
  moreover have "gate_ok contract_demo"
    by (simp add: gate_ok_def fun_eq_iff cache_at_def emitting_at_def get_or_new_def escrow_acct_def)
  moreover have "contracts_ok contract_demo"
    by (simp add: contracts_ok_def demo_contract_def prompt_contract_new_def settled_def get_or_new_def
        escrow_acct_def exec_case_ok_def demo_case_def U64_MAX_def const_defs effect_small_def effect_new_def)
  moreover have "poh_ok contract_demo"
    by (simp add: poh_ok_def acct_store.keys_agree_def human_store.keys_agree_def
        juror_store.keys_agree_def escrow_acct_def)
  ultimately show ?thesis
    by (simp add: engine_ok_def chain_ok_def)
qed

section \<open>Properties\<close>





text \<open>
  Funding. A contract is funded exactly when it exists, is not terminated, and the funder's nonce and
  reported balance allow the transfer; then its escrow rises by exactly the amount and stays covered by
  its account. Value, invariants and every other contract are kept in every case.
\<close>
theorem fund_contract_exact:
  assumes ok: "engine_ok s" "now \<le> U64_MAX" "wealth now s \<le> U128_MAX" "\<not> is_escrow funder"
    and r: "fund_contract s funder cid amount nonce now = (r, s')"
  shows "keeps now s s'
    \<and> (r = Inr () \<longleftrightarrow> (\<exists>c. get_contract s cid = Some c \<and> pc_status c \<noteq> Terminated)
        \<and> nonce = state_nonce s funder \<and> amount \<le> state_balance s funder now)
    \<and> get_contract s' = (if r = Inr () then (get_contract s)(cid :=
        map_option (\<lambda>c. c\<lparr>pc_escrow := pc_escrow c + amount\<rparr>) (get_contract s cid)) else get_contract s)"
proof -
  have led: "ledger_ok s" "contracts_ok s" using ok(1) by (simp_all add: engine_ok_def chain_ok_def)
  let ?addr = "contract_address cid"
  obtain q t where tr: "apply_transfer s funder ?addr amount nonce now = (q, t)"
    by (cases "apply_transfer s funder ?addr amount nonce now")
  have reg: "get_contract t = get_contract s"
    using same_registries_lookups [OF ledger_step_registries [OF transfer_step [OF led(1) ok(2,3), of funder ?addr amount nonce]]]
    by (simp add: tr)
  have acc: "(\<exists>u. q = Inr u) \<longleftrightarrow> nonce = state_nonce s funder \<and> amount \<le> state_balance s funder now"
    using tr settle_incoming_nonce [OF led(1) ok(2,3), of funder funder]
      balance_after_settle_incoming [OF led(1) ok(2,3), of funder]
    by (auto simp: transfer_cases state_nonce_eq split: if_splits)
  have exact: "sat_add128 (pc_escrow c) amount = pc_escrow c + amount"
    if "get_contract s cid = Some c" "q = Inr u" for c u
  proof -
    note c = contracts_okD [OF led(2) that(1)]
    have "funder \<noteq> ?addr" using ok(4) c(5) by auto
    then have "settled s ?addr + amount \<le> U128_MAX"
      using transfer_credits(2) [OF led(1) ok(2,3)] tr that(2) by simp
    then show ?thesis using c(4) by simp
  qed
  have "keeps now s s'" using fund_keeps [OF ok, of cid amount nonce] r by simp
  moreover have "pc_id c = cid" if "get_contract s cid = Some c" for c
    using contracts_okD(1) [OF led(2) that] .
  ultimately show ?thesis
  proof (cases "\<exists>c. get_contract s cid = Some c \<and> pc_status c \<noteq> Terminated")
    case False
    then have "s' = s \<and> (\<exists>e. r = Inl e)"
      using r by (auto simp: fund_contract_def split: option.splits)
    with False \<open>keeps now s s'\<close> show ?thesis by auto
  next
    case True
    then obtain c where c: "get_contract s cid = Some c" "pc_status c \<noteq> Terminated" by blast
    show ?thesis
    proof (cases q)
      case (Inl e)
      then show ?thesis
        using r tr c acc reg \<open>keeps now s s'\<close> by (auto simp: fund_contract_def)
    next
      case (Inr u)
      then have "r = Inr ()" "s' = put_contract t (c\<lparr>pc_escrow := pc_escrow c + amount\<rparr>)"
        using r tr c exact [OF c(1)] by (auto simp: fund_contract_def)
      then show ?thesis
        using Inr c acc reg \<open>keeps now s s'\<close> contracts_okD(1) [OF led(2) c(1)] by (auto simp: fun_eq_iff)
    qed
  qed
qed

theorem fund_contract_exact_witness:
  "\<exists>s'. fund_contract (put contract_demo ((fresh_account 9)\<lparr>acc_settled_balance := 30\<rparr>)) 9 0 25 0 5 = (Inr (), s')
     \<and> map_option pc_escrow (get_contract s' 0) = Some 125"
proof -
  let ?x = "(fresh_account 9)\<lparr>acc_settled_balance := 30\<rparr>"
  let ?s = "put contract_demo ?x"
  have bx: "acc_balance ?x 5 = 30" by (simp add: acc_balance_def pending_emission_def U128_MAX_def)
  have neq: "9 \<noteq> contract_address cid" for cid
    by (rule not_contract_address) code_simp
  then have esc: "\<not> is_escrow 9" by (simp add: is_escrow_def)
  have led: "ledger_ok contract_demo" using contract_demo_ok by (simp add: engine_ok_def chain_ok_def)
  have step: "ledger_step 5 9 0 contract_demo ?s"
    using neq by (intro ledger_step_put) (simp_all add: get_or_new_def settled_def)
  have "ledger_ok ?s" using led by (simp add: ledger_ok_put account_ok_def U128_MAX_def)
  then have eng: "engine_ok ?s"
    using contract_demo_ok ledger_step_chain_ok [OF _ step] contracts_ok_step [OF _ step esc]
    by (simp add: engine_ok_def)
  have "wealth 5 ?s = 130"
    using wealth_put [of 5 contract_demo ?x] neq bx by (simp add: contract_demo_wealth get_or_new_def)
  moreover have "state_balance ?s 9 5 = 30" "state_nonce ?s 9 = 0"
    using bx by (simp_all add: state_balance_def state_nonce_def U128_MAX_def List.map_filter_def)
  moreover obtain r s' where f: "fund_contract ?s 9 0 25 0 5 = (r, s')"
    by (cases "fund_contract ?s 9 0 25 0 5")
  ultimately show ?thesis
    using fund_contract_exact [OF eng _ _ esc f]
    by (simp add: f U64_MAX_def U128_MAX_def demo_contract_def prompt_contract_new_def)
qed

text \<open>
  C40: Validation does not cover everything the second phase relies on. A validated effect that opens a
  stream from the escrow to itself, or that stops an owned stream which is no longer active, reaches
  an \<^verbatim>\<open>expect\<close> and panics: it neither applies nor aborts.
\<close>
theorem validated_effect_panics:
  assumes "get_contract s cid = Some c" "1 \<le> pc_escrow c"
  shows "validate_ops c (outgoing s (contract_address cid)) 0 [OpenStream (contract_address cid) 1 1] = Inr 1
    \<and> apply_effect s cid (effect_new [OpenStream (contract_address cid) 1 1]) now = None
    \<and> (\<forall>sid st. sid \<in> set (outgoing s (contract_address cid)) \<and> get_stream s sid = Some st \<and> st_status st \<noteq> Active
        \<longrightarrow> apply_effect s cid (effect_new [StopStream sid]) now = None)"
proof (intro conjI allI impI)
  show v: "validate_ops c (outgoing s (contract_address cid)) 0 [OpenStream (contract_address cid) 1 1] = Inr 1"
    by (simp add: const_defs sat_add128_def U128_MAX_def)
  show "apply_effect s cid (effect_new [OpenStream (contract_address cid) 1 1]) now = None"
    using assms v by (simp add: apply_effect_def effect_new_def Let_def open_stream_def del: validate_ops.simps)
next
  fix sid st
  assume "sid \<in> set (outgoing s (contract_address cid)) \<and> get_stream s sid = Some st \<and> st_status st \<noteq> Active"
  then show "apply_effect s cid (effect_new [StopStream sid]) now = None"
    using assms by (simp add: apply_effect_def effect_new_def Let_def stop_stream_def)
qed

theorem validated_effect_panics_witness:
  "apply_effect contract_demo 0 (effect_new [OpenStream (contract_address 0) 1 1]) 5 = None"
proof -
  have c: "get_contract contract_demo 0 = Some demo_contract" by simp
  show ?thesis
    using validated_effect_panics [OF c, of 5] by (simp add: demo_contract_def)
qed

text \<open>
  A transfer from the escrow to the escrow itself strands value: the effect is accepted, the
  contract's escrow field falls by the amount, and the escrow account keeps all of it, out of reach of
  every later effect.
\<close>
theorem self_transfer_strands:
  assumes ok: "engine_ok s" "now \<le> U64_MAX" "wealth now s < U128_MAX"
    and c: "get_contract s cid = Some c" "n \<le> pc_escrow c"
  shows "\<exists>s'. apply_effect s cid (effect_new [Transfer (contract_address cid) n]) now = Some (Inr (), s')
    \<and> map_option pc_escrow (get_contract s' cid) = Some (pc_escrow c - n)
    \<and> bal s (contract_address cid) now \<le> bal s' (contract_address cid) now"
proof -
  let ?addr = "contract_address cid"
  let ?x = "settle (get_or_new s ?addr) now"
  have led: "ledger_ok s" "contracts_ok s" using ok(1) by (simp_all add: engine_ok_def chain_ok_def)
  note c' = contracts_okD [OF led(2) c(1)]
  have w: "wealth now s \<le> U128_MAX" using ok(3) by simp
  note start = run_ok_start [OF led(1) ok(2) w c'(4)]
  have run: "ledger_ok (put s ?x)" "wealth now (put s ?x) \<le> U128_MAX" "acc_nonce ?x = acc_nonce (get_or_new (put s ?x) ?addr)"
    "pc_escrow c \<le> settled (put s ?x) ?addr"
    using start(1) by (simp_all only: run_ok_def prod.case)
  have "n \<le> bal (put s ?x) ?addr now"
    using c(2) run(4) settled_le_bal [OF run(1), of ?addr now] by linarith
  then obtain s' where s': "apply_transfer (put s ?x) ?addr ?addr n (acc_nonce ?x) now = (Inr (), s')"
    "ledger_step now ?addr 0 (put s ?x) s'"
    by (rule transfer_accepted [OF run(1) ok(2) run(2,3), of n ?addr]) auto
  have "apply_effect s cid (effect_new [Transfer ?addr n]) now
      = Some (Inr (), put_contract s' (c\<lparr>pc_escrow := pc_escrow c - n\<rparr>))"
    using apply_effect_valid [OF led(1) ok(3) led(2) c(1), of "effect_new [Transfer ?addr n]"] c(2) s'(1)
    by (simp add: effect_new_def)
  then show ?thesis
    using c'(1) ledger_step_spender [OF ledger_step_trans [OF start(3) s'(2)]] by (simp add: contract_frame)
qed

theorem self_transfer_strands_witness:
  "\<exists>s'. apply_effect contract_demo 0 (effect_new [Transfer (contract_address 0) 60]) 5 = Some (Inr (), s')
    \<and> map_option pc_escrow (get_contract s' 0) = Some 40 \<and> 100 \<le> bal s' (contract_address 0) 5"
proof -
  have c: "get_contract contract_demo 0 = Some demo_contract" by simp
  have "bal contract_demo (contract_address 0) 5 = 100"
    by (simp add: get_or_new_def escrow_acct_def acc_balance_def pending_emission_def U128_MAX_def)
  then show ?thesis
    using self_transfer_strands [OF contract_demo_ok _ _ c, of 5 60]
    by (simp add: contract_demo_wealth U64_MAX_def U128_MAX_def demo_contract_def)
qed

end
