(* ===== verification/Effect_Codec.thy ===== *)
theory Effect_Codec
  imports Effects
begin

text \<open>
  The wire form of an effect (\<^verbatim>\<open>crates/exec/src/effect_codec.rs\<close>): a cursor over the blob, its
  fixed-width readers, and the decoder of an operation list. Errors are the strings of the source. The
  interface \<open>wire_codec\<close> says what a reader promises about its writer; it is interpreted on every reader
  of the cursor and on the operations, and yields that decoding inverts encoding and that nothing but the
  canonical encoding is accepted.
\<close>

section \<open>The cursor\<close>

record cursor =
  cur_buf :: "byte list"
  cur_pos :: usize

type_synonym ('e, 'a) parser = "cursor \<Rightarrow> 'e + 'a \<times> cursor"

type_synonym 'a reader = "(string, 'a) parser"

definition cursor_new :: "byte list \<Rightarrow> cursor" where
  "cursor_new buf = \<lparr>cur_buf = buf, cur_pos = 0\<rparr>"

definition cursor_is_empty :: "cursor \<Rightarrow> bool" where
  "cursor_is_empty c \<longleftrightarrow> length (cur_buf c) \<le> cur_pos c"

definition cursor_take :: "usize \<Rightarrow> byte list reader" where
  "cursor_take n c =
     (if cur_pos c + n > length (cur_buf c) then Inl ''unexpected end of ops blob''
      else Inr (take n (drop (cur_pos c) (cur_buf c)), c\<lparr>cur_pos := cur_pos c + n\<rparr>))"

text \<open>The operator \<^verbatim>\<open>?\<close>, and reading a value out of a slice.\<close>

definition and_then :: "('e, 'a) parser \<Rightarrow> ('a \<Rightarrow> ('e, 'b) parser) \<Rightarrow> ('e, 'b) parser" where
  "and_then r f c = (case r c of Inl e \<Rightarrow> Inl e | Inr (v, c) \<Rightarrow> f v c)"

definition yields :: "'a \<Rightarrow> ('e, 'a) parser" where
  "yields v c = Inr (v, c)"

definition cursor_u8 :: "u8 reader" where
  "cursor_u8 = and_then (cursor_take 1) (\<lambda>s. yields (unat (s ! 0)))"

definition cursor_u32 :: "u32 reader" where
  "cursor_u32 = and_then (cursor_take 4) (\<lambda>s. yields (be_nat s))"

definition cursor_u64 :: "u64 reader" where
  "cursor_u64 = and_then (cursor_take 8) (\<lambda>s. yields (be_nat s))"

definition cursor_u128 :: "u128 reader" where
  "cursor_u128 = and_then (cursor_take 16) (\<lambda>s. yields (be_nat s))"

definition cursor_addr :: "address reader" where
  "cursor_addr = and_then (cursor_take 20) (\<lambda>s. yields (addr_of_bytes s))"

definition cursor_hash :: "hash reader" where
  "cursor_hash = and_then (cursor_take 32) (\<lambda>s. yields (hash_of_bytes s))"

section \<open>Decoding\<close>

definition decode_op :: "Op reader" where
  "decode_op = and_then cursor_u8 (\<lambda>tag.
     if tag = 0 then and_then cursor_addr (\<lambda>to. and_then cursor_u128 (\<lambda>amount. yields (Transfer to amount)))
     else if tag = 1 then
       and_then cursor_addr (\<lambda>party. and_then cursor_u128 (\<lambda>amount. yields (Refund party amount)))
     else if tag = 2 then
       and_then cursor_addr (\<lambda>to. and_then cursor_u128 (\<lambda>rate. and_then cursor_u128 (\<lambda>deposit.
         yields (OpenStream to rate deposit))))
     else if tag = 3 then and_then cursor_u64 (\<lambda>sid. yields (StopStream sid))
     else if tag = 4 then and_then cursor_hash (\<lambda>k. and_then cursor_hash (\<lambda>v. yields (SetVar k v)))
     else if tag = 5 then and_then cursor_hash (\<lambda>r. yields (Abort r))
     else (\<lambda>_. Inl ''unknown op tag''))"

primrec decode_ops :: "usize \<Rightarrow> Op list reader" where
  "decode_ops 0 = yields []"
| "decode_ops (Suc n) = and_then decode_op (\<lambda>op. and_then (decode_ops n) (\<lambda>ops. yields (op # ops)))"

definition encode_effect :: "canonical_effect \<Rightarrow> byte list" where
  "encode_effect effect = effect_encode effect"

definition decode_effect :: "byte list \<Rightarrow> string + canonical_effect" where
  "decode_effect blob =
     (case cursor_u32 (cursor_new blob) of
        Inl e \<Rightarrow> Inl e
      | Inr (n, c) \<Rightarrow>
          if n > length blob then Inl ''op count exceeds blob length''
          else case decode_ops n c of
            Inl e \<Rightarrow> Inl e
          | Inr (ops, c) \<Rightarrow>
              if \<not> cursor_is_empty c then Inl ''trailing bytes after ops''
              else Inr (effect_new ops))"

section \<open>The contract of a reader\<close>

lemma yields_iff [simp]: "yields v c = Inr (w, c') \<longleftrightarrow> w = v \<and> c' = c"
  by (auto simp: yields_def)

lemma and_then_iff: "and_then r f c = Inr x \<longleftrightarrow> (\<exists>v d. r c = Inr (v, d) \<and> f v d = Inr x)"
  by (auto simp: and_then_def split: sum.splits)

definition rest :: "cursor \<Rightarrow> byte list" where
  "rest c = drop (cur_pos c) (cur_buf c)"

definition advance :: "nat \<Rightarrow> cursor \<Rightarrow> cursor" where
  "advance n c = c\<lparr>cur_pos := cur_pos c + n\<rparr>"

lemma rest_advance [simp]: "rest (advance n c) = drop n (rest c)"
  by (simp add: rest_def advance_def add.commute)

lemma advance_advance [simp]: "advance m (advance n c) = advance (n + m) c"
  by (simp add: advance_def add.assoc)

lemma rest_new [simp]: "rest (cursor_new buf) = buf"
  by (simp add: rest_def cursor_new_def)

lemma empty_rest: "cursor_is_empty c \<longleftrightarrow> rest c = []"
  by (simp add: cursor_is_empty_def rest_def)

text \<open>
  A reader and its writer agree: the reader returns a valid value exactly when the writer's bytes for it
  come next, and consumes just those.
\<close>

locale wire_codec =
  fixes rd :: "('e, 'a) parser"
    and writer :: "'a \<Rightarrow> byte list"
    and valid :: "'a \<Rightarrow> bool"
  assumes read_iff: "rd c = Inr (v, c') \<longleftrightarrow>
    valid v \<and> c' = advance (length (writer v)) c \<and> (\<exists>bs. rest c = writer v @ bs)"
begin

lemma read_write: "valid v \<Longrightarrow> rest c = writer v @ bs \<Longrightarrow> rd c = Inr (v, advance (length (writer v)) c)"
  by (auto simp: read_iff)

lemma then_iff:
  "and_then rd f c = Inr (w, c') \<longleftrightarrow>
     (\<exists>v bs. valid v \<and> rest c = writer v @ bs \<and> f v (advance (length (writer v)) c) = Inr (w, c'))"
proof
  assume "and_then rd f c = Inr (w, c')"
  then obtain v d where "rd c = Inr (v, d)" "f v d = Inr (w, c')"
    by (auto simp: and_then_def split: sum.splits)
  then show "\<exists>v bs. valid v \<and> rest c = writer v @ bs \<and> f v (advance (length (writer v)) c) = Inr (w, c')"
    by (auto simp: read_iff)
next
  assume "\<exists>v bs. valid v \<and> rest c = writer v @ bs \<and> f v (advance (length (writer v)) c) = Inr (w, c')"
  then show "and_then rd f c = Inr (w, c')"
    by (auto simp: and_then_def read_write)
qed

end

text \<open>
  Every reader of a cursor takes a fixed number of bytes and decodes them bijectively; a reader of bytes is
  described by what it does when they are there.
\<close>

definition takes :: "nat \<Rightarrow> ('e, byte list) parser \<Rightarrow> bool" where
  "takes n tk \<longleftrightarrow> (\<forall>c bs d. tk c = Inr (bs, d) \<longleftrightarrow> n \<le> length (rest c) \<and> bs = take n (rest c) \<and> d = advance n c)"

lemma takes_codec:
  assumes "takes n tk" "\<And>v. valid v \<Longrightarrow> length (enc v) = n \<and> dec (enc v) = v"
    and "\<And>bs. length bs = n \<Longrightarrow> valid (dec bs) \<and> enc (dec bs) = bs"
  shows "wire_codec (and_then tk (\<lambda>s. yields (dec s))) enc valid"
proof
  fix c c' v
  have read: "and_then tk (\<lambda>s. yields (dec s)) c = Inr (v, c') \<longleftrightarrow>
      n \<le> length (rest c) \<and> v = dec (take n (rest c)) \<and> c' = advance n c"
    using assms(1) by (auto simp: and_then_iff takes_def)
  show "and_then tk (\<lambda>s. yields (dec s)) c = Inr (v, c') \<longleftrightarrow>
      valid v \<and> c' = advance (length (enc v)) c \<and> (\<exists>bs. rest c = enc v @ bs)"
  proof
    assume "and_then tk (\<lambda>s. yields (dec s)) c = Inr (v, c')"
    then have *: "n \<le> length (rest c)" "v = dec (take n (rest c))" "c' = advance n c" by (simp_all add: read)
    then have "valid v \<and> enc v = take n (rest c)" using assms(3) [of "take n (rest c)"] by simp
    with * show "valid v \<and> c' = advance (length (enc v)) c \<and> (\<exists>bs. rest c = enc v @ bs)"
      by (auto intro: exI [of _ "drop n (rest c)"])
  next
    assume *: "valid v \<and> c' = advance (length (enc v)) c \<and> (\<exists>bs. rest c = enc v @ bs)"
    with assms(2) [of v] show "and_then tk (\<lambda>s. yields (dec s)) c = Inr (v, c')" unfolding read by auto
  qed
qed

lemma takes_be_codec:
  assumes "takes n tk" "\<And>v. valid v \<longleftrightarrow> v < 256 ^ n"
  shows "wire_codec (and_then tk (\<lambda>s. yields (be_nat s))) (be_bytes n) valid"
proof (rule takes_codec [OF assms(1)])
  show "length (be_bytes n v) = n \<and> be_nat (be_bytes n v) = v" if "valid v" for v
    using that assms(2) by (simp add: be_nat_be_bytes)
  show "valid (be_nat bs) \<and> be_bytes n (be_nat bs) = bs" if "length bs = n" for bs
    using that be_nat_bound [of bs] assms(2) by (simp add: be_bytes_be_nat)
qed

lemma takes_cursor: "0 < n \<Longrightarrow> takes n (cursor_take n)"
  by (auto simp: takes_def cursor_take_def rest_def advance_def)

lemmas fixed_width_codec = takes_codec [OF takes_cursor]
lemmas be_codec = takes_be_codec [OF takes_cursor]

interpretation u8_codec: wire_codec cursor_u8 "\<lambda>v. [of_nat v]" "\<lambda>v. v < 256"
  unfolding cursor_u8_def
  by (rule fixed_width_codec) (auto simp: unat_of_nat length_Suc_conv unat_byte_lt)

interpretation u32_codec: wire_codec cursor_u32 "be_bytes 4" "\<lambda>v. v < 2 ^ 32"
  unfolding cursor_u32_def by (rule be_codec) simp_all

interpretation u64_codec: wire_codec cursor_u64 u64_bytes "\<lambda>v. v \<le> U64_MAX"
  unfolding cursor_u64_def u64_bytes_def [abs_def] by (rule be_codec) (auto simp: U64_MAX_def)

interpretation u128_codec: wire_codec cursor_u128 u128_bytes "\<lambda>v. v \<le> U128_MAX"
  unfolding cursor_u128_def u128_bytes_def [abs_def] by (rule be_codec) (auto simp: U128_MAX_def)

interpretation addr_codec: wire_codec cursor_addr addr_bytes "\<lambda>_. True"
  unfolding cursor_addr_def
  by (rule fixed_width_codec) (simp_all add: addr_bytes_addr_of)

interpretation hash_codec: wire_codec cursor_hash hash_bytes "\<lambda>_. True"
  unfolding cursor_hash_def
  by (rule fixed_width_codec) (simp_all add: hash_bytes_hash_of)

section \<open>Operations and effects\<close>

text \<open>The fields of an operation are machine integers of their width.\<close>

primrec op_ok :: "Op \<Rightarrow> bool" where
  "op_ok (Transfer to amount) \<longleftrightarrow> amount \<le> U128_MAX"
| "op_ok (Refund party amount) \<longleftrightarrow> amount \<le> U128_MAX"
| "op_ok (OpenStream to rate deposit) \<longleftrightarrow> rate \<le> U128_MAX \<and> deposit \<le> U128_MAX"
| "op_ok (StopStream sid) \<longleftrightarrow> sid \<le> U64_MAX"
| "op_ok (SetVar k v) \<longleftrightarrow> True"
| "op_ok (Abort r) \<longleftrightarrow> True"

definition op_bytes :: "Op \<Rightarrow> byte list" where
  "op_bytes op = of_nat (op_tag op) # op_fields op"

lemmas reader_iffs =
  u8_codec.then_iff u64_codec.then_iff u128_codec.then_iff addr_codec.then_iff hash_codec.then_iff

text \<open>Each reader as a function of the remaining bytes.\<close>

lemma take_rest:
  "0 < n \<Longrightarrow> cursor_take n c = (if n \<le> length (rest c) then Inr (take n (rest c), advance n c)
      else Inl ''unexpected end of ops blob'')"
  by (auto simp: cursor_take_def rest_def advance_def)

lemma u128_bytes_facts [simp]:
  "length (u128_bytes n) = 16" "n \<le> U128_MAX \<Longrightarrow> be_nat (u128_bytes n) = n"
  "length (u64_bytes k) = 8" "k \<le> U64_MAX \<Longrightarrow> be_nat (u64_bytes k) = k"
  by (simp_all add: u128_bytes_def u64_bytes_def be_nat_be_bytes U128_MAX_def U64_MAX_def)

lemma op_tag_lt: "op_tag op \<le> 5"
  by (cases op) simp_all

interpretation op_codec: wire_codec decode_op op_bytes op_ok
proof
  fix c c' op
  show "decode_op c = Inr (op, c') \<longleftrightarrow>
      op_ok op \<and> c' = advance (length (op_bytes op)) c \<and> (\<exists>bs. rest c = op_bytes op @ bs)"
  proof
    assume "decode_op c = Inr (op, c')"
    then show "op_ok op \<and> c' = advance (length (op_bytes op)) c \<and> (\<exists>bs. rest c = op_bytes op @ bs)"
      by (auto simp: decode_op_def reader_iffs op_bytes_def split: if_splits)
  next
    assume "op_ok op \<and> c' = advance (length (op_bytes op)) c \<and> (\<exists>bs. rest c = op_bytes op @ bs)"
    then obtain bs where "op_ok op" "c' = advance (length (op_bytes op)) c" "rest c = op_bytes op @ bs"
      by blast
    then show "decode_op c = Inr (op, c')"
      by (cases op) (simp_all add: decode_op_def and_then_def cursor_u8_def cursor_addr_def cursor_u128_def
          cursor_u64_def cursor_hash_def take_rest yields_def op_bytes_def)
  qed
qed

text \<open>A counted list of operations.\<close>

lemma decode_ops_iff:
  "decode_ops n c = Inr (ops, c') \<longleftrightarrow>
     length ops = n \<and> list_all op_ok ops \<and> c' = advance (length (concat (map op_bytes ops))) c
     \<and> (\<exists>bs. rest c = concat (map op_bytes ops) @ bs)"
proof (induction n arbitrary: c ops)
  case 0
  have "advance 0 c = c" by (simp add: advance_def)
  then show ?case by auto
next
  case (Suc n)
  have step: "decode_ops (Suc n) c = Inr (ops, c') \<longleftrightarrow>
    (\<exists>op os. ops = op # os \<and> op_ok op \<and> (\<exists>bs. rest c = op_bytes op @ bs)
       \<and> decode_ops n (advance (length (op_bytes op)) c) = Inr (os, c'))"
    by (simp add: op_codec.then_iff and_then_iff [of "decode_ops n"]) blast
  show ?case
    unfolding step Suc.IH by (cases ops) auto
qed

lemma encode_ops_eq: "encode_ops ops = be_bytes 4 (length ops) @ concat (map op_bytes ops)"
proof -
  have "foldl (\<lambda>buf op. encode_into op buf) acc ops = acc @ concat (map op_bytes ops)" for acc
    by (induction ops arbitrary: acc) (simp_all add: encode_into_def op_bytes_def)
  then show ?thesis by (simp add: encode_ops_def)
qed

lemma ops_length: "length ops \<le> length (concat (map op_bytes ops))"
  by (induction ops) (simp_all add: op_bytes_def)

lemma decode_effect_iff:
  "decode_effect blob = Inr e \<longleftrightarrow>
     (\<exists>ops. e = effect_new ops \<and> length ops < 2 ^ 32 \<and> list_all op_ok ops \<and> blob = encode_ops ops)"
proof
  assume "decode_effect blob = Inr e"
  then obtain n c ops c' where r: "cursor_u32 (cursor_new blob) = Inr (n, c)" "decode_ops n c = Inr (ops, c')"
    "cursor_is_empty c'" "e = effect_new ops"
    by (auto simp: decode_effect_def split: sum.splits if_splits)
  from r(1) obtain bs where n: "n < 2 ^ 32" "c = advance 4 (cursor_new blob)" "blob = be_bytes 4 n @ bs"
    by (auto simp: u32_codec.read_iff)
  from r(2) n have ops: "length ops = n" "list_all op_ok ops" "c' = advance (length (concat (map op_bytes ops))) c"
    "\<exists>bs'. bs = concat (map op_bytes ops) @ bs'"
    unfolding decode_ops_iff by auto
  have "bs = concat (map op_bytes ops)"
    using r(3) ops(3,4) n by (auto simp: empty_rest)
  then show "\<exists>ops. e = effect_new ops \<and> length ops < 2 ^ 32 \<and> list_all op_ok ops \<and> blob = encode_ops ops"
    using r(4) n ops(1,2) by (intro exI [of _ ops]) (simp add: encode_ops_eq)
next
  assume "\<exists>ops. e = effect_new ops \<and> length ops < 2 ^ 32 \<and> list_all op_ok ops \<and> blob = encode_ops ops"
  then obtain ops where e: "e = effect_new ops" "length ops < 2 ^ 32" "list_all op_ok ops" "blob = encode_ops ops"
    by blast
  let ?c = "advance 4 (cursor_new blob)" and ?bs = "concat (map op_bytes ops)"
  have "cursor_u32 (cursor_new blob) = Inr (length ops, ?c)"
    using u32_codec.read_write [of "length ops" "cursor_new blob" ?bs] e(2,4) by (simp add: encode_ops_eq)
  moreover have "decode_ops (length ops) ?c = Inr (ops, advance (length ?bs) ?c)"
    unfolding decode_ops_iff using e(3,4) by (simp add: encode_ops_eq)
  moreover have "length ops \<le> length blob" "cursor_is_empty (advance (length ?bs) ?c)"
    using e(4) ops_length [of ops] by (simp_all add: encode_ops_eq empty_rest)
  ultimately show "decode_effect blob = Inr e"
    using e(1) by (simp add: decode_effect_def)
qed

text \<open>
  C22: The effect codec is a bijection between effects and accepted blobs: decoding an encoded effect gives
  it back, with its digest recomputed, and a blob that decodes is the encoding of what it decodes to, so
  no two blobs carry the same effect and no malformed, padded or truncated blob is accepted.
\<close>
theorem effect_codec_bijective:
  assumes "length ops < 2 ^ 32" "list_all op_ok ops"
  shows "decode_effect (encode_effect (effect_new ops)) = Inr (effect_new ops)
    \<and> (\<forall>blob e. decode_effect blob = Inr e \<longrightarrow>
         encode_effect e = blob \<and> e = effect_new (ef_ops e) \<and> list_all op_ok (ef_ops e))"
proof -
  have enc: "encode_effect (effect_new os) = encode_ops os" "ef_ops (effect_new os) = os" for os
    by (simp_all add: encode_effect_def effect_encode_def effect_new_def)
  show ?thesis
    using assms by (auto simp: decode_effect_iff enc)
qed

theorem effect_codec_bijective_witness:
  "decode_effect (encode_effect (effect_new [Refund 7 40, StopStream 3])) = Inr (effect_new [Refund 7 40, StopStream 3])"
  using effect_codec_bijective [of "[Refund 7 40, StopStream 3]"] by (simp add: U128_MAX_def U64_MAX_def)

end
