(* ===== verification/Kernel.thy ===== *)
theory Kernel
  imports Contract_Invariant Zk_Lifecycle
begin

text \<open>
  The shared apply kernel (\<^verbatim>\<open>crates/exec/src/apply.rs\<close> and the operation model of
  \<^verbatim>\<open>crates/exec/src/op.rs\<close>): a decoded transaction, its gas, the fee, the dispatch to the runtime
  operation, the post-state of a failed transaction, the two sweeps, and the application of a block's
  ordered transactions. The oracle, the interpreter, the verifier and Keccak-256 are fields of the
  environment. Errors that the source renders to strings are kept as the values they render. An
  outer \<open>None\<close> is a panic inside the contract engine.
\<close>

unbundle bit_operations_syntax

section \<open>Transactions\<close>

definition STREAM_HUB :: address where [const_defs]: "STREAM_HUB = 0x5742"
definition HUMANITY_HUB :: address where [const_defs]: "HUMANITY_HUB = 0x5048"

datatype KernelKind =
    KTransfer address u128
  | KOpenStream address u128 u128
  | KStopStream stream_id
  | KRequestVerification hash
  | KVouch address
  | KChallenge address hash
  | KSubmitVerdict u64 canonical_verdict
  | KSubmitZkPassportProof "byte list" "hash list" u8 "byte list"
  | KRegisterCsca "byte list" hash "byte list"
  | KRevokeCsca hash
  | KPinSelfIdentityRoot hash
  | KPinSelfOfacRoot u8 hash
  | KRetireSelfRoot hash
  | KDeployContract "byte list" "address list"
  | KFundContract contract_id
  | KInvokeContract contract_id hash
  | KSubmitEffect exec_case_id canonical_effect

fun kernel_gas :: "KernelKind \<Rightarrow> u64" where
  "kernel_gas (KTransfer _ _) = GAS_TRANSFER"
| "kernel_gas (KOpenStream _ _ _) = GAS_STREAM"
| "kernel_gas (KStopStream _) = GAS_STREAM"
| "kernel_gas (KRequestVerification _) = GAS_ONBOARD"
| "kernel_gas (KVouch _) = GAS_HUMANITY"
| "kernel_gas (KChallenge _ _) = GAS_HUMANITY"
| "kernel_gas (KSubmitVerdict _ _) = GAS_HUMANITY"
| "kernel_gas (KSubmitZkPassportProof _ _ _ _) = GAS_ZKPOH"
| "kernel_gas (KRegisterCsca _ _ _) = GAS_CSCA_GOV"
| "kernel_gas (KRevokeCsca _) = GAS_CSCA_GOV"
| "kernel_gas (KPinSelfIdentityRoot _) = GAS_CSCA_GOV"
| "kernel_gas (KPinSelfOfacRoot _ _) = GAS_CSCA_GOV"
| "kernel_gas (KRetireSelfRoot _) = GAS_CSCA_GOV"
| "kernel_gas (KDeployContract text _) = gas_for_deploy (length text)"
| "kernel_gas (KFundContract _) = GAS_CONTRACT"
| "kernel_gas (KInvokeContract _ _) = GAS_CONTRACT"
| "kernel_gas (KSubmitEffect _ _) = GAS_CONTRACT"

record kernel_tx =
  tx_hash :: hash
  tx_from :: address
  tx_nonce :: u64
  tx_value :: u128
  tx_kind :: KernelKind

record kernel_env =
  ke_keccak256 :: "byte list \<Rightarrow> hash"
  ke_oracle :: humanity_oracle
  ke_interpreter :: interpreter
  ke_verifier :: zk_verifier

record block_ctx =
  bc_timestamp :: u64
  bc_number :: u64
  bc_block_hash :: hash

datatype OpResult = NoResult | StreamId stream_id | CaseId u64 | AssuranceLevel Assurance

datatype kernel_error =
    InvalidNonce u64 u64          \<comment> \<open>expected, got\<close>
  | TransferErr TransferError
  | StreamErr StreamError
  | LifecycleErr LifecycleError
  | ZkErr ZkPohError
  | GovErr CscaGovError
  | ContractErr ContractError

record op_outcome =
  oo_success :: bool
  oo_revert_reason :: "kernel_error option"
  oo_result :: OpResult

section \<open>Derived inputs\<close>

definition block_entropy :: "hash \<Rightarrow> u64 \<Rightarrow> u64" where
  "block_entropy block_hash number =
     unat ((of_nat (be_nat (take 8 (hash_bytes block_hash))) :: 64 word) XOR of_nat number)"

definition derive_liveness :: "(byte list \<Rightarrow> hash) \<Rightarrow> hash \<Rightarrow> byte list \<times> byte list" where
  "derive_liveness keccak256 liveness_ref =
     (hash_bytes (keccak256 (ascii ''ubi2-liveness-challenge'' @ hash_bytes liveness_ref)),
      hash_bytes (keccak256 (ascii ''ubi2-liveness-response'' @ hash_bytes liveness_ref)))"

definition derive_trigger :: "(byte list \<Rightarrow> hash) \<Rightarrow> hash \<Rightarrow> byte list" where
  "derive_trigger keccak256 trigger_ref =
     hash_bytes (keccak256 (ascii ''ubi2-contract-trigger'' @ hash_bytes trigger_ref))"

definition text_commitment :: "(byte list \<Rightarrow> hash) \<Rightarrow> byte list \<Rightarrow> hash" where
  "text_commitment keccak256 text = keccak256 text"

section \<open>Applying one transaction\<close>

definition consume_nonce ::
    "mem_state \<Rightarrow> address \<Rightarrow> u64 \<Rightarrow> u64 \<Rightarrow> (kernel_error + unit) \<times> mem_state" where
  "consume_nonce s frm nonce now =
     (let acct = settle (get_or_new s frm) now
      in if nonce \<noteq> acc_nonce acct then (Inl (InvalidNonce (acc_nonce acct) nonce), s)
         else (Inr (), put s (acct\<lparr>acc_nonce := incr64 (acc_nonce acct)\<rparr>)))"

text \<open>The idioms \<^verbatim>\<open>.map(..).map_err(..)\<close> on an operation's result.\<close>

definition lift_result ::
    "('a \<Rightarrow> OpResult) \<Rightarrow> ('e \<Rightarrow> kernel_error) \<Rightarrow> ('e + 'a) \<times> mem_state \<Rightarrow> (kernel_error + OpResult) \<times> mem_state" where
  "lift_result f g r = (case r of (Inl e, s) \<Rightarrow> (Inl (g e), s) | (Inr v, s) \<Rightarrow> (Inr (f v), s))"

text \<open>\<^verbatim>\<open>consume_nonce(..).and_then(|()| ..)\<close>: the operation runs only when the nonce matched.\<close>

definition after_nonce ::
    "block_ctx \<Rightarrow> mem_state \<Rightarrow> kernel_tx \<Rightarrow> (mem_state \<Rightarrow> ((kernel_error + OpResult) \<times> mem_state) option)
      \<Rightarrow> ((kernel_error + OpResult) \<times> mem_state) option" where
  "after_nonce ctx s tx f =
     (case consume_nonce s (tx_from tx) (tx_nonce tx) (bc_timestamp ctx) of
        (Inl e, s) \<Rightarrow> Some (Inl e, s)
      | (Inr _, s) \<Rightarrow> f s)"

text \<open>The dispatch on the kind. Transfers and funding check the nonce themselves.\<close>

fun apply_one ::
    "kernel_env \<Rightarrow> block_ctx \<Rightarrow> mem_state \<Rightarrow> kernel_tx \<Rightarrow> KernelKind \<Rightarrow> ((kernel_error + OpResult) \<times> mem_state) option" where
  "apply_one env ctx s tx (KTransfer to val) =
     Some (lift_result (\<lambda>_. NoResult) TransferErr
       (apply_transfer s (tx_from tx) to val (tx_nonce tx) (bc_timestamp ctx)))"
| "apply_one env ctx s tx (KOpenStream to rate deposit) =
     after_nonce ctx s tx (\<lambda>s.
       Some (lift_result StreamId StreamErr (open_stream s (tx_from tx) to rate deposit (bc_timestamp ctx))))"
| "apply_one env ctx s tx (KStopStream sid) =
     after_nonce ctx s tx (\<lambda>s.
       Some (lift_result (\<lambda>_. NoResult) StreamErr (stop_stream s sid (tx_from tx) (bc_timestamp ctx))))"
| "apply_one env ctx s tx (KRequestVerification liveness_ref) =
     after_nonce ctx s tx (\<lambda>s.
       (let (challenge_bytes, response_bytes) = derive_liveness (ke_keccak256 env) liveness_ref;
            evidence = \<lparr>le_liveness_ref = liveness_ref, le_challenge = challenge_bytes,
                        le_response = response_bytes\<rparr>;
            entropy = block_entropy (bc_block_hash ctx) (bc_number ctx)
        in Some (lift_result CaseId LifecycleErr
             (request_verification s (ke_oracle env) (tx_from tx) evidence entropy (bc_number ctx)))))"
| "apply_one env ctx s tx (KVouch vouchee) =
     after_nonce ctx s tx (\<lambda>s.
       Some (lift_result (\<lambda>_. NoResult) LifecycleErr (vouch s (tx_from tx) vouchee (bc_number ctx))))"
| "apply_one env ctx s tx (KChallenge subject evidence_ref) =
     after_nonce ctx s tx (\<lambda>s.
       Some (lift_result CaseId LifecycleErr
         (challenge s (tx_from tx) subject evidence_ref
           (block_entropy (bc_block_hash ctx) (bc_number ctx)) (bc_number ctx))))"
| "apply_one env ctx s tx (KSubmitVerdict case_id verdict) =
     after_nonce ctx s tx (\<lambda>s.
       Some (lift_result (\<lambda>_. CaseId case_id) LifecycleErr
         (submit_verdict s case_id (tx_from tx) verdict (bc_number ctx))))"
| "apply_one env ctx s tx (KSubmitZkPassportProof proof signals scheme_tag user_context_data) =
     after_nonce ctx s tx (\<lambda>s.
       Some (lift_result AssuranceLevel ZkErr
         (submit_zk_passport_proof s (ke_verifier env) (tx_from tx)
           \<lparr>zs_proof = proof, zs_signals = signals, zs_scheme_tag = scheme_tag,
            zs_user_context_data = user_context_data\<rparr> (bc_timestamp ctx) (bc_number ctx))))"
| "apply_one env ctx s tx (KRegisterCsca country_code key_id pubkey) =
     after_nonce ctx s tx (\<lambda>s.
       Some (lift_result (\<lambda>_. NoResult) GovErr
         (register_csca s (tx_from tx) country_code key_id pubkey (bc_number ctx))))"
| "apply_one env ctx s tx (KRevokeCsca key_id) =
     after_nonce ctx s tx (\<lambda>s.
       Some (lift_result (\<lambda>_. NoResult) GovErr (revoke_csca s (tx_from tx) key_id)))"
| "apply_one env ctx s tx (KPinSelfIdentityRoot root) =
     after_nonce ctx s tx (\<lambda>s.
       Some (lift_result (\<lambda>_. NoResult) GovErr (pin_self_identity_root s (tx_from tx) root (bc_number ctx))))"
| "apply_one env ctx s tx (KPinSelfOfacRoot kind root) =
     after_nonce ctx s tx (\<lambda>s.
       Some (lift_result (\<lambda>_. NoResult) GovErr (pin_self_ofac_root s (tx_from tx) kind root (bc_number ctx))))"
| "apply_one env ctx s tx (KRetireSelfRoot root) =
     after_nonce ctx s tx (\<lambda>s.
       Some (lift_result (\<lambda>_. NoResult) GovErr (retire_self_root s (tx_from tx) root)))"
| "apply_one env ctx s tx (KDeployContract text parties) =
     after_nonce ctx s tx (\<lambda>s.
       (case deploy_contract s text (text_commitment (ke_keccak256 env) text) parties of
          (Inl e, s) \<Rightarrow> Some (Inl (ContractErr e), s)
        | (Inr cid, s) \<Rightarrow>
            Some (Inr (CaseId cid),
              case get_contract s cid of
                None \<Rightarrow> s
              | Some c \<Rightarrow> put_contract s (c\<lparr>pc_deploy_block := bc_number ctx, pc_deploy_tx := tx_hash tx\<rparr>))))"
| "apply_one env ctx s tx (KFundContract cid) =
     Some (lift_result (\<lambda>_. NoResult) ContractErr
       (fund_contract s (tx_from tx) cid (tx_value tx) (tx_nonce tx) (bc_timestamp ctx)))"
| "apply_one env ctx s tx (KInvokeContract cid trigger_ref) =
     after_nonce ctx s tx (\<lambda>s.
       map_option (lift_result CaseId ContractErr)
         (invoke_contract s (ke_interpreter env) cid trigger_ref
           (derive_trigger (ke_keccak256 env) trigger_ref) (tx_from tx)
           (block_entropy (bc_block_hash ctx) (bc_number ctx)) (bc_number ctx) (bc_timestamp ctx)))"
| "apply_one env ctx s tx (KSubmitEffect case_id effect) =
     after_nonce ctx s tx (\<lambda>s.
       map_option (lift_result (\<lambda>_. CaseId case_id) ContractErr)
         (submit_effect s case_id (tx_from tx) effect (bc_number ctx) (bc_timestamp ctx)))"

text \<open>The result is \<open>None\<close> inside for a transaction whose sender cannot pay the fee: it is dropped.\<close>

definition apply_tx ::
    "kernel_env \<Rightarrow> block_ctx \<Rightarrow> mem_state \<Rightarrow> kernel_tx \<Rightarrow> (op_outcome option \<times> mem_state) option" where
  "apply_tx env ctx s tx =
     (case charge_fee s (tx_from tx) (kernel_gas (tx_kind tx)) (bc_timestamp ctx) of
        (Inl _, s) \<Rightarrow> Some (None, s)
      | (Inr _, s) \<Rightarrow>
          (case apply_one env ctx s tx (tx_kind tx) of
             None \<Rightarrow> None
           | Some (Inr result, s) \<Rightarrow>
               Some (Some \<lparr>oo_success = True, oo_revert_reason = None, oo_result = result\<rparr>, s)
           | Some (Inl e, s) \<Rightarrow>
               let acct = settle (get_or_new s (tx_from tx)) (bc_timestamp ctx);
                   acct = acct\<lparr>acc_nonce := incr64 (tx_nonce tx)\<rparr>
               in Some (Some \<lparr>oo_success = False, oo_revert_reason = Some e, oo_result = NoResult\<rparr>,
                    put s acct)))"

section \<open>Sweeps and blocks\<close>

definition pending_humans :: "mem_state \<Rightarrow> address list" where
  "pending_humans s = map hu_address (filter (\<lambda>h. hu_status h = Pending) (humans s))"

definition scan_one :: "kernel_env \<Rightarrow> hash \<Rightarrow> u64 \<Rightarrow> address \<Rightarrow> mem_state \<Rightarrow> mem_state" where
  "scan_one env block_hash now_block subject s =
     (if cv_verdict (analyze_sybil (ke_oracle env) (state_graph_view s) subject) \<noteq> VSybil then s
      else
        let evidence_ref = ke_keccak256 env
              (ascii ''sybil-scan'' @ addr_bytes subject @ hash_bytes block_hash);
            entropy = block_entropy block_hash now_block
        in snd (system_challenge s HUMANITY_HUB subject evidence_ref entropy now_block))"

definition sweep_sybil_scan :: "kernel_env \<Rightarrow> mem_state \<Rightarrow> hash \<Rightarrow> u64 \<Rightarrow> mem_state" where
  "sweep_sybil_scan env s block_hash now_block =
     fold (scan_one env block_hash now_block) (pending_humans s) s"

definition sweep_finalize :: "mem_state \<Rightarrow> u64 \<Rightarrow> u64 \<Rightarrow> mem_state" where
  "sweep_finalize s now_block verified_at_secs =
     fold (\<lambda>subject s. snd (finalize_registration s subject now_block verified_at_secs))
       (pending_humans s) s"

definition run_sweeps :: "kernel_env \<Rightarrow> block_ctx \<Rightarrow> mem_state \<Rightarrow> mem_state" where
  "run_sweeps env ctx s =
     sweep_finalize (sweep_sybil_scan env s (bc_block_hash ctx) (bc_number ctx))
       (bc_number ctx) (bc_timestamp ctx)"

fun apply_txs ::
    "kernel_env \<Rightarrow> block_ctx \<Rightarrow> mem_state \<Rightarrow> kernel_tx list \<Rightarrow> (op_outcome list \<times> mem_state) option" where
  "apply_txs env ctx s [] = Some ([], s)"
| "apply_txs env ctx s (tx # txs) =
     (case apply_tx env ctx s tx of
        None \<Rightarrow> None
      | Some (outcome, s) \<Rightarrow>
          map_option (\<lambda>(outcomes, s). (case outcome of None \<Rightarrow> outcomes | Some out \<Rightarrow> out # outcomes, s))
            (apply_txs env ctx s txs))"

definition apply_ops ::
    "kernel_env \<Rightarrow> block_ctx \<Rightarrow> mem_state \<Rightarrow> kernel_tx list \<Rightarrow> (op_outcome list \<times> mem_state) option" where
  "apply_ops env ctx s ops =
     map_option (\<lambda>(outcomes, s). (outcomes, run_sweeps env ctx s)) (apply_txs env ctx s ops)"

end
