(* ===== verification/Kernel_Invariant.thy ===== *)
theory Kernel_Invariant
  imports Kernel
begin

text \<open>
  What one transaction and the sweeps do to the invariants and to the value in the system.
  \<open>tame now s s'\<close> is the footprint of a registry operation: it moves no money, and at most
  forfeits emission that was pending. With the footprints of the ledger and of the contract engine
  this gives \<open>sound now\<close>, the relation every transaction is in: the invariants hold afterwards and no
  value was created.
\<close>

section \<open>Registry operations move no money\<close>

definition ledger_part where
  "ledger_part s = (ms_accounts s, ms_streams s, ms_contracts s, ms_next_contract_id s,
     ms_exec_cases s, ms_next_id s)"

definition tame :: "u64 \<Rightarrow> mem_state \<Rightarrow> mem_state \<Rightarrow> bool" where
  "tame now s s' \<longleftrightarrow> settled s' = settled s \<and> wealth now s' \<le> wealth now s
     \<and> ms_contracts s' = ms_contracts s \<and> ms_next_contract_id s' = ms_next_contract_id s
     \<and> ms_exec_cases s' = ms_exec_cases s \<and> ms_next_id s' = ms_next_id s"

lemma ledger_part_frame [simp]:
  "ledger_part (put_human s h) = ledger_part s" "ledger_part (put_case s c) = ledger_part s"
  "ledger_part (clear_vouch_edges s a) = ledger_part s" "ledger_part (put_vouch s v) = ledger_part s"
  "ledger_part (record_challenge_cleared s a b) = ledger_part s"
  "ledger_part (s\<lparr>ms_next_case_id := n\<rparr>) = ledger_part s"
  "ledger_part (put_nullifier s k) = ledger_part s"
  "ledger_part (put_attribute_commitments s a cs) = ledger_part s"
  "ledger_part (put_csca s e) = ledger_part s" "ledger_part (put_self_identity_root s i) = ledger_part s"
  "ledger_part (put_self_ofac_root s o') = ledger_part s" "ledger_part (retire_root s k) = ledger_part s"
  by (simp_all add: ledger_part_def state_defs clear_vouch_edges_def put_vouch_def)

lemma ledger_part_same:
  assumes "ledger_part s' = ledger_part s"
  shows "get s' = get s" "get_or_new s' = get_or_new s" "cache_at s' = cache_at s"
    "wealth now s' = wealth now s" "settled s' = settled s"
  using assms
  by (simp_all add: ledger_part_def fun_eq_iff get_def get_or_new_def cache_at_def wealth_def settled_def)

lemma tame_part: "ledger_part s' = ledger_part s \<Longrightarrow> tame now s s'"
  using ledger_part_same [of s' s] by (simp add: tame_def ledger_part_def)

lemma tame_trans: "tame now s t \<Longrightarrow> tame now t u \<Longrightarrow> tame now s u"
  by (auto simp: tame_def)

text \<open>
  Flipping the emission flags creates nothing when the new epoch is not before \<open>now\<close> or is the one
  the account has already.
\<close>

lemma tame_sync:
  assumes addr: "acc_address (get_or_new s a) = a" and epoch: "v \<Longrightarrow> now \<le> t \<or> cache_at s a = Some t"
  shows "tame now s (sync_account_verified s a v t)"
proof -
  let ?x = "(get_or_new s a)\<lparr>acc_verified := v, acc_verified_at := t\<rparr>"
  have "pending_emission ?x now \<le> pending_emission (get_or_new s a) now"
    using epoch
    by (auto simp: pending_emission_def Let_def cache_at_def sat_mul128_def split: if_splits)
  then have "acc_balance ?x now \<le> bal s a now"
    by (simp add: acc_balance_def sat_add128_mono)
  then have "wealth now (put s ?x) \<le> wealth now s"
    using wealth_put [of now s ?x] addr by simp
  then show ?thesis
    using addr by (auto simp: tame_def sync_account_verified_def settled_def put_def fun_eq_iff get_or_new_def
        get_def split: option.split)
qed

lemma slashes_part: "ledger_part (fold (slash n) vs s) = ledger_part s"
proof (induction vs arbitrary: s)
  case (Cons v vs)
  have "ledger_part (slash n v s) = ledger_part s" by (simp add: slash_def split: option.split)
  with Cons show ?case by simp
qed simp

lemma slash_part [simp]: "ledger_part (slash n a s) = ledger_part s"
  using slashes_part [of n "[a]" s] by simp

lemma open_case_part [simp]: "ledger_part (snd (open_case s a b k e ent now)) = ledger_part s"
  by (simp add: open_case_def next_case_id_def Let_def)

lemma revoke_tame:
  assumes "acc_address (get_or_new s a) = a"
  shows "tame now s (revoke s a)"
proof -
  define s1 where "s1 = clear_vouch_edges (case get_human s a of
      None \<Rightarrow> s
    | Some h \<Rightarrow> put_human (fold (slash SYBIL_SLASH) (hu_vouches_in h) s)
        (h\<lparr>hu_status := Revoked, hu_verified_at := 0, hu_vouches_in := []\<rparr>)) a"
  have part: "ledger_part s1 = ledger_part s"
    by (simp add: s1_def slashes_part split: option.split)
  have eq: "revoke s a = sync_account_verified s1 a False 0"
    by (simp add: revoke_def s1_def)
  have "tame now s1 (sync_account_verified s1 a False 0)"
    using assms ledger_part_same(2) [OF part] by (intro tame_sync) simp_all
  then show ?thesis
    unfolding eq using tame_trans [OF tame_part [OF part]] by blast
qed

lemma chain_ok_address: "chain_ok s \<Longrightarrow> acc_address (get_or_new s a) = a"
  by (simp add: chain_ok_def poh_ok_account)

lemma restore_tame:
  assumes "chain_ok s"
  shows "tame now s (restore_challenged s a)"
proof (cases "\<exists>h. get_human s a = Some h \<and> hu_status h = Challenged")
  case True
  then obtain h where h: "get_human s a = Some h" "hu_status h = Challenged" by blast
  have "cache_at s a = Some (hu_verified_at h)"
    using assms h by (simp add: chain_ok_def gate_ok_def emitting_at_def emit_def)
  then have "tame now s (sync_account_verified s a True (hu_verified_at h))"
    using chain_ok_address [OF assms] by (intro tame_sync) simp_all
  then show ?thesis
    using h tame_trans [OF _ tame_part] by (simp add: restore_challenged_def)
next
  case False
  then have "restore_challenged s a = s" by (auto simp: restore_challenged_def split: option.split)
  then show ?thesis by (simp add: tame_def)
qed

lemma request_part: "ledger_part (snd (request_verification s oracle subject evidence entropy blk)) = ledger_part s"
proof (cases "open_case (clear_vouch_edges s subject) subject subject Registration (le_liveness_ref evidence) entropy blk")
  case (Pair r t)
  then have "ledger_part t = ledger_part s"
    using open_case_part [of "clear_vouch_edges s subject" subject subject Registration "le_liveness_ref evidence" entropy blk]
    by simp
  then show ?thesis
    using Pair by (auto simp: request_verification_def Let_def split: option.split HumanStatus.split sum.split)
qed

lemma vouch_part: "ledger_part (snd (vouch s a b blk)) = ledger_part s"
  by (simp add: vouch_def Let_def split: option.split)

lemma challenge_part: "ledger_part (snd (challenge_inner s c a e ent blk req)) = ledger_part s"
proof (cases "open_case s a c Challenge e ent blk")
  case (Pair r t)
  then have "ledger_part t = ledger_part s"
    using open_case_part [of s a c Challenge e ent blk] by simp
  then show "ledger_part (snd (challenge_inner s c a e ent blk req)) = ledger_part s"
    using Pair by (auto simp: challenge_inner_def Let_def split: sum.split option.split)
qed

lemma governance_part:
  "ledger_part (snd (register_csca s g cc k pub blk)) = ledger_part s"
  "ledger_part (snd (revoke_csca s g k)) = ledger_part s"
  "ledger_part (snd (pin_self_identity_root s g root blk)) = ledger_part s"
  "ledger_part (snd (pin_self_ofac_root s g kind root blk)) = ledger_part s"
  "ledger_part (snd (retire_self_root s g root)) = ledger_part s"
  by (simp_all add: register_csca_def revoke_csca_def pin_self_identity_root_def
      pin_self_ofac_root_def retire_self_root_def split: option.split)

lemmas registry_parts = request_part vouch_part challenge_part governance_part
lemmas registry_tame = registry_parts [THEN tame_part]

lemma verdict_tame:
  assumes "chain_ok s"
  shows "tame now s (snd (submit_verdict s k j v blk))"
proof (cases "\<exists>c. get_case s k = Some c \<and> cs_status c = Open \<and> j \<in> set (cs_jury c) \<and> vote_of c j = None")
  case True
  then obtain c where c: "get_case s k = Some c" "cs_status c = Open" "j \<in> set (cs_jury c)" "vote_of c j = None"
    by blast
  let ?s = "put_case s (apply_tally (c\<lparr>cs_votes := cs_votes c @ [(j, v)]\<rparr>))"
  have "case_ok c" using poh_ok_case c(1) assms by (auto simp: chain_ok_def)
  then have ok: "chain_ok ?s"
    using chain_ok_put_case [OF assms] case_ok_vote c by blast
  have base: "tame now s ?s" by (rule tame_part) simp
  have "tame now s (revoke ?s a)" "tame now s (restore_challenged ?s a)" for a
    using tame_trans [OF base revoke_tame] tame_trans [OF base restore_tame [OF ok]] chain_ok_address [OF ok] by blast+
  moreover have "tame now s (record_challenge_cleared (slash n b (restore_challenged ?s a)) b a)" for n a b
    by (rule tame_trans [OF calculation(2) tame_part]) simp
  ultimately show ?thesis
    unfolding submit_verdict_accepted [OF c] Let_def
    using base by (auto split: CaseStatus.split Verdict.split intro: tame_trans)
next
  case False
  then obtain e where "submit_verdict s k j v blk = (Inl e, s)" using submit_verdict_rejected by blast
  then show ?thesis by (simp add: tame_def)
qed

lemma finalize_tame:
  assumes "chain_ok s"
  shows "tame now s (snd (finalize_registration s a blk now))"
proof -
  have "tame now s (put_human (sync_account_verified s a True now) h)" for h
    using chain_ok_address [OF assms] by (intro tame_trans [OF tame_sync tame_part]) simp_all
  then show ?thesis
    by (auto simp: finalize_registration_def Let_def tame_def split: option.split)
qed

lemma zk_tame:
  assumes "chain_ok s"
  shows "tame now s (snd (submit_zk_passport_proof s v a sub now blk))"
proof -
  let ?pi = "\<lparr>pi_signals = zs_signals sub\<rparr>"
  let ?s = "put_attribute_commitments (put_nullifier s (pi_nullifier ?pi)) a (pi_attribute_commitments ?pi)"
  have base: "tame now s ?s" by (rule tame_part) simp
  have enh: "tame now s (put_human (sync_account_verified ?s a True now) h)" for h
    using chain_ok_address [OF assms]
    by (intro tame_trans [OF base tame_trans [OF tame_sync tame_part]]) simp_all
  have dual: "tame now s (put_human ?s h)" for h
    by (rule tame_part) simp
  show ?thesis
    using enh dual
    by (auto simp: submit_zk_cases zk_commit_def Let_def tame_def split: option.split)
qed

lemma governance_chain:
  assumes "chain_ok s"
  shows "chain_ok (snd (register_csca s g cc k pub blk))" "chain_ok (snd (revoke_csca s g k))"
    "chain_ok (snd (pin_self_identity_root s g root blk))" "chain_ok (snd (pin_self_ofac_root s g kind root blk))"
    "chain_ok (snd (retire_self_root s g root))"
proof -
  have "chain_ok (put_csca s e) = chain_ok s" "chain_ok (put_self_identity_root s i) = chain_ok s"
    "chain_ok (put_self_ofac_root s f) = chain_ok s" "chain_ok (retire_root s h) = chain_ok s" for e i f h
    by (simp_all add: chain_ok_def ledger_ok_def poh_ok_def gate_ok_def cache_at_def emitting_at_def index_ok_def
        acct_store.keys_agree_def human_store.keys_agree_def juror_store.keys_agree_def state_defs
        get_or_new_def fun_eq_iff)
  then show "chain_ok (snd (register_csca s g cc k pub blk))" "chain_ok (snd (revoke_csca s g k))"
    "chain_ok (snd (pin_self_identity_root s g root blk))" "chain_ok (snd (pin_self_ofac_root s g kind root blk))"
    "chain_ok (snd (retire_self_root s g root))"
    using assms by (simp_all add: register_csca_def revoke_csca_def pin_self_identity_root_def
        pin_self_ofac_root_def retire_self_root_def split: option.split)
qed

section \<open>Soundness of a transaction\<close>

definition sound :: "u64 \<Rightarrow> mem_state \<Rightarrow> mem_state \<Rightarrow> bool" where
  "sound now s s' \<longleftrightarrow> engine_ok s' \<and> wealth now s' \<le> wealth now s"

text \<open>A sender nobody holds the reserved keys of: not the treasury and no contract's escrow.\<close>

definition ordinary :: "address \<Rightarrow> bool" where
  "ordinary a \<longleftrightarrow> a \<noteq> TREASURY \<and> \<not> is_escrow a"

definition env_ok :: "kernel_env \<Rightarrow> bool" where
  "env_ok env \<longleftrightarrow> (\<forall>text view trigger. effect_small (ke_interpreter env text view trigger))"

text \<open>The id counters have not run out.\<close>

definition counters_left :: "mem_state \<Rightarrow> bool" where
  "counters_left s \<longleftrightarrow> ids_left s \<and> ms_next_contract_id s < U64_MAX"

definition tx_ok :: "kernel_tx \<Rightarrow> bool" where
  "tx_ok tx \<longleftrightarrow> ordinary (tx_from tx) \<and> (case tx_kind tx of KSubmitEffect _ e \<Rightarrow> effect_small e | _ \<Rightarrow> True)"

lemma sound_refl: "engine_ok s \<Longrightarrow> sound now s s"
  by (simp add: sound_def)

lemma sound_trans: "sound now s t \<Longrightarrow> sound now t u \<Longrightarrow> sound now s u"
  by (auto simp: sound_def)

lemma keeps_sound: "keeps now s s' \<Longrightarrow> sound now s s'"
  by (simp add: keeps_def sound_def)

lemma tame_sound:
  assumes "engine_ok s" "tame now s s'" "chain_ok s'"
  shows "sound now s s'"
proof -
  have "contracts_ok s'"
    using assms(1,2) by (simp add: engine_ok_def contracts_ok_def tame_def get_contract_def get_exec_case_def)
  then show ?thesis using assms by (simp add: sound_def engine_ok_def tame_def)
qed

text \<open>Settling an account and setting its nonce.\<close>

lemma nonce_write:
  assumes "engine_ok s" "now \<le> U64_MAX" "\<not> is_escrow a"
  shows "keeps now s (put s (settle (get_or_new s a) now\<lparr>acc_nonce := incr64 n\<rparr>))"
    and "counters_left (put s (settle (get_or_new s a) now\<lparr>acc_nonce := incr64 n\<rparr>)) = counters_left s"
proof -
  let ?x = "settle (get_or_new s a) now\<lparr>acc_nonce := incr64 n\<rparr>"
  have ok: "ledger_ok s" using assms(1) by (simp add: engine_ok_def chain_ok_def)
  note acct = ledger_ok_account [OF ok, of a]
  have step: "ledger_step now a 0 s (put s ?x)"
    using acct settled_le_bal [OF ok, of a now] by (intro ledger_step_put) simp_all
  have "ledger_ok (put s ?x)" using ok acct assms(2) by (simp add: ledger_ok_put account_ok_nonce)
  moreover have "wealth now (put s ?x) = wealth now s"
    using wealth_put [of now s ?x] acct by simp
  ultimately show "keeps now s (put s ?x)" using step_keeps [OF assms(1) step] assms(3) by blast
  show "counters_left (put s ?x) = counters_left s"
    by (simp add: counters_left_def ids_left_def put_def)
qed

lemma charge_keeps:
  assumes "engine_ok s" "now \<le> U64_MAX" "wealth now s \<le> U128_MAX" "ordinary frm"
  shows "keeps now s (snd (charge_fee s frm gas now))"
    and "counters_left (snd (charge_fee s frm gas now)) = counters_left s"
proof -
  have ok: "ledger_ok s" using assms(1) by (simp add: engine_ok_def chain_ok_def)
  have frm: "frm \<noteq> TREASURY" "\<not> is_escrow frm" using assms(4) by (simp_all add: ordinary_def)
  note step = charge_fee_step [OF ok assms(2,3) frm(1), of gas]
  show "keeps now s (snd (charge_fee s frm gas now))"
    by (rule step_keeps [OF assms(1) step charge_fee_sound [OF ok assms(2,3) frm(1)] frm(2)])
  have "ms_next_id (snd (charge_fee s frm gas now)) = ms_next_id s"
    by (simp add: fee_cases)
  then show "counters_left (snd (charge_fee s frm gas now)) = counters_left s"
    using same_registries_fields [OF ledger_step_registries [OF step]] by (simp add: counters_left_def ids_left_def)
qed

lemma lift_result_snd: "lift_result f g r = (q, s') \<Longrightarrow> s' = snd r"
  by (auto simp: lift_result_def split: prod.splits sum.splits)

lemma after_nonce_sound:
  assumes "engine_ok s" "now = bc_timestamp ctx" "now \<le> U64_MAX" "wealth now s < U128_MAX" "counters_left s"
    "\<not> is_escrow (tx_from tx)" "after_nonce ctx s tx f = Some (r, s')"
    and f: "\<And>t r s'. engine_ok t \<Longrightarrow> wealth now t < U128_MAX \<Longrightarrow> counters_left t \<Longrightarrow> f t = Some (r, s') \<Longrightarrow> sound now t s'"
  shows "sound now s s'"
proof (cases "tx_nonce tx = acc_nonce (get_or_new s (tx_from tx))")
  case True
  let ?t = "put s (settle (get_or_new s (tx_from tx)) now\<lparr>acc_nonce := incr64 (tx_nonce tx)\<rparr>)"
  have "f ?t = Some (r, s')"
    using assms(2,7) True by (simp add: after_nonce_def consume_nonce_def Let_def)
  moreover note w = nonce_write [OF assms(1,3,6), of "tx_nonce tx"]
  ultimately have "sound now ?t s'"
    using assms(4,5) by (intro f) (simp_all add: keeps_def)
  then show ?thesis using sound_trans [OF keeps_sound [OF w(1)]] by blast
next
  case False
  then show ?thesis
    using assms by (auto simp: after_nonce_def consume_nonce_def Let_def sound_refl)
qed

lemma deploy_stamp_sound:
  assumes "engine_ok s" "ms_next_contract_id s < U64_MAX"
  shows "sound now s (case deploy_contract s body tref parties of
      (Inl e, s) \<Rightarrow> s
    | (Inr cid, s) \<Rightarrow> (case get_contract s cid of None \<Rightarrow> s
        | Some c \<Rightarrow> put_contract s (c\<lparr>pc_deploy_block := blk, pc_deploy_tx := h\<rparr>)))"
proof -
  let ?t = "snd (deploy_contract s body tref parties)"
  have k: "keeps now s ?t" by (rule deploy_keeps [OF assms])
  then have ok: "contracts_ok ?t" "engine_ok ?t" by (simp_all add: keeps_def engine_ok_def)
  have "keeps now ?t (put_contract ?t (c\<lparr>pc_deploy_block := blk, pc_deploy_tx := h\<rparr>))"
    if "get_contract ?t cid = Some c" for cid c
  proof -
    note c = contracts_okD [OF ok(1) that]
    have "contracts_ok (put_contract ?t (c\<lparr>pc_deploy_block := blk, pc_deploy_tx := h\<rparr>))"
      using contracts_ok_put_contract [OF ok(1) ledger_step_refl [of now "contract_address cid" 0], of "c\<lparr>pc_deploy_block := blk, pc_deploy_tx := h\<rparr>"]
        c by simp
    then show ?thesis using ok(2) by (simp add: keeps_def engine_ok_def contract_frame)
  qed
  then have "keeps now s (put_contract ?t (c\<lparr>pc_deploy_block := blk, pc_deploy_tx := h\<rparr>))"
    if "get_contract ?t cid = Some c" for cid c
    using keeps_trans [OF k] that by blast
  then show ?thesis
    using k by (auto intro: keeps_sound split: prod.split sum.split option.split)
qed

text \<open>The situation in which the kernel dispatches a transaction.\<close>

definition call_ok :: "kernel_env \<Rightarrow> block_ctx \<Rightarrow> mem_state \<Rightarrow> kernel_tx \<Rightarrow> bool" where
  "call_ok env ctx s tx \<longleftrightarrow> engine_ok s \<and> bc_timestamp ctx \<le> U64_MAX \<and> wealth (bc_timestamp ctx) s < U128_MAX
     \<and> counters_left s \<and> tx_ok tx \<and> env_ok env"

lemma call_okD:
  assumes "call_ok env ctx s tx"
  shows "engine_ok s" "bc_timestamp ctx \<le> U64_MAX" "wealth (bc_timestamp ctx) s < U128_MAX"
    "counters_left s" "\<not> is_escrow (tx_from tx)" "ledger_ok s" "wealth (bc_timestamp ctx) s \<le> U128_MAX"
    "ms_next_id s < U64_MAX" "ids_left s" "ms_next_contract_id s < U64_MAX"
  using assms
  by (auto simp: call_ok_def tx_ok_def ordinary_def engine_ok_def chain_ok_def counters_left_def ids_left_def)

text \<open>An operation behind the nonce check is sound when it is sound in every such situation.\<close>

lemma hub_sound:
  assumes "call_ok env ctx s tx" "after_nonce ctx s tx f = Some (r, s')"
    and "\<And>t r s'. call_ok env ctx t tx \<Longrightarrow> f t = Some (r, s') \<Longrightarrow> sound (bc_timestamp ctx) t s'"
  shows "sound (bc_timestamp ctx) s s'"
proof (rule after_nonce_sound [OF call_okD(1) [OF assms(1)] refl call_okD(2-5) [OF assms(1)] assms(2)])
  fix t r s'
  assume "engine_ok t" "wealth (bc_timestamp ctx) t < U128_MAX" "counters_left t" "f t = Some (r, s')"
  with assms(1,3) show "sound (bc_timestamp ctx) t s'" by (simp add: call_ok_def)
qed

lemma registry_sound:
  assumes call: "call_ok env ctx s tx" "after_nonce ctx s tx (\<lambda>s. Some (lift_result f g (op s))) = Some (r, s')"
    and op: "\<And>t. chain_ok t \<Longrightarrow> tame (bc_timestamp ctx) t (snd (op t)) \<and> chain_ok (snd (op t))"
  shows "sound (bc_timestamp ctx) s s'"
proof (rule hub_sound [OF call])
  fix t r s'
  assume t: "call_ok env ctx t tx" "Some (lift_result f g (op t)) = Some (r, s')"
  then have "s' = snd (op t)" by (auto dest: lift_result_snd)
  then show "sound (bc_timestamp ctx) t s'"
    using tame_sound [OF call_okD(1) [OF t(1)]] op call_okD(1) [OF t(1)] by (simp add: engine_ok_def)
qed

lemma stream_kinds_sound:
  assumes call: "call_ok env ctx s tx" and r: "apply_one env ctx s tx k = Some (r, s')"
    and k: "k = KOpenStream to rate deposit \<or> k = KStopStream sid"
  shows "sound (bc_timestamp ctx) s s'"
proof -
  let ?now = "bc_timestamp ctx"
  have op: "sound ?now t (snd (open_stream t (tx_from tx) to rate deposit ?now))" if "call_ok env ctx t tx" for t
    by (rule keeps_sound, rule step_keeps [OF call_okD(1) [OF that] open_stream_step open_stream_sound call_okD(5) [OF that]])
      (use call_okD [OF that] in simp_all)
  have st: "sound ?now t (snd (stop_stream t sid (tx_from tx) ?now))" if "call_ok env ctx t tx" for t
    by (rule keeps_sound, rule step_keeps [OF call_okD(1) [OF that] stop_stream_step stop_stream_sound call_okD(5) [OF that]])
      (use call_okD [OF that] in simp_all)
  from k show ?thesis
  proof
    assume "k = KOpenStream to rate deposit"
    with r show ?thesis
      by (auto intro!: hub_sound [OF call] dest!: lift_result_snd simp: op)
  next
    assume "k = KStopStream sid"
    with r show ?thesis
      by (auto intro!: hub_sound [OF call] dest!: lift_result_snd simp: st)
  qed
qed

lemma deploy_kind_sound:
  assumes call: "call_ok env ctx s tx" and r: "apply_one env ctx s tx (KDeployContract text parties) = Some (r, s')"
  shows "sound (bc_timestamp ctx) s s'"
proof (rule hub_sound [OF call r [unfolded apply_one.simps]])
  fix t r s'
  assume t: "call_ok env ctx t tx" "(case deploy_contract t text (text_commitment (ke_keccak256 env) text) parties of
        (Inl e, s) \<Rightarrow> Some (Inl (ContractErr e), s)
      | (Inr cid, s) \<Rightarrow> Some (Inr (CaseId cid), case get_contract s cid of None \<Rightarrow> s
          | Some c \<Rightarrow> put_contract s (c\<lparr>pc_deploy_block := bc_number ctx, pc_deploy_tx := tx_hash tx\<rparr>))) = Some (r, s')"
  from deploy_stamp_sound [OF call_okD(1,10) [OF t(1)], where now = "bc_timestamp ctx" and body = "text" and
      tref = "text_commitment (ke_keccak256 env) text" and parties = parties and blk = "bc_number ctx" and h = "tx_hash tx"]
  show "sound (bc_timestamp ctx) t s'"
    using t(2) by (auto split: prod.splits sum.splits)
qed

lemma invoke_kind_sound:
  assumes call: "call_ok env ctx s tx" and r: "apply_one env ctx s tx (KInvokeContract cid tref) = Some (r, s')"
  shows "sound (bc_timestamp ctx) s s'"
proof (rule hub_sound [OF call r [unfolded apply_one.simps]])
  fix t r s'
  let ?call = "invoke_contract t (ke_interpreter env) cid tref (derive_trigger (ke_keccak256 env) tref)
      (tx_from tx) (block_entropy (bc_block_hash ctx) (bc_number ctx)) (bc_number ctx) (bc_timestamp ctx)"
  assume t: "call_ok env ctx t tx" "map_option (lift_result CaseId ContractErr) ?call = Some (r, s')"
  then obtain q where "?call = Some (q, s')" by (auto dest!: lift_result_snd)
  moreover have "effect_small (ke_interpreter env body view trigger)" for body view trigger
    using call by (simp add: call_ok_def env_ok_def)
  ultimately show "sound (bc_timestamp ctx) t s'"
    using invoke_keeps [OF call_okD(1-3) [OF t(1)] _ call_okD(9) [OF t(1)]] keeps_sound by blast
qed

lemma submit_kind_sound:
  assumes call: "call_ok env ctx s tx" and k: "tx_kind tx = KSubmitEffect k e"
    and r: "apply_one env ctx s tx (KSubmitEffect k e) = Some (r, s')"
  shows "sound (bc_timestamp ctx) s s'"
proof (rule hub_sound [OF call r [unfolded apply_one.simps]])
  fix t r s'
  let ?call = "submit_effect t k (tx_from tx) e (bc_number ctx) (bc_timestamp ctx)"
  assume t: "call_ok env ctx t tx" "map_option (lift_result (\<lambda>_. CaseId k) ContractErr) ?call = Some (r, s')"
  then obtain q where "?call = Some (q, s')" by (auto dest!: lift_result_snd)
  moreover have "effect_small e" using call k by (simp add: call_ok_def tx_ok_def)
  ultimately show "sound (bc_timestamp ctx) t s'"
    using submit_keeps [OF call_okD(1-3) [OF t(1)] _ call_okD(9) [OF t(1)]] keeps_sound by blast
qed

lemma zk_chain:
  assumes "chain_ok t" "now \<le> U64_MAX"
  shows "chain_ok (snd (submit_zk_passport_proof t v a sub now blk))"
  using zk_commit_ok(1) [OF assms] assms(1) by (simp add: submit_zk_cases split: option.split)

lemma apply_one_sound:
  assumes call: "call_ok env ctx s tx" and r: "apply_one env ctx s tx (tx_kind tx) = Some (r, s')"
  shows "sound (bc_timestamp ctx) s s'"
proof (cases "tx_kind tx")
  case (KTransfer to val)
  then have "s' = snd (apply_transfer s (tx_from tx) to val (tx_nonce tx) (bc_timestamp ctx))"
    using r by (auto dest: lift_result_snd)
  then show ?thesis using transfer_keeps [OF call_okD(1,2,7,5) [OF call]] keeps_sound by simp
next
  case (KFundContract cid)
  then have "s' = snd (fund_contract s (tx_from tx) cid (tx_value tx) (tx_nonce tx) (bc_timestamp ctx))"
    using r by (auto dest: lift_result_snd)
  then show ?thesis using fund_keeps [OF call_okD(1,2,7,5) [OF call]] keeps_sound by simp
next
  case (KRequestVerification lref)
  then have "after_nonce ctx s tx (\<lambda>s. Some (lift_result CaseId LifecycleErr (request_verification s (ke_oracle env)
      (tx_from tx) \<lparr>le_liveness_ref = lref, le_challenge = fst (derive_liveness (ke_keccak256 env) lref),
        le_response = snd (derive_liveness (ke_keccak256 env) lref)\<rparr>
      (block_entropy (bc_block_hash ctx) (bc_number ctx)) (bc_number ctx)))) = Some (r, s')"
    using r by (simp add: derive_liveness_def Let_def)
  then show ?thesis by (rule registry_sound [OF call]) (simp add: registry_tame request_verification_ok)
next
  case (KSubmitZkPassportProof p sg tag ucd)
  then show ?thesis
    using r by (auto intro!: registry_sound [OF call] simp: zk_tame zk_chain [OF _ call_okD(2) [OF call]])
next
  case (KOpenStream to rate deposit)
  then show ?thesis using stream_kinds_sound [OF call r] by blast
next
  case (KStopStream sid)
  then show ?thesis using stream_kinds_sound [OF call r] by blast
next
  case (KDeployContract body parties)
  then show ?thesis using deploy_kind_sound [OF call] r by simp
next
  case (KInvokeContract cid tref)
  then show ?thesis using invoke_kind_sound [OF call] r by simp
next
  case (KSubmitEffect k e)
  then show ?thesis using submit_kind_sound [OF call] r by simp
qed (use r in \<open>auto intro!: registry_sound [OF call] simp: registry_tame vouch_ok challenge_def
    challenge_inner_ok verdict_tame submit_verdict_ok governance_chain\<close>)

end
