(* ===== verification/Kernel_Nonce.thy ===== *)
theory Kernel_Nonce
  imports Kernel_Invariant
begin

text \<open>
  What the operations do to the account nonces. \<open>nonce_step A s s'\<close> says that outside the accounts in
  \<open>A\<close> no nonce changed; it needs no bounds and composes along the calls. Every operation but a
  transfer is such a step with only contract escrows in \<open>A\<close>, so the kernel alone advances the nonce of
  an ordinary sender.
\<close>

section \<open>The frame relation\<close>

definition addressed :: "mem_state \<Rightarrow> bool" where
  "addressed s \<longleftrightarrow> (\<forall>a. acc_address (get_or_new s a) = a)"

definition nonce_step :: "address set \<Rightarrow> mem_state \<Rightarrow> mem_state \<Rightarrow> bool" where
  "nonce_step A s s' \<longleftrightarrow> (addressed s \<longrightarrow>
     addressed s' \<and> (\<forall>b. b \<notin> A \<longrightarrow> state_nonce s' b = state_nonce s b))"

lemma engine_ok_addressed: "engine_ok s \<Longrightarrow> addressed s"
  by (simp add: engine_ok_def addressed_def chain_ok_address)

lemma nonce_step_refl [simp, intro]: "nonce_step A s s"
  by (simp add: nonce_step_def)

lemma nonce_step_trans: "nonce_step A s t \<Longrightarrow> nonce_step A t u \<Longrightarrow> nonce_step A s u"
  by (simp add: nonce_step_def)

lemma nonce_step_mono: "nonce_step A s t \<Longrightarrow> A \<subseteq> B \<Longrightarrow> nonce_step B s t"
  by (auto simp: nonce_step_def)

lemma nonce_step_same: "get_or_new s' = get_or_new s \<Longrightarrow> nonce_step A s s'"
  by (simp add: nonce_step_def addressed_def state_nonce_eq)

lemma nonce_step_part: "ledger_part s' = ledger_part s \<Longrightarrow> nonce_step A s s'"
  using ledger_part_same(2) by (rule nonce_step_same)

lemma nonce_step_put:
  assumes "addressed s \<Longrightarrow> acc_address x = a" "a \<notin> A \<Longrightarrow> acc_nonce x = acc_nonce (get_or_new s a)"
  shows "nonce_step A s (put s x)"
  using assms by (auto simp: nonce_step_def addressed_def state_nonce_eq)

lemma nonce_step_put_stream [simp]: "nonce_step A s (put_stream t st) = nonce_step A s t"
  by (simp add: nonce_step_def addressed_def state_nonce_eq)

lemma nonce_step_fold:
  assumes "\<And>x s. nonce_step A s (f x s)"
  shows "nonce_step A s (fold f xs s)"
proof (induction xs arbitrary: s)
  case (Cons x xs)
  show ?case using nonce_step_trans [OF assms Cons.IH] by simp
qed simp

lemma addressedD [simp]: "addressed s \<Longrightarrow> acc_address (get_or_new s a) = a"
  by (simp add: addressed_def)

section \<open>The ledger\<close>

lemma settle_stream_nonces: "nonce_step A s (snd (settle_stream s k now))"
proof (cases "get_stream s k")
  case None
  then show ?thesis by (simp add: settle_stream_def)
next
  case (Some st)
  let ?x = "settle (get_or_new s (st_to st)) now"
  have "nonce_step A s (put s (?x\<lparr>acc_settled_balance := b\<rparr>))" "nonce_step A s (put s ?x)" for b
    by (rule nonce_step_put [where a = "st_to st"]; simp)+
  with Some show ?thesis by (simp add: settle_stream_def Let_def)
qed

lemma settle_incoming_nonces: "nonce_step A s (settle_incoming s a now)"
  unfolding settle_incoming_def by (intro nonce_step_fold settle_stream_nonces)

lemma charge_fee_nonce: "nonce_step A s (snd (charge_fee s frm gas now))"
proof -
  let ?s = "settle_incoming s frm now"
  let ?x = "settle (get_or_new ?s frm) now" and ?t = "settle (get_or_new ?s TREASURY) now"
  note base = settle_incoming_nonces [of A s frm now]
  have one: "nonce_step A ?s (put ?s (?x\<lparr>acc_settled_balance := b\<rparr>))" for b
    by (rule nonce_step_put [where a = frm]) simp_all
  have two: "nonce_step A ?s (put (put ?s (?x\<lparr>acc_settled_balance := b\<rparr>)) (?t\<lparr>acc_settled_balance := c\<rparr>))" for b c
    by (auto simp: nonce_step_def addressed_def state_nonce_eq)
  show ?thesis
    using nonce_step_trans [OF base one] nonce_step_trans [OF base two] base
    by (simp add: charge_fee_def Let_def)
qed

lemma transfer_nonce: "nonce_step {frm} s (snd (apply_transfer s frm to val n now))"
proof -
  let ?s = "settle_incoming s frm now"
  let ?x = "settle (get_or_new ?s frm) now" and ?t = "settle (get_or_new ?s to) now"
  note base = settle_incoming_nonces [of "{frm}" s frm now]
  have one: "nonce_step {frm} ?s (put ?s (?x\<lparr>acc_nonce := m\<rparr>))" for m
    by (rule nonce_step_put [where a = frm]) simp_all
  have two: "nonce_step {frm} ?s
      (put (put ?s (?x\<lparr>acc_settled_balance := b, acc_nonce := m\<rparr>)) (?t\<lparr>acc_settled_balance := c\<rparr>))" for b c m
    by (auto simp: nonce_step_def addressed_def state_nonce_eq)
  show ?thesis
    using nonce_step_trans [OF base one] nonce_step_trans [OF base two] base
    by (auto simp: apply_transfer_def Let_def)
qed

lemma transfer_own_nonce:
  assumes "addressed s" "apply_transfer s frm to val n now = (Inr (), s')"
  shows "n = state_nonce s frm" "state_nonce s' frm = incr64 n"
proof -
  let ?s = "settle_incoming s frm now"
  have s: "addressed ?s" "state_nonce ?s frm = state_nonce s frm"
    using settle_incoming_nonces [of "{}" s frm now] assms(1) by (simp_all add: nonce_step_def)
  show "n = state_nonce s frm"
    using assms(2) s(2) by (simp add: apply_transfer_def state_nonce_eq Let_def split: if_splits)
  with assms(2) s show "state_nonce s' frm = incr64 n"
    by (auto simp: apply_transfer_def state_nonce_eq Let_def split: if_splits)
qed

lemma open_stream_nonce: "nonce_step A s (snd (open_stream s frm to rate dep now))"
proof -
  have "nonce_step A s (put (s\<lparr>ms_next_id := m\<rparr>) (settle (get_or_new s frm) now\<lparr>acc_settled_balance := b\<rparr>))" for m b
    by (auto simp: nonce_step_def addressed_def state_nonce_eq put_def get_or_new_def get_def)
  then show ?thesis by (simp add: open_stream_def Let_def next_stream_id_def)
qed

lemma stop_stream_nonce: "nonce_step A s (snd (stop_stream s k caller now))"
proof (cases "get_stream s k")
  case (Some st)
  let ?s = "snd (settle_stream s k now)"
  have "nonce_step A ?s (put ?s (settle (get_or_new ?s a) now\<lparr>acc_settled_balance := b\<rparr>))" for a b
    by (rule nonce_step_put [where a = a]) simp_all
  note step = nonce_step_trans [OF settle_stream_nonces this]
  show ?thesis using Some step by (simp add: stop_stream_def Let_def)
qed (simp add: stop_stream_def)

section \<open>The contract engine\<close>

lemma nonce_step_contract [simp]:
  "nonce_step A s (put_contract t c) = nonce_step A s t" "nonce_step A s (put_exec_case t ec) = nonce_step A s t"
  by (simp_all add: nonce_step_def addressed_def state_nonce_eq contract_frame exec_case_frame)

lemma apply_op_nonce:
  assumes "apply_op e now op (c, n, s) = Some (c', n', s')"
  shows "nonce_step {e} s s'"
  using assms transfer_nonce [of e s] open_stream_nonce [of "{e}" s e] stop_stream_nonce [of "{e}" s _ e]
  by (cases op) (auto split: prod.splits sum.splits, (metis snd_conv)+)

lemma apply_effect_ops_nonce:
  assumes "apply_effect_ops e now ops (c, n, s) = Some (c', n', s')"
  shows "nonce_step {e} s s'"
  using assms
proof (induction ops arbitrary: c n s)
  case (Cons op ops)
  then obtain c1 n1 s1 where "apply_op e now op (c, n, s) = Some (c1, n1, s1)"
    "apply_effect_ops e now ops (c1, n1, s1) = Some (c', n', s')"
    by (auto simp: bind_eq_Some_conv)
  then show ?case using nonce_step_trans [OF apply_op_nonce] Cons.IH by blast
qed simp

lemma apply_effect_nonce:
  assumes "apply_effect s cid eff now = Some (r, s')"
  shows "nonce_step (range contract_address) s s'"
proof -
  let ?e = "contract_address cid"
  let ?x = "settle (get_or_new s ?e) now"
  have start: "nonce_step {?e} s (put s ?x)" by (rule nonce_step_put [where a = ?e]) simp_all
  have "nonce_step {?e} s s1" if "apply_effect_ops ?e now (ef_ops eff) (c, acc_nonce ?x, put s ?x) = Some (c', n', s1)"
    for c c' n' s1
    by (rule nonce_step_trans [OF start apply_effect_ops_nonce [OF that]])
  then have "nonce_step {?e} s s'"
    using assms by (fastforce simp: apply_effect_def Let_def split: option.splits sum.splits if_splits)
  then show ?thesis by (rule nonce_step_mono) blast
qed

lemma resolve_nonce:
  assumes "resolve_case s c blk now = Some (c', s')"
  shows "nonce_step (range contract_address) s s'"
  using assms apply_effect_nonce
  by (auto simp: resolve_case_def split: option.splits EffectTally.splits if_splits sum.splits)

lemma submit_effect_nonce:
  assumes "submit_effect s k j eff blk now = Some (r, s')"
  shows "nonce_step (range contract_address) s s'"
  using assms resolve_nonce by (auto simp: submit_effect_def split: option.splits if_splits)

lemma invoke_nonce:
  assumes "invoke_contract s interp cid tref trig a ent blk now = Some (r, s')"
  shows "nonce_step (range contract_address) s s'"
proof -
  let ?s = "s\<lparr>ms_next_exec_case_id := incr64 (ms_next_exec_case_id s)\<rparr>"
  have "nonce_step (range contract_address) s ?s"
    by (rule nonce_step_same) (simp add: fun_eq_iff get_or_new_def get_def)
  note via = nonce_step_trans [OF this resolve_nonce]
  show ?thesis
    using assms
    by (auto simp: invoke_contract_def Let_def next_exec_case_id_def split: option.splits if_splits elim: via)
qed

lemma deploy_nonce: "nonce_step A s (snd (deploy_contract s text text_ref parties))"
proof -
  have "nonce_step A s (s\<lparr>ms_next_contract_id := m\<rparr>)" for m
    by (rule nonce_step_same) (simp add: fun_eq_iff get_or_new_def get_def)
  then show ?thesis by (simp add: deploy_contract_def next_contract_id_def)
qed

section \<open>The registries\<close>

lemma sync_nonce: "nonce_step A s (sync_account_verified s a v t)"
  unfolding sync_account_verified_def Let_def by (rule nonce_step_put [where a = a]) simp_all

lemma revoke_nonce: "nonce_step A s (revoke s a)"
proof -
  define s1 where "s1 = clear_vouch_edges (case get_human s a of
      None \<Rightarrow> s
    | Some h \<Rightarrow> put_human (fold (slash SYBIL_SLASH) (hu_vouches_in h) s)
        (h\<lparr>hu_status := Revoked, hu_verified_at := 0, hu_vouches_in := []\<rparr>)) a"
  have "ledger_part s1 = ledger_part s" by (simp add: s1_def slashes_part split: option.split)
  moreover have "revoke s a = sync_account_verified s1 a False 0" by (simp add: revoke_def s1_def)
  ultimately show ?thesis using nonce_step_trans [OF nonce_step_part sync_nonce] by simp
qed

lemma nonce_step_after_part:
  assumes "nonce_step A s t" "ledger_part u = ledger_part t"
  shows "nonce_step A s u"
  using nonce_step_trans [OF assms(1) nonce_step_part [OF assms(2)]] .

lemma restore_nonce: "nonce_step A s (restore_challenged s a)"
  using nonce_step_after_part [OF sync_nonce] by (simp add: restore_challenged_def split: option.split)

lemma verdict_nonce: "nonce_step A s (snd (submit_verdict s k j v blk))"
proof (cases "\<exists>c. get_case s k = Some c \<and> cs_status c = Open \<and> j \<in> set (cs_jury c) \<and> vote_of c j = None")
  case True
  then obtain c where c: "get_case s k = Some c" "cs_status c = Open" "j \<in> set (cs_jury c)" "vote_of c j = None"
    by blast
  let ?s = "put_case s (apply_tally (c\<lparr>cs_votes := cs_votes c @ [(j, v)]\<rparr>))"
  have base: "nonce_step A s ?s" by (rule nonce_step_part) simp
  note steps = nonce_step_trans [OF base revoke_nonce] nonce_step_trans [OF base restore_nonce]
  note steps = steps nonce_step_after_part [OF steps(2)]
  show ?thesis
    unfolding submit_verdict_accepted [OF c] Let_def
    using base steps by (auto split: CaseStatus.split Verdict.split)
next
  case False
  then obtain e where "submit_verdict s k j v blk = (Inl e, s)" using submit_verdict_rejected by blast
  then show ?thesis by simp
qed

lemma zk_nonce: "nonce_step A s (snd (submit_zk_passport_proof s v a sub now blk))"
proof -
  let ?pi = "\<lparr>pi_signals = zs_signals sub\<rparr>"
  let ?s = "put_attribute_commitments (put_nullifier s (pi_nullifier ?pi)) a (pi_attribute_commitments ?pi)"
  have base: "nonce_step A s ?s" by (rule nonce_step_part) simp
  note steps = nonce_step_after_part [OF base] nonce_step_after_part [OF nonce_step_trans [OF base sync_nonce]]
  show ?thesis
    using base steps by (auto simp: submit_zk_cases zk_commit_def Let_def split: option.split)
qed

section \<open>One transaction\<close>

text \<open>
  \<open>advances tx s s'\<close>: the transaction carried the sender's nonce, the sender's nonce moved past it,
  and no other ordinary account's nonce changed.
\<close>

definition advances :: "kernel_tx \<Rightarrow> mem_state \<Rightarrow> mem_state \<Rightarrow> bool" where
  "advances tx s s' \<longleftrightarrow> addressed s' \<and> tx_nonce tx = state_nonce s (tx_from tx)
     \<and> state_nonce s' (tx_from tx) = incr64 (tx_nonce tx)
     \<and> (\<forall>b. b \<noteq> tx_from tx \<longrightarrow> b \<notin> range contract_address \<longrightarrow> state_nonce s' b = state_nonce s b)"

lemma lift_result_ok: "lift_result f g r = (Inr v, s') \<Longrightarrow> \<exists>w. r = (Inr w, s')"
  by (auto simp: lift_result_def split: prod.splits sum.splits)

lemma after_nonce_advances:
  assumes s: "addressed s" "tx_from tx \<notin> range contract_address"
    and r: "after_nonce ctx s tx f = Some (Inr v, s')"
    and f: "\<And>t. f t = Some (Inr v, s') \<Longrightarrow> nonce_step (range contract_address) t s'"
  shows "advances tx s s'"
proof -
  let ?t = "put s (settle (get_or_new s (tx_from tx)) (bc_timestamp ctx)\<lparr>acc_nonce := incr64 (tx_nonce tx)\<rparr>)"
  have n: "tx_nonce tx = state_nonce s (tx_from tx)" "f ?t = Some (Inr v, s')"
    using r by (auto simp: after_nonce_def consume_nonce_def Let_def state_nonce_eq split: if_splits)
  have "addressed ?t" "state_nonce ?t b = (if b = tx_from tx then incr64 (tx_nonce tx) else state_nonce s b)" for b
    using s(1) by (auto simp: addressed_def state_nonce_eq)
  with f [OF n(2)] n(1) s(2) show ?thesis
    by (simp add: advances_def nonce_step_def)
qed

lemma transfer_advances:
  assumes "addressed s" "apply_transfer s (tx_from tx) to val (tx_nonce tx) now = (Inr (), s')"
  shows "advances tx s s'"
  using transfer_own_nonce [OF assms] transfer_nonce [of "tx_from tx" s to val "tx_nonce tx" now] assms
  by (simp add: advances_def nonce_step_def)

lemma advances_put_contract [simp]: "advances tx s (put_contract t c) = advances tx s t"
  by (simp add: advances_def addressed_def state_nonce_eq contract_frame)

lemma fund_advances:
  assumes "addressed s" "fund_contract s (tx_from tx) cid amount (tx_nonce tx) now = (Inr (), s')"
  shows "advances tx s s'"
  using assms transfer_advances
  by (fastforce simp: fund_contract_def split: option.splits if_splits prod.splits sum.splits)

lemmas op_nonces = registry_parts [THEN nonce_step_part] verdict_nonce zk_nonce open_stream_nonce stop_stream_nonce

lemma lift_nonce:
  assumes "lift_result f g r = (q, s')" "nonce_step A t (snd r)"
  shows "nonce_step A t s'"
  using assms by (auto dest: lift_result_snd)

lemma deploy_stamp_nonce:
  assumes "(case deploy_contract t body tref parties of
        (Inl e, s) \<Rightarrow> Some (Inl (ContractErr e), s)
      | (Inr cid, s) \<Rightarrow> Some (Inr (CaseId cid), case get_contract s cid of None \<Rightarrow> s
          | Some c \<Rightarrow> put_contract s (c\<lparr>pc_deploy_block := blk, pc_deploy_tx := h\<rparr>))) = Some (q, s')"
  shows "nonce_step A t s'"
  using assms deploy_nonce [of A t body tref parties] by (auto split: prod.splits sum.splits option.split)

lemma apply_one_advances:
  assumes s: "addressed s" "tx_from tx \<notin> range contract_address"
    and r: "apply_one env ctx s tx k = Some (Inr v, s')"
  shows "advances tx s s'"
proof (cases k)
  case (KTransfer to val)
  with r obtain w where "apply_transfer s (tx_from tx) to val (tx_nonce tx) (bc_timestamp ctx) = (Inr w, s')"
    by (auto dest!: lift_result_ok)
  then show ?thesis using transfer_advances [OF s(1)] by simp
next
  case (KFundContract cid)
  with r obtain w where "fund_contract s (tx_from tx) cid (tx_value tx) (tx_nonce tx) (bc_timestamp ctx) = (Inr w, s')"
    by (auto dest!: lift_result_ok)
  then show ?thesis using fund_advances [OF s(1)] by simp
next
  case (KDeployContract body parties)
  then show ?thesis
    using r by (auto intro!: after_nonce_advances [OF s] elim!: deploy_stamp_nonce)
next
  case (KInvokeContract cid tref)
  then show ?thesis
    using r by (auto intro!: after_nonce_advances [OF s] dest!: lift_result_ok intro: invoke_nonce)
next
  case (KSubmitEffect i e)
  then show ?thesis
    using r by (auto intro!: after_nonce_advances [OF s] dest!: lift_result_ok intro: submit_effect_nonce)
next
  case (KRequestVerification lref)
  then have "after_nonce ctx s tx (\<lambda>s. Some (lift_result CaseId LifecycleErr (request_verification s (ke_oracle env)
      (tx_from tx) \<lparr>le_liveness_ref = lref, le_challenge = fst (derive_liveness (ke_keccak256 env) lref),
        le_response = snd (derive_liveness (ke_keccak256 env) lref)\<rparr>
      (block_entropy (bc_block_hash ctx) (bc_number ctx)) (bc_number ctx)))) = Some (Inr v, s')"
    using r by (simp add: derive_liveness_def Let_def)
  then show ?thesis
    by (rule after_nonce_advances [OF s]) (auto elim!: lift_nonce simp: op_nonces)
qed (use r in \<open>auto intro!: after_nonce_advances [OF s] elim!: lift_nonce simp: challenge_def op_nonces\<close>)

text \<open>Whatever it returns, an operation leaves every account under its own address.\<close>

lemma after_nonce_frame:
  assumes r: "after_nonce ctx s tx f = Some (q, s')"
    and f: "\<And>t. f t = Some (q, s') \<Longrightarrow> nonce_step UNIV t s'"
  shows "nonce_step UNIV s s'"
proof -
  let ?x = "settle (get_or_new s (tx_from tx)) (bc_timestamp ctx)\<lparr>acc_nonce := incr64 (tx_nonce tx)\<rparr>"
  have "nonce_step UNIV s (put s ?x)" by (rule nonce_step_put [where a = "tx_from tx"]) simp_all
  moreover have "s' = s \<or> f (put s ?x) = Some (q, s')"
    using r by (auto simp: after_nonce_def consume_nonce_def Let_def split: if_splits)
  ultimately show ?thesis using nonce_step_trans f by blast
qed

lemma fund_frame: "nonce_step UNIV s (snd (fund_contract s a cid amount n now))"
  using nonce_step_mono [OF transfer_nonce [of a s "contract_address cid" amount n now], of UNIV]
  by (auto simp: fund_contract_def split: option.split prod.split sum.split)

lemma apply_one_frame:
  assumes r: "apply_one env ctx s tx k = Some (q, s')"
  shows "nonce_step UNIV s s'"
proof (cases k)
  case (KTransfer to val)
  then show ?thesis using r nonce_step_mono [OF transfer_nonce, of _ UNIV] by (auto dest!: lift_result_snd)
next
  case (KFundContract cid)
  then show ?thesis using r fund_frame by (auto dest!: lift_result_snd)
next
  case (KDeployContract body parties)
  from r [unfolded this apply_one.simps] show ?thesis
    by (rule after_nonce_frame) (erule deploy_stamp_nonce)
next
  case (KInvokeContract cid tref)
  from r [unfolded this apply_one.simps] show ?thesis
    by (rule after_nonce_frame) (auto dest!: lift_result_snd intro: nonce_step_mono [OF invoke_nonce])
next
  case (KSubmitEffect i e)
  from r [unfolded this apply_one.simps] show ?thesis
    by (rule after_nonce_frame) (auto dest!: lift_result_snd intro: nonce_step_mono [OF submit_effect_nonce])
next
  case (KRequestVerification lref)
  then have "after_nonce ctx s tx (\<lambda>s. Some (lift_result CaseId LifecycleErr (request_verification s (ke_oracle env)
      (tx_from tx) \<lparr>le_liveness_ref = lref, le_challenge = fst (derive_liveness (ke_keccak256 env) lref),
        le_response = snd (derive_liveness (ke_keccak256 env) lref)\<rparr>
      (block_entropy (bc_block_hash ctx) (bc_number ctx)) (bc_number ctx)))) = Some (q, s')"
    using r by (simp add: derive_liveness_def Let_def)
  then show ?thesis
    by (rule after_nonce_frame) (auto elim!: lift_nonce simp: op_nonces)
qed (insert r, (simp, erule after_nonce_frame, simp add: lift_nonce challenge_def op_nonces)+)

end
