(* ===== verification/Kernel_Theorems.thy ===== *)
theory Kernel_Theorems
  imports Kernel_Nonce Ledger_Theorems
begin

text \<open>
  The properties of the apply kernel and of whole runs of the chain. A run is a sequence of steps: a
  transaction, the sweeps at the end of a block, the refresh of the validator set at an epoch boundary,
  and the passing of time between blocks. The invariants hold in every state a run reaches, and the
  supply is bounded by what the passing of time allows.
\<close>

section \<open>One transaction\<close>

lemma apply_tx_sound:
  assumes call: "call_ok env ctx s tx" and r: "apply_tx env ctx s tx = Some (out, s')"
  shows "sound (bc_timestamp ctx) s s'"
proof -
  let ?now = "bc_timestamp ctx"
  let ?fee = "charge_fee s (tx_from tx) (kernel_gas (tx_kind tx)) ?now"
  have frm: "ordinary (tx_from tx)" using call by (simp add: call_ok_def tx_ok_def)
  note fee = charge_keeps [OF call_okD(1,2,7) [OF call] frm, of "kernel_gas (tx_kind tx)"]
  have call1: "call_ok env ctx (snd ?fee) tx"
    using call fee by (simp add: call_ok_def keeps_def)
  consider "s' = snd ?fee"
    | q s1 where "apply_one env ctx (snd ?fee) tx (tx_kind tx) = Some (q, s1)"
        "s' = s1 \<or> s' = put s1 (settle (get_or_new s1 (tx_from tx)) ?now\<lparr>acc_nonce := incr64 (tx_nonce tx)\<rparr>)"
    using r by (cases ?fee) (auto simp: apply_tx_def Let_def split: sum.splits option.splits)
  then show ?thesis
  proof cases
    case 1
    then show ?thesis using fee(1) keeps_sound by simp
  next
    case (2 q s1)
    note s1 = apply_one_sound [OF call1 2(1)]
    then have "engine_ok s1" by (simp add: sound_def)
    then have "sound ?now s1 s'"
      using 2(2) nonce_write(1) [OF _ call_okD(2,5) [OF call]] keeps_sound sound_refl by blast
    then show ?thesis
      using sound_trans [OF keeps_sound [OF fee(1)] sound_trans [OF s1]] by blast
  qed
qed

lemma apply_tx_nonce:
  assumes s: "addressed s" "tx_from tx \<notin> range contract_address"
    and r: "apply_tx env ctx s tx = Some (Some out, s')"
  shows "addressed s' \<and> state_nonce s' (tx_from tx) = incr64 (tx_nonce tx) \<and> (oo_success out \<longrightarrow> advances tx s s')"
proof -
  let ?a = "tx_from tx" and ?now = "bc_timestamp ctx"
  let ?fee = "charge_fee s ?a (kernel_gas (tx_kind tx)) ?now"
  have fee: "addressed (snd ?fee)" "state_nonce (snd ?fee) b = state_nonce s b" for b
    using charge_fee_nonce [of "{}" s] s(1) by (simp_all add: nonce_step_def)
  from r obtain res s1 where one: "apply_one env ctx (snd ?fee) tx (tx_kind tx) = Some (res, s1)"
    and s': "case res of Inr v \<Rightarrow> s' = s1
      | Inl e \<Rightarrow> \<not> oo_success out \<and> s' = put s1 (settle (get_or_new s1 ?a) ?now\<lparr>acc_nonce := incr64 (tx_nonce tx)\<rparr>)"
    by (cases ?fee) (auto simp: apply_tx_def Let_def split: sum.splits option.splits)
  show ?thesis
  proof (cases res)
    case (Inr v)
    then have "advances tx (snd ?fee) s'" using apply_one_advances [OF fee(1) s(2)] one s' by simp
    then show ?thesis using fee(2) by (simp add: advances_def)
  next
    case (Inl e)
    have "addressed s1" using apply_one_frame [OF one] fee(1) by (simp add: nonce_step_def)
    then show ?thesis using s' Inl by (auto simp: addressed_def state_nonce_eq)
  qed
qed

section \<open>Failed transactions\<close>

text \<open>The kinds whose operation stands behind the kernel's nonce check and writes nothing when it fails.\<close>

fun fails_clean :: "KernelKind \<Rightarrow> bool" where
  "fails_clean (KTransfer _ _) = False"
| "fails_clean (KFundContract _) = False"
| "fails_clean (KRequestVerification _) = False"
| "fails_clean (KChallenge _ _) = False"
| "fails_clean _ = True"

lemma registry_clean:
  "vouch s a b blk = (Inl e, s') \<Longrightarrow> s' = s"
  "submit_verdict s k j v blk = (Inl e, s') \<Longrightarrow> s' = s"
  "submit_zk_passport_proof s ver a sub now blk = (Inl z, s') \<Longrightarrow> s' = s"
  "register_csca s g cc key pub blk = (Inl gov, s') \<Longrightarrow> s' = s"
  "revoke_csca s g key = (Inl gov, s') \<Longrightarrow> s' = s"
  "pin_self_identity_root s g root blk = (Inl gov, s') \<Longrightarrow> s' = s"
  "pin_self_ofac_root s g kind root blk = (Inl gov, s') \<Longrightarrow> s' = s"
  "retire_self_root s g root = (Inl gov, s') \<Longrightarrow> s' = s"
  by (auto simp: vouch_def submit_verdict_def submit_zk_cases register_csca_def revoke_csca_def
      pin_self_identity_root_def pin_self_ofac_root_def retire_self_root_def Let_def
      split: option.splits if_splits)

lemma contract_clean:
  "deploy_contract s body tref parties = (Inl e, s') \<Longrightarrow> s' = s"
  "invoke_contract s interp cid trig_ref trig a ent blk now = Some (Inl e, s') \<Longrightarrow> s' = s"
  "submit_effect s k a eff blk now = Some (Inl e, s') \<Longrightarrow> s' = s"
  by (auto simp: deploy_contract_def invoke_contract_def submit_effect_def Let_def
      split: option.splits if_splits prod.splits)

lemmas clean_errors = open_stream_fail_closed stop_stream_fail_closed registry_clean contract_clean

lemma lift_result_error: "lift_result f g r = (Inl e, s') \<Longrightarrow> \<exists>w. r = (Inl w, s')"
  by (auto simp: lift_result_def split: prod.splits sum.splits)

lemma after_nonce_error:
  assumes "after_nonce ctx s tx f = Some (Inl e, s')" "\<And>t. f t = Some (Inl e, s') \<Longrightarrow> s' = t"
  shows "s' = s \<or> s' = put s (settle (get_or_new s (tx_from tx)) (bc_timestamp ctx)\<lparr>acc_nonce := incr64 (tx_nonce tx)\<rparr>)"
  using assms by (auto simp: after_nonce_def consume_nonce_def Let_def split: if_splits)

lemma hub_error:
  assumes "fails_clean k" "apply_one env ctx s tx k = Some (Inl e, s')"
  shows "s' = s \<or> s' = put s (settle (get_or_new s (tx_from tx)) (bc_timestamp ctx)\<lparr>acc_nonce := incr64 (tx_nonce tx)\<rparr>)"
proof (cases k)
  case (KDeployContract body parties)
  from assms(2) [unfolded this apply_one.simps] show ?thesis
    by (rule after_nonce_error) (auto split: prod.splits sum.splits dest: clean_errors)
qed (insert assms, ((simp; fail) | (simp, erule after_nonce_error, force dest!: lift_result_error dest: clean_errors))+)

lemma fee_addressed:
  assumes "addressed s" "charge_fee s a gas now = (r, s1)"
  shows "addressed s1" "state_nonce s1 b = state_nonce s b"
  using charge_fee_nonce [of "{}" s a gas now] assms by (simp_all add: nonce_step_def)

lemma settle_nonce: "settle (a\<lparr>acc_nonce := n\<rparr>) now = (settle a now)\<lparr>acc_nonce := n\<rparr>"
  by (simp add: settle_def pending_emission_def Let_def)

lemma put_again: "put (put s x) x = put s x"
  by (simp add: put_def)

lemma hub_stale:
  assumes "fails_clean k" "tx_nonce tx \<noteq> state_nonce s (tx_from tx)"
  shows "apply_one env ctx s tx k = Some (Inl (InvalidNonce (state_nonce s (tx_from tx)) (tx_nonce tx)), s)"
  using assms by (cases k) (simp_all add: after_nonce_def consume_nonce_def state_nonce_eq)

section \<open>Sweeps\<close>

lemma scan_one_sound:
  assumes "engine_ok s"
  shows "sound now s (scan_one env h blk a s)"
  using assms tame_sound [OF assms tame_part [OF challenge_part]] challenge_inner_ok sound_refl [OF assms]
  by (simp add: scan_one_def Let_def system_challenge_def engine_ok_def)

lemma fold_sound:
  assumes "\<And>a t. engine_ok t \<Longrightarrow> sound now t (f a t)" "engine_ok s"
  shows "sound now s (fold f as s)"
  using assms(2)
proof (induction as arbitrary: s)
  case (Cons a as)
  have "sound now s (f a s)" by (rule assms(1) [OF Cons.prems])
  moreover from this have "sound now (f a s) (fold f as (f a s))"
    by (intro Cons.IH) (simp add: sound_def)
  ultimately show ?case using sound_trans by fastforce
qed (simp add: sound_refl)

lemma run_sweeps_sound:
  assumes "engine_ok s" "bc_timestamp ctx \<le> U64_MAX"
  shows "sound (bc_timestamp ctx) s (run_sweeps env ctx s)"
proof -
  let ?s = "sweep_sybil_scan env s (bc_block_hash ctx) (bc_number ctx)"
  have one: "sound (bc_timestamp ctx) s ?s"
    unfolding sweep_sybil_scan_def by (intro fold_sound scan_one_sound assms)
  have "sound (bc_timestamp ctx) t (snd (finalize_registration t a (bc_number ctx) (bc_timestamp ctx)))"
    if "engine_ok t" for t a
    using tame_sound [OF that finalize_tame] finalize_ok [OF _ assms(2)] that by (simp add: engine_ok_def)
  then have "sound (bc_timestamp ctx) ?s (run_sweeps env ctx s)"
    unfolding run_sweeps_def sweep_finalize_def
    using one by (intro fold_sound) (simp_all add: sound_def)
  with one show ?thesis by (rule sound_trans)
qed

lemma refresh_engine_ok:
  "engine_ok (refresh_epoch_validators s h) = engine_ok s"
  "wealth now (refresh_epoch_validators s h) = wealth now s"
  by (simp_all add: refresh_epoch_validators_def set_epoch_validators_def engine_ok_def contracts_ok_def
      chain_ok_def ledger_ok_def poh_ok_def gate_ok_def cache_at_def emitting_at_def index_ok_def
      acct_store.keys_agree_def human_store.keys_agree_def juror_store.keys_agree_def get_def get_stream_def
      get_human_def get_case_def get_juror_def get_contract_def get_exec_case_def settled_def
      get_or_new_def fun_eq_iff wealth_def)

section \<open>Runs of the chain\<close>

text \<open>
  \<open>chain_step env (t, s) e (t', s')\<close>: one step from state \<open>s\<close> at second \<open>t\<close>, with \<open>e\<close> the emission that the
  passing of time may add. Transactions come from ordinary senders, and no step is taken once the
  128-bit supply or the 64-bit id counters are exhausted.
\<close>

inductive chain_step :: "kernel_env \<Rightarrow> u64 \<times> mem_state \<Rightarrow> nat \<Rightarrow> u64 \<times> mem_state \<Rightarrow> bool" for env where
  tx_step: "tx_ok tx \<Longrightarrow> counters_left s \<Longrightarrow> wealth (bc_timestamp ctx) s < U128_MAX \<Longrightarrow>
    apply_tx env ctx s tx = Some (out, s') \<Longrightarrow> chain_step env (bc_timestamp ctx, s) 0 (bc_timestamp ctx, s')"
| sweep_step: "chain_step env (bc_timestamp ctx, s) 0 (bc_timestamp ctx, run_sweeps env ctx s)"
| epoch_step: "chain_step env (t, s) 0 (t, refresh_epoch_validators s height)"
| time_step: "t \<le> t' \<Longrightarrow> t' \<le> U64_MAX \<Longrightarrow>
    chain_step env (t, s) (verified_count s * (UBI * (t' - t) div EMISSION_PERIOD_SECS + 1)) (t', s)"

inductive chain_run :: "kernel_env \<Rightarrow> u64 \<times> mem_state \<Rightarrow> nat \<Rightarrow> u64 \<times> mem_state \<Rightarrow> bool" for env where
  run_refl: "chain_run env c 0 c"
| run_step: "chain_run env c e d \<Longrightarrow> chain_step env d f d' \<Longrightarrow> chain_run env c (e + f) d'"

lemma chain_step_sound:
  assumes "chain_step env (t, s) e (t', s')" "env_ok env" "engine_ok s" "t \<le> U64_MAX"
  shows "engine_ok s' \<and> wealth t' s' \<le> wealth t s + e \<and> t' \<le> U64_MAX \<and> t \<le> t'"
  using assms(1)
proof cases
  case (tx_step tx ctx out)
  then have "call_ok env ctx s tx" using assms by (simp add: call_ok_def)
  from apply_tx_sound [OF this] tx_step show ?thesis using assms(4) by (auto simp: sound_def)
next
  case (sweep_step ctx)
  with run_sweeps_sound [OF assms(3), of ctx env] show ?thesis using assms(4) by (auto simp: sound_def)
next
  case (epoch_step height)
  then show ?thesis using assms by (simp add: refresh_engine_ok)
next
  case time_step
  then show ?thesis using assms(3) wealth_growth [of t t' s] by simp
qed

lemma chain_run_sound:
  assumes "chain_run env c e d" "env_ok env" "engine_ok (snd c)" "fst c \<le> U64_MAX"
  shows "engine_ok (snd d) \<and> wealth (fst d) (snd d) \<le> wealth (fst c) (snd c) + e
    \<and> fst d \<le> U64_MAX \<and> fst c \<le> fst d"
  using assms(1,3,4)
proof induction
  case (run_step c e d f d')
  then show ?case
    using chain_step_sound [of env "fst d" "snd d" f "fst d'" "snd d'"] assms(2) by fastforce
qed simp

section \<open>Genesis\<close>

text \<open>What the node may seed before the first block: balances, verified humans and jurors.\<close>

inductive genesis :: "mem_state \<Rightarrow> bool" where
  genesis_new: "genesis mem_state_new"
| genesis_account: "genesis s \<Longrightarrow> get s a = None \<Longrightarrow> b \<le> U128_MAX \<Longrightarrow>
    genesis (put s ((fresh_account a)\<lparr>acc_settled_balance := b\<rparr>))"
| genesis_human: "genesis s \<Longrightarrow> t \<le> U64_MAX \<Longrightarrow> genesis (seed_verified_human s a t)"
| genesis_juror: "genesis s \<Longrightarrow> genesis (register_juror s a stake)"

lemma contracts_ok_tables:
  assumes "contracts_ok s" "ms_contracts s' = ms_contracts s" "ms_exec_cases s' = ms_exec_cases s"
    "ms_next_contract_id s' = ms_next_contract_id s" "\<And>a. settled s a \<le> settled s' a"
  shows "contracts_ok s'"
  using assms unfolding contracts_ok_def get_contract_def get_exec_case_def by (auto intro: order_trans)

lemma engine_ok_seed_account:
  assumes s: "engine_ok s" "get s a = None" and b: "b \<le> U128_MAX"
  defines "x \<equiv> (fresh_account a)\<lparr>acc_settled_balance := b\<rparr>"
  shows "engine_ok (put s x)"
proof -
  have new: "get_or_new s a = fresh_account a" using s(2) by (simp add: get_or_new_def)
  have "ledger_step 0 a 0 s (put s x)"
    by (rule ledger_step_put)
      (use new b in \<open>simp_all add: x_def settled_def acc_balance_def pending_emission_def\<close>)
  moreover have "ledger_ok (put s x)"
    using s(1) b by (intro ledger_ok_put) (simp_all add: x_def engine_ok_def chain_ok_def account_ok_def)
  ultimately have "chain_ok (put s x)"
    using s(1) ledger_step_chain_ok(1) unfolding engine_ok_def by blast
  moreover have "settled s c \<le> settled (put s x) c" for c
    using new by (simp add: settled_def x_def)
  from contracts_ok_tables [OF _ same_registries_fields(8,10,9) [OF same_registries_put] this]
  have "contracts_ok (put s x)" using s(1) by (simp add: engine_ok_def)
  ultimately show ?thesis by (simp add: engine_ok_def)
qed

lemma genesis_ok: "genesis s \<Longrightarrow> engine_ok s"
proof (induction rule: genesis.induct)
  case (genesis_account s a b)
  then show ?case by (simp add: engine_ok_seed_account)
next
  case (genesis_human s t a)
  let ?h = "\<lparr>hu_address = a, hu_status = Verified, hu_verified_at = t, hu_liveness_ref = 0, hu_vouches_in = [],
    hu_reputation = 0, hu_assurance = Std\<rparr>"
  have part: "ledger_part (put_human s ?h) = ledger_part s" by simp
  have "acc_address (get_or_new (put_human s ?h) a) = a"
    using engine_ok_addressed [OF genesis_human.IH] ledger_part_same(2) [OF part] by simp
  then have "tame t s (sync_account_verified (put_human s ?h) a True t)"
    by (intro tame_trans [OF tame_part [OF part] tame_sync]) simp_all
  then have "tame t s (seed_verified_human s a t)" by (simp add: seed_verified_human_def)
  from tame_sound [OF genesis_human.IH this] show ?case
    using genesis_human seed_verified_ok by (simp add: engine_ok_def sound_def)
next
  case (genesis_juror s a stake)
  have "tame 0 s (register_juror s a stake)"
    by (rule tame_part) (simp add: register_juror_def ledger_part_def put_juror_def)
  from tame_sound [OF genesis_juror.IH this] show ?case
    using genesis_juror register_juror_ok by (simp add: engine_ok_def sound_def)
qed simp

section \<open>Properties\<close>

text \<open>A genesis account that can pay, and an environment with stub oracle, interpreter and verifier.\<close>

definition kernel_demo :: mem_state where
  "kernel_demo = put mem_state_new ((funded 1 (10 * UBI))\<lparr>acc_nonce := 5\<rparr>)"

definition demo_env :: kernel_env where
  "demo_env = \<lparr>ke_keccak256 = (\<lambda>_. 0), ke_oracle = mock_oracle mock_oracle_default,
     ke_interpreter = (\<lambda>_ _ _. effect_new []), ke_verifier = mock_verifier (mock_zk_new False)\<rparr>"

definition demo_ctx :: block_ctx where
  "demo_ctx = \<lparr>bc_timestamp = 100, bc_number = 1, bc_block_hash = 0\<rparr>"

definition demo_tx :: "u64 \<Rightarrow> KernelKind \<Rightarrow> kernel_tx" where
  "demo_tx n k = \<lparr>tx_hash = 0, tx_from = 1, tx_nonce = n, tx_value = 0, tx_kind = k\<rparr>"

lemmas demo_kernel_defs = kernel_demo_def demo_env_def demo_ctx_def demo_tx_def

lemma not_escrow: "(1 :: address) \<noteq> contract_address cid"
  by (rule not_contract_address) code_simp

lemma genesis_demo: "genesis (put mem_state_new ((fresh_account 1)\<lparr>acc_settled_balance := 10 * UBI\<rparr>))"
  by (intro genesis_account genesis_new) (simp_all add: const_defs U128_MAX_def mem_state_new_def get_def)

lemma kernel_demo_ok: "engine_ok kernel_demo"
proof -
  let ?s = "put mem_state_new ((fresh_account 1)\<lparr>acc_settled_balance := 10 * UBI\<rparr>)"
  have "\<not> is_escrow 1" using not_escrow by (simp add: is_escrow_def)
  from nonce_write(1) [OF genesis_ok [OF genesis_demo] _ this, of 0 4]
  have "engine_ok (put ?s (settle (get_or_new ?s 1) 0\<lparr>acc_nonce := incr64 4\<rparr>))" by (simp add: keeps_def)
  moreover have "put ?s (settle (get_or_new ?s 1) 0\<lparr>acc_nonce := incr64 4\<rparr>) = kernel_demo"
  proof -
    have "get_or_new ?s 1 = (fresh_account 1)\<lparr>acc_settled_balance := 10 * UBI\<rparr>" by simp
    then have "settle (get_or_new ?s 1) 0\<lparr>acc_nonce := incr64 4\<rparr> = (funded 1 (10 * UBI))\<lparr>acc_nonce := 5\<rparr>"
      by (simp only:) (simp add: settle_def pending_emission_def funded_def const_defs sat_add128_def U128_MAX_def
          incr64_def U64_MAX_def)
    then show ?thesis by (simp only:) (simp add: kernel_demo_def put_def)
  qed
  ultimately show ?thesis by simp
qed

lemma demo_fee:
  "\<exists>fee s1. charge_fee kernel_demo 1 (kernel_gas (KStopStream 0)) 100 = (Inr fee, s1)"
proof -
  have "incoming kernel_demo 1 = []" by (simp add: kernel_demo_def mem_state_new_def incoming_def put_def bucket_def)
  then have "settle_incoming kernel_demo 1 100 = kernel_demo" by (simp add: settle_incoming_def)
  moreover have "bal kernel_demo 1 100 = 10 * UBI"
    by (simp add: kernel_demo_def acc_balance_def pending_emission_def const_defs U128_MAX_def)
  moreover have "fee_for_gas (kernel_gas (KStopStream 0)) \<le> 10 * UBI"
    by (simp add: fee_for_gas_def const_defs sat_mul128_def U128_MAX_def)
  ultimately show ?thesis by (simp add: charge_fee_def Let_def)
qed

lemma stop_mined:
  "\<exists>out s'. apply_tx env ctx s (demo_tx n (KStopStream k)) = Some (out, s')
     \<and> ((\<exists>fee s1. charge_fee s 1 (kernel_gas (KStopStream k)) (bc_timestamp ctx) = (Inr fee, s1)) \<longrightarrow> out \<noteq> None)"
  by (auto simp: apply_tx_def demo_tx_def after_nonce_def Let_def split: sum.split prod.split)

lemma demo_mined: "\<exists>out s'. apply_tx demo_env demo_ctx kernel_demo (demo_tx n (KStopStream 0)) = Some (Some out, s')"
  using stop_mined [of demo_env demo_ctx kernel_demo n 0] demo_fee by (auto simp: demo_ctx_def)





text \<open>
  C24: A failed transaction costs its fee and its nonce and nothing else. For every kind but transfers,
  contract funding, registration and challenges (whose own error paths write), the state after a
  failed transaction is the state after the fee with the sender settled and its nonce set to one past
  the transaction's.
\<close>

theorem failed_tx_exact:
  assumes "fails_clean (tx_kind tx)" "apply_tx env ctx s tx = Some (Some out, s')" "\<not> oo_success out" "engine_ok s"
  shows "\<exists>fee s1. charge_fee s (tx_from tx) (kernel_gas (tx_kind tx)) (bc_timestamp ctx) = (Inr fee, s1)
    \<and> s' = put s1 (settle (get_or_new s1 (tx_from tx)) (bc_timestamp ctx)\<lparr>acc_nonce := incr64 (tx_nonce tx)\<rparr>)"
proof -
  let ?a = "tx_from tx" and ?now = "bc_timestamp ctx"
  let ?x = "\<lambda>s. settle (get_or_new s ?a) ?now\<lparr>acc_nonce := incr64 (tx_nonce tx)\<rparr>"
  from assms(2,3) obtain fee s1 e s2 where f: "charge_fee s ?a (kernel_gas (tx_kind tx)) ?now = (Inr fee, s1)"
    and one: "apply_one env ctx s1 tx (tx_kind tx) = Some (Inl e, s2)" and s': "s' = put s2 (?x s2)"
    by (cases "charge_fee s ?a (kernel_gas (tx_kind tx)) ?now")
      (auto simp: apply_tx_def Let_def split: sum.splits option.splits)
  have "addressed s1" using fee_addressed [OF engine_ok_addressed [OF assms(4)] f] by simp
  then have "put (put s1 (?x s1)) (?x (put s1 (?x s1))) = put s1 (?x s1)"
    by (simp add: settle_nonce settle_idem put_again)
  with hub_error [OF assms(1) one] f s' show ?thesis by auto
qed

theorem failed_tx_exact_witness:
  "\<exists>out s' fee s1. apply_tx demo_env demo_ctx kernel_demo (demo_tx 0 (KStopStream 0)) = Some (Some out, s')
     \<and> charge_fee kernel_demo 1 (kernel_gas (KStopStream 0)) 100 = (Inr fee, s1)
     \<and> s' = put s1 (settle (get_or_new s1 1) 100\<lparr>acc_nonce := 1\<rparr>)"
proof -
  let ?tx = "demo_tx 0 (KStopStream 0)"
  obtain out s' where r: "apply_tx demo_env demo_ctx kernel_demo ?tx = Some (Some out, s')"
    using demo_mined by blast
  obtain fee s1 where fee: "charge_fee kernel_demo 1 (kernel_gas (KStopStream 0)) 100 = (Inr fee, s1)"
    using demo_fee by blast
  have "state_nonce s1 1 = 5"
    using fee_addressed [OF engine_ok_addressed [OF kernel_demo_ok] fee] by (simp add: state_nonce_eq kernel_demo_def)
  then have "\<not> oo_success out"
    using r fee hub_stale [of "KStopStream 0" ?tx s1 demo_env demo_ctx]
    by (auto simp: apply_tx_def demo_tx_def demo_ctx_def)
  from failed_tx_exact [OF _ r this kernel_demo_ok] r fee show ?thesis
    by (auto simp: demo_tx_def demo_ctx_def incr64_def U64_MAX_def)
qed

text \<open>
  C39: A stale transaction rewinds the sender's nonce. A transaction behind the kernel's nonce check
  that carries any nonce but the sender's is mined as failed, and the failed branch then sets the
  nonce to one past the one it carries, even below the sender's nonce.
\<close>

theorem stale_nonce_rewinds:
  assumes "fails_clean (tx_kind tx)" "engine_ok s" "tx_nonce tx \<noteq> state_nonce s (tx_from tx)"
    "charge_fee s (tx_from tx) (kernel_gas (tx_kind tx)) (bc_timestamp ctx) = (Inr fee, s1)"
  shows "\<exists>out s'. apply_tx env ctx s tx = Some (Some out, s') \<and> \<not> oo_success out
    \<and> oo_revert_reason out = Some (InvalidNonce (state_nonce s (tx_from tx)) (tx_nonce tx))
    \<and> state_nonce s' (tx_from tx) = incr64 (tx_nonce tx)"
proof -
  have fee: "addressed s1" "state_nonce s1 b = state_nonce s b" for b
    using fee_addressed [OF engine_ok_addressed [OF assms(2)] assms(4)] by simp_all
  have "apply_one env ctx s1 tx (tx_kind tx)
      = Some (Inl (InvalidNonce (state_nonce s (tx_from tx)) (tx_nonce tx)), s1)"
    using hub_stale [OF assms(1)] assms(3) fee(2) by simp
  then show ?thesis
    using assms(4) fee(1) by (simp add: apply_tx_def state_nonce_eq)
qed

theorem stale_nonce_rewinds_witness:
  "state_nonce kernel_demo 1 = 5
   \<and> (\<exists>out s'. apply_tx demo_env demo_ctx kernel_demo (demo_tx 0 (KStopStream 0)) = Some (Some out, s')
        \<and> \<not> oo_success out \<and> state_nonce s' 1 = 1)"
proof -
  obtain fee s1 where fee: "charge_fee kernel_demo 1 (kernel_gas (KStopStream 0)) 100 = (Inr fee, s1)"
    using demo_fee by blast
  have five: "state_nonce kernel_demo 1 = 5" by (simp add: state_nonce_eq kernel_demo_def)
  have "\<exists>out s'. apply_tx demo_env demo_ctx kernel_demo (demo_tx 0 (KStopStream 0)) = Some (Some out, s')
      \<and> \<not> oo_success out
      \<and> oo_revert_reason out = Some (InvalidNonce (state_nonce kernel_demo (tx_from (demo_tx 0 (KStopStream 0)))) 
          (tx_nonce (demo_tx 0 (KStopStream 0))))
      \<and> state_nonce s' (tx_from (demo_tx 0 (KStopStream 0))) = incr64 (tx_nonce (demo_tx 0 (KStopStream 0)))"
    by (rule stale_nonce_rewinds [OF _ kernel_demo_ok, where fee = fee and ?s1.0 = s1])
      (use fee five in \<open>simp_all add: demo_tx_def demo_ctx_def\<close>)
  with five show ?thesis by (auto simp: demo_tx_def incr64_def U64_MAX_def)
qed

end
