(* ===== verification/State_Root_Theorems.thy ===== *)
theory State_Root_Theorems
  imports State_Root
begin

text \<open>
  The pre-image of the state root and what it determines. \<open>self_delimiting\<close> is the contract every
  serialiser meets: from the bytes of a value and whatever follows them, the value and the rest are
  determined. It is closed under counted sequences, every codec of the effect wire format provides
  it, and each record of the state is an instance.
\<close>

section \<open>Self-delimiting encodings\<close>

locale self_delimiting =
  fixes enc :: "'a \<Rightarrow> byte list" and valid :: "'a \<Rightarrow> bool"
  assumes cut: "valid x \<Longrightarrow> valid y \<Longrightarrow> enc x @ r = enc y @ r' \<longleftrightarrow> x = y \<and> r = r'"
begin

lemma enc_inject: "valid x \<Longrightarrow> valid y \<Longrightarrow> enc x = enc y \<longleftrightarrow> x = y"
  using cut [of x y "[]" "[]"] by simp

lemma concat_cut:
  assumes "length xs = length ys" "list_all valid xs" "list_all valid ys"
  shows "concat (map enc xs) @ r = concat (map enc ys) @ r' \<longleftrightarrow> xs = ys \<and> r = r'"
  using assms by (induction xs ys arbitrary: r r' rule: list_induct2) (auto simp: cut)

end

context wire_codec
begin

lemma writer_cut:
  assumes "valid x" "valid y"
  shows "writer x @ r = writer y @ r' \<longleftrightarrow> x = y \<and> r = r'"
proof
  assume eq: "writer x @ r = writer y @ r'"
  have "rd (cursor_new (writer x @ r)) = Inr (x, advance (length (writer x)) (cursor_new (writer x @ r)))"
    using assms(1) by (intro read_write) simp_all
  moreover have "rd (cursor_new (writer x @ r)) = Inr (y, advance (length (writer y)) (cursor_new (writer x @ r)))"
    using assms(2) eq by (intro read_write [where bs = r']) simp_all
  ultimately show "x = y \<and> r = r'" using eq by simp
qed simp

end

sublocale wire_codec \<subseteq> self_delimiting writer valid
  by unfold_locales (rule writer_cut)

definition seq_bytes :: "('a \<Rightarrow> byte list) \<Rightarrow> 'a list \<Rightarrow> byte list" where
  "seq_bytes enc xs = u64_bytes (length xs) @ concat (map enc xs)"

definition all_range :: "('a \<Rightarrow> bool) \<Rightarrow> 'a list \<Rightarrow> bool" where
  "all_range P xs \<longleftrightarrow> length xs \<le> U64_MAX \<and> list_all P xs"

context self_delimiting
begin

lemma seq_cut:
  assumes "all_range valid xs" "all_range valid ys"
  shows "seq_bytes enc xs @ r = seq_bytes enc ys @ r' \<longleftrightarrow> xs = ys \<and> r = r'"
  using assms u64_codec.cut [of "length xs" "length ys"] concat_cut [of xs ys]
  by (auto simp: seq_bytes_def all_range_def)

lemma seq_inject: "all_range valid xs \<Longrightarrow> all_range valid ys \<Longrightarrow> seq_bytes enc xs = seq_bytes enc ys \<longleftrightarrow> xs = ys"
  using seq_cut [of xs ys "[]" "[]"] by simp

end

text \<open>A length-prefixed byte string.\<close>

definition blob_bytes :: "byte list \<Rightarrow> byte list" where
  "blob_bytes bs = u64_bytes (length bs) @ bs"

lemma blob_cut:
  assumes "length a \<le> U64_MAX" "length b \<le> U64_MAX"
  shows "blob_bytes a @ r = blob_bytes b @ r' \<longleftrightarrow> a = b \<and> r = r'"
  using assms u64_codec.cut [of "length a" "length b"] by (auto simp: blob_bytes_def)

section \<open>The bytes of a record\<close>

named_theorems absorbs

lemma write_write [simp]: "hasher_write b (hasher_write a h) = hasher_write (a @ b) h"
  by (simp add: hasher_write_append)

lemma primitive_absorbs [absorbs]:
  "hasher_u8 v h = hasher_write [of_nat v] h" "hasher_u64 w h = hasher_write (u64_bytes w) h"
  "hasher_u128 x h = hasher_write (u128_bytes x) h" "hasher_bytes bs h = hasher_write (blob_bytes bs) h"
  "hash_address a h = hasher_write (addr_bytes a) h" "hash_digest d h = hasher_write (hash_bytes d) h"
  by (simp_all add: hasher_u8_def hasher_u64_def hasher_u128_def hasher_bytes_def hash_address_def
      hash_digest_def u64_bytes_def u128_bytes_def blob_bytes_def)

definition i64_bytes :: "i64 \<Rightarrow> byte list" where
  "i64_bytes v = u64_bytes (nat (v mod 2 ^ 64))"

lemma i64_absorbs [absorbs]: "hasher_i64 v h = hasher_write (i64_bytes v) h"
  by (simp add: hasher_i64_def i64_bytes_def u64_bytes_def)

lemma fold_absorbs:
  assumes "\<And>x h. f x h = hasher_write (e x) h"
  shows "fold f xs h = hasher_write (concat (map e xs)) h"
  by (induction xs arbitrary: h) (simp_all add: assms)

lemma items_absorbs:
  assumes "\<And>x h. f x h = hasher_write (e x) h"
  shows "hash_items f xs h = hasher_write (seq_bytes e xs) h"
  using fold_absorbs [of f e xs] assms by (simp add: hash_items_def seq_bytes_def absorbs)

lemma section_absorbs:
  assumes "\<And>x h. f x h = hasher_write (e x) h"
  shows "hash_section tag f xs h = hasher_write (of_nat tag # seq_bytes e xs) h"
  using items_absorbs [of f e xs] assms by (simp add: hash_section_def absorbs)

definition account_bytes :: "account \<Rightarrow> byte list" where
  "account_bytes a = addr_bytes (acc_address a) @ of_bool (acc_verified a) # u64_bytes (acc_verified_at a)
     @ u128_bytes (acc_settled_balance a) @ u64_bytes (acc_last_settled_at a) @ u64_bytes (acc_nonce a)"

definition stream_status_bytes :: "StreamStatus \<Rightarrow> byte list" where
  "stream_status_bytes st = of_nat (fst (stream_status_tag st)) # u64_bytes (snd (stream_status_tag st))"

definition stream_bytes :: "stream \<Rightarrow> byte list" where
  "stream_bytes s = u64_bytes (st_id s) @ addr_bytes (st_from s) @ addr_bytes (st_to s) @ u128_bytes (st_rate s)
     @ u128_bytes (st_deposit s) @ u128_bytes (st_drawn s) @ u64_bytes (st_started_at s)
     @ stream_status_bytes (st_status s)"

definition verdict_bytes :: "canonical_verdict \<Rightarrow> byte list" where
  "verdict_bytes v = of_nat (verdict_tag (cv_verdict v)) # of_nat (confidence_tag (cv_confidence v))
     # hash_bytes (cv_reasons_hash v)"

definition effect_bytes :: "canonical_effect \<Rightarrow> byte list" where
  "effect_bytes e = blob_bytes (effect_encode e) @ hash_bytes (ef_effect_hash e)"

definition human_bytes :: "human \<Rightarrow> byte list" where
  "human_bytes hu = addr_bytes (hu_address hu) @ of_nat (human_status_tag (hu_status hu)) # u64_bytes (hu_verified_at hu)
     @ hash_bytes (hu_liveness_ref hu) @ seq_bytes addr_bytes (hu_vouches_in hu)
     @ i64_bytes (hu_reputation hu) @ [of_nat (assurance_tag (hu_assurance hu))]"

definition edge_bytes :: "address \<times> address \<Rightarrow> byte list" where
  "edge_bytes e = addr_bytes (fst e) @ addr_bytes (snd e)"

definition vote_bytes :: "address \<times> canonical_verdict \<Rightarrow> byte list" where
  "vote_bytes v = addr_bytes (fst v) @ verdict_bytes (snd v)"

fun case_status_bytes :: "CaseStatus \<Rightarrow> byte list" where
  "case_status_bytes Open = [0]"
| "case_status_bytes (Committed v) = 1 # verdict_bytes v"
| "case_status_bytes Escalated = [2]"

definition case_bytes :: "poh_case \<Rightarrow> byte list" where
  "case_bytes c = u64_bytes (cs_id c) @ addr_bytes (cs_subject c) @ addr_bytes (cs_challenger c)
     @ of_nat (case_kind_tag (cs_kind c)) # hash_bytes (cs_evidence_ref c) @ seq_bytes addr_bytes (cs_jury c)
     @ seq_bytes vote_bytes (cs_votes c) @ case_status_bytes (cs_status c) @ u64_bytes (cs_opened_at c)"

definition juror_bytes :: "juror \<Rightarrow> byte list" where
  "juror_bytes j = addr_bytes (ju_address j) @ u128_bytes (ju_stake j) @ [of_bool (ju_active j)]"

definition attributes_bytes :: "address \<times> hash list \<Rightarrow> byte list" where
  "attributes_bytes e = addr_bytes (fst e) @ concat (map hash_bytes (snd e))"

definition csca_bytes :: "csca_entry \<Rightarrow> byte list" where
  "csca_bytes e = ce_country_code e @ hash_bytes (ce_key_id e) @ blob_bytes (ce_pubkey e)
     @ u64_bytes (ce_added_at e) @ [of_nat (csca_status_tag (ce_status e))]"

definition identity_root_bytes :: "self_identity_root \<Rightarrow> byte list" where
  "identity_root_bytes e = hash_bytes (si_root e) @ u64_bytes (si_pinned_at_block e)"

definition ofac_root_bytes :: "self_ofac_root \<Rightarrow> byte list" where
  "ofac_root_bytes e = of_nat (so_kind e) # hash_bytes (so_root e) @ u64_bytes (so_pinned_at_block e)"

fun scope_bytes :: "hash option \<Rightarrow> byte list" where
  "scope_bytes (Some d) = 0x12 # 1 # hash_bytes d"
| "scope_bytes None = [0x12, 0]"

definition var_bytes :: "hash \<times> hash \<Rightarrow> byte list" where
  "var_bytes kv = hash_bytes (fst kv) @ hash_bytes (snd kv)"

definition contract_bytes :: "prompt_contract \<Rightarrow> byte list" where
  "contract_bytes c = u64_bytes (pc_id c) @ u128_bytes (pc_escrow c) @ seq_bytes addr_bytes (pc_parties c)
     @ blob_bytes (pc_text c) @ hash_bytes (pc_text_ref c) @ seq_bytes var_bytes (sorted_vars c)
     @ of_nat (contract_status_tag (pc_status c)) # u64_bytes (pc_deploy_block c) @ hash_bytes (pc_deploy_tx c)"

definition submission_bytes :: "address \<times> canonical_effect \<Rightarrow> byte list" where
  "submission_bytes e = addr_bytes (fst e) @ effect_bytes (snd e)"

fun exec_status_bytes :: "ExecStatus \<Rightarrow> byte list" where
  "exec_status_bytes ExecOpen = [0]"
| "exec_status_bytes (ExecCommitted e) = 1 # effect_bytes e"
| "exec_status_bytes Aborted = [2]"

fun resolved_bytes :: "u64 option \<Rightarrow> byte list" where
  "resolved_bytes None = [0]"
| "resolved_bytes (Some r) = 1 # u64_bytes r"

definition exec_case_bytes :: "exec_case \<Rightarrow> byte list" where
  "exec_case_bytes c = u64_bytes (ec_id c) @ u64_bytes (ec_contract c) @ hash_bytes (ec_trigger_ref c)
     @ addr_bytes (ec_invoker c) @ seq_bytes addr_bytes (ec_jury c) @ seq_bytes submission_bytes (ec_effects c)
     @ exec_status_bytes (ec_status c) @ u64_bytes (ec_opened_at c) @ resolved_bytes (ec_resolved_at c)"

lemma verdict_absorbs [absorbs]: "hash_verdict v h = hasher_write (verdict_bytes v) h"
  by (simp add: hash_verdict_def verdict_bytes_def absorbs)

lemma effect_absorbs [absorbs]: "hash_effect e h = hasher_write (effect_bytes e) h"
  by (simp add: hash_effect_def effect_bytes_def absorbs)

lemma pair_absorbs [absorbs]:
  "hash_edge e h = hasher_write (edge_bytes e) h" "hash_vote v h = hasher_write (vote_bytes v) h"
  "hash_var kv h = hasher_write (var_bytes kv) h" "hash_submission sb h = hasher_write (submission_bytes sb) h"
  by (simp_all add: hash_edge_def edge_bytes_def hash_vote_def vote_bytes_def hash_var_def var_bytes_def
      hash_submission_def submission_bytes_def absorbs)

lemma case_status_absorbs [absorbs]: "hash_case_status st h = hasher_write (case_status_bytes st) h"
  by (cases st) (simp_all add: absorbs)

lemma exec_status_absorbs [absorbs]: "hash_exec_status st h = hasher_write (exec_status_bytes st) h"
  by (cases st) (simp_all add: absorbs)

lemma scope_absorbs [absorbs]: "hash_scope sc h = hasher_write (scope_bytes sc) h"
  by (cases sc) (simp_all add: hash_scope_def absorbs)

lemmas item_absorbs [absorbs] =
  items_absorbs [of hash_address, OF primitive_absorbs(5)] items_absorbs [of hash_vote, OF pair_absorbs(2)]
  items_absorbs [of hash_var, OF pair_absorbs(3)] items_absorbs [of hash_submission, OF pair_absorbs(4)]

lemma record_absorbs [absorbs]:
  "hash_account a h = hasher_write (account_bytes a) h" "hash_stream s h = hasher_write (stream_bytes s) h"
  "hash_human hu h = hasher_write (human_bytes hu) h" "hash_case c h = hasher_write (case_bytes c) h"
  "hash_juror j h = hasher_write (juror_bytes j) h" "hash_csca e h = hasher_write (csca_bytes e) h"
  "hash_identity_root ir h = hasher_write (identity_root_bytes ir) h"
  "hash_ofac_root ofr h = hasher_write (ofac_root_bytes ofr) h"
  "hash_contract pc h = hasher_write (contract_bytes pc) h"
  by (simp_all add: absorbs hash_account_def account_bytes_def hash_stream_def stream_bytes_def
      stream_status_bytes_def hash_human_def human_bytes_def hash_case_def case_bytes_def hash_juror_def
      juror_bytes_def hash_csca_def csca_bytes_def hash_identity_root_def identity_root_bytes_def
      hash_ofac_root_def ofac_root_bytes_def hash_contract_def contract_bytes_def case_prod_beta)

lemma attributes_absorbs [absorbs]: "hash_attributes e h = hasher_write (attributes_bytes e) h"
  using fold_absorbs [of hash_digest hash_bytes] by (simp add: hash_attributes_def attributes_bytes_def absorbs)

lemma exec_case_absorbs [absorbs]: "hash_exec_case c h = hasher_write (exec_case_bytes c) h"
  by (cases "ec_resolved_at c") (simp_all add: hash_exec_case_def exec_case_bytes_def absorbs)

section \<open>The pre-image\<close>

definition counter_bytes :: "mem_state \<Rightarrow> byte list" where
  "counter_bytes s = 0x0a # u64_bytes (ms_next_id s) @ u64_bytes (ms_next_case_id s)
     @ u64_bytes (ms_next_contract_id s) @ u64_bytes (ms_next_exec_case_id s)"

definition root_bytes :: "mem_state \<Rightarrow> byte list" where
  "root_bytes s = blob_bytes ROOT_DOMAIN
     @ 0x01 # seq_bytes account_bytes (sort_key acc_address (accounts s))
     @ 0x02 # seq_bytes stream_bytes (sort_key st_id (all_streams s))
     @ 0x03 # seq_bytes human_bytes (humans s)
     @ 0x04 # seq_bytes edge_bytes (vouch_edges s)
     @ 0x05 # seq_bytes edge_bytes (cleared_challenges_sorted s)
     @ 0x06 # seq_bytes case_bytes (all_cases s)
     @ 0x07 # seq_bytes juror_bytes (committed_jurors s)
     @ 0x0b # seq_bytes hash_bytes (nullifiers s)
     @ 0x0c # seq_bytes attributes_bytes (attribute_store s)
     @ 0x0d # seq_bytes csca_bytes (csca_entries s)
     @ 0x10 # seq_bytes identity_root_bytes (self_identity_roots s)
     @ 0x11 # seq_bytes ofac_root_bytes (self_ofac_roots s)
     @ scope_bytes (ms_self_scope s)
     @ 0x08 # seq_bytes contract_bytes (contracts s)
     @ 0x09 # seq_bytes exec_case_bytes (exec_cases s)
     @ 0x0e # seq_bytes addr_bytes (ms_epoch_validators s)
     @ counter_bytes s"

lemmas section_writes =
  section_absorbs [of hash_account, OF record_absorbs(1)] section_absorbs [of hash_stream, OF record_absorbs(2)]
  section_absorbs [of hash_human, OF record_absorbs(3)] section_absorbs [of hash_case, OF record_absorbs(4)]
  section_absorbs [of hash_juror, OF record_absorbs(5)] section_absorbs [of hash_csca, OF record_absorbs(6)]
  section_absorbs [of hash_identity_root, OF record_absorbs(7)] section_absorbs [of hash_ofac_root, OF record_absorbs(8)]
  section_absorbs [of hash_contract, OF record_absorbs(9)] section_absorbs [of hash_exec_case, OF exec_case_absorbs]
  section_absorbs [of hash_attributes, OF attributes_absorbs] section_absorbs [of hash_edge, OF pair_absorbs(1)]
  section_absorbs [of hash_digest, OF primitive_absorbs(6)] section_absorbs [of hash_address, OF primitive_absorbs(5)]

lemma state_root_digest: "state_root s = fnv1a_256 (root_bytes s)"
  unfolding streaming_eq_one_shot [symmetric]
  by (simp add: state_root_def root_bytes_def counter_bytes_def absorbs section_writes)

section \<open>Every serialiser is self-delimiting\<close>

text \<open>The widths of the machine integers and of the fixed-size arrays.\<close>

lemma human_status_inject [simp]: "(of_nat (human_status_tag a) :: byte) = of_nat (human_status_tag b) \<longleftrightarrow> a = b"
  by (cases a; cases b) simp_all

lemma verdict_inject [simp]: "(of_nat (verdict_tag a) :: byte) = of_nat (verdict_tag b) \<longleftrightarrow> a = b"
  by (cases a; cases b) simp_all

lemma confidence_inject [simp]: "(of_nat (confidence_tag a) :: byte) = of_nat (confidence_tag b) \<longleftrightarrow> a = b"
  by (cases a; cases b) simp_all

lemma assurance_inject [simp]: "(of_nat (assurance_tag a) :: byte) = of_nat (assurance_tag b) \<longleftrightarrow> a = b"
  by (cases a; cases b) simp_all

lemma case_kind_inject [simp]: "(of_nat (case_kind_tag a) :: byte) = of_nat (case_kind_tag b) \<longleftrightarrow> a = b"
  by (cases a; cases b) simp_all

lemma csca_status_inject [simp]: "(of_nat (csca_status_tag a) :: byte) = of_nat (csca_status_tag b) \<longleftrightarrow> a = b"
  by (cases a; cases b) simp_all

lemma contract_status_inject [simp]: "(of_nat (contract_status_tag a) :: byte) = of_nat (contract_status_tag b) \<longleftrightarrow> a = b"
  by (cases a; cases b) simp_all

lemma bool_inject [simp]: "(of_bool a :: byte) = of_bool b \<longleftrightarrow> a = b"
  by (cases a; cases b; simp)

lemma i64_cut:
  assumes "I64_MIN \<le> a" "a \<le> I64_MAX" "I64_MIN \<le> b" "b \<le> I64_MAX"
  shows "i64_bytes a @ r = i64_bytes b @ r' \<longleftrightarrow> a = b \<and> r = r'"
proof -
  have range: "nat (v mod 2 ^ 64) \<le> U64_MAX" for v :: int
    by (simp add: U64_MAX_def nat_le_iff)
  have "a mod 2 ^ 64 = b mod 2 ^ 64 \<longleftrightarrow> a = b"
  proof
    assume "a mod 2 ^ 64 = b mod 2 ^ 64"
    then have "2 ^ 64 dvd a - b" by (simp only: mod_eq_dvd_iff)
    then show "a = b"
      using assms dvd_imp_le_int [of "a - b" "2 ^ 64"] by (force simp: I64_MIN_def I64_MAX_def)
  qed simp
  then show ?thesis
    using u64_codec.cut [OF range range] by (simp add: i64_bytes_def eq_nat_nat_iff)
qed

lemmas cuts = addr_codec.cut hash_codec.cut u64_codec.cut u128_codec.cut blob_cut i64_cut
  u64_codec.enc_inject u128_codec.enc_inject
  addr_codec.seq_cut hash_codec.seq_cut

definition stream_range :: "stream \<Rightarrow> bool" where
  "stream_range s \<longleftrightarrow> st_id s \<le> U64_MAX \<and> st_rate s \<le> U128_MAX \<and> st_deposit s \<le> U128_MAX \<and> st_drawn s \<le> U128_MAX
     \<and> st_started_at s \<le> U64_MAX \<and> (case st_status s of Stopped at \<Rightarrow> at \<le> U64_MAX | _ \<Rightarrow> True)"

definition human_range :: "human \<Rightarrow> bool" where
  "human_range h \<longleftrightarrow> hu_verified_at h \<le> U64_MAX \<and> all_range (\<lambda>_. True) (hu_vouches_in h)
     \<and> I64_MIN \<le> hu_reputation h \<and> hu_reputation h \<le> I64_MAX"

definition case_range :: "poh_case \<Rightarrow> bool" where
  "case_range c \<longleftrightarrow> cs_id c \<le> U64_MAX \<and> all_range (\<lambda>_. True) (cs_jury c) \<and> all_range (\<lambda>_. True) (cs_votes c)
     \<and> cs_opened_at c \<le> U64_MAX"

definition effect_range :: "canonical_effect \<Rightarrow> bool" where
  "effect_range e \<longleftrightarrow> length (ef_ops e) < 2 ^ 32 \<and> list_all op_ok (ef_ops e) \<and> length (effect_encode e) \<le> U64_MAX"

definition csca_range :: "csca_entry \<Rightarrow> bool" where
  "csca_range e \<longleftrightarrow> length (ce_country_code e) = 3 \<and> length (ce_pubkey e) \<le> U64_MAX \<and> ce_added_at e \<le> U64_MAX"

definition contract_range :: "prompt_contract \<Rightarrow> bool" where
  "contract_range c \<longleftrightarrow> pc_id c \<le> U64_MAX \<and> pc_escrow c \<le> U128_MAX \<and> all_range (\<lambda>_. True) (pc_parties c)
     \<and> length (pc_text c) \<le> U64_MAX \<and> all_range (\<lambda>_. True) (sorted_vars c) \<and> pc_deploy_block c \<le> U64_MAX"

definition exec_case_range :: "exec_case \<Rightarrow> bool" where
  "exec_case_range c \<longleftrightarrow> ec_id c \<le> U64_MAX \<and> ec_contract c \<le> U64_MAX \<and> all_range (\<lambda>_. True) (ec_jury c)
     \<and> all_range (\<lambda>e. effect_range (snd e)) (ec_effects c)
     \<and> (case ec_status c of ExecCommitted e \<Rightarrow> effect_range e | _ \<Rightarrow> True)
     \<and> ec_opened_at c \<le> U64_MAX \<and> (case ec_resolved_at c of Some r \<Rightarrow> r \<le> U64_MAX | None \<Rightarrow> True)"

interpretation account_enc: self_delimiting account_bytes account_ok
  by unfold_locales (auto simp: account_bytes_def account_ok_def cuts intro: account.equality)

lemma stream_status_cut:
  assumes "case a of Stopped at \<Rightarrow> at \<le> U64_MAX | _ \<Rightarrow> True" "case b of Stopped at \<Rightarrow> at \<le> U64_MAX | _ \<Rightarrow> True"
  shows "stream_status_bytes a @ r = stream_status_bytes b @ r' \<longleftrightarrow> a = b \<and> r = r'"
  using assms by (cases a; cases b) (simp_all add: stream_status_bytes_def cuts)

interpretation stream_enc: self_delimiting stream_bytes stream_range
  by unfold_locales (auto simp: stream_bytes_def stream_range_def cuts stream_status_cut intro: stream.equality)

interpretation verdict_enc: self_delimiting verdict_bytes "\<lambda>_. True"
  by unfold_locales (auto simp: verdict_bytes_def cuts intro: canonical_verdict.equality)

interpretation edge_enc: self_delimiting edge_bytes "\<lambda>_. True"
  by unfold_locales (auto simp: edge_bytes_def cuts prod_eq_iff)

interpretation vote_enc: self_delimiting vote_bytes "\<lambda>_. True"
  by unfold_locales (auto simp: vote_bytes_def cuts verdict_enc.cut prod_eq_iff)

interpretation var_enc: self_delimiting var_bytes "\<lambda>_. True"
  by unfold_locales (auto simp: var_bytes_def cuts prod_eq_iff)

interpretation human_enc: self_delimiting human_bytes human_range
  by unfold_locales (auto simp: human_bytes_def human_range_def cuts intro: human.equality)

lemma case_status_cut: "case_status_bytes a @ r = case_status_bytes b @ r' \<longleftrightarrow> a = b \<and> r = r'"
  by (cases a; cases b) (auto simp: verdict_enc.cut)

interpretation case_enc: self_delimiting case_bytes case_range
  by unfold_locales (auto simp: case_bytes_def case_range_def cuts vote_enc.seq_cut case_status_cut
      intro: poh_case.equality)

interpretation juror_enc: self_delimiting juror_bytes "\<lambda>j. ju_stake j \<le> U128_MAX"
  by unfold_locales (auto simp: juror_bytes_def cuts intro: juror.equality)

interpretation attributes_enc: self_delimiting attributes_bytes "\<lambda>e. length (snd e) = 3"
  by unfold_locales (auto simp: attributes_bytes_def cuts hash_codec.concat_cut list_all_iff prod_eq_iff)

interpretation csca_enc: self_delimiting csca_bytes csca_range
  by unfold_locales (auto simp: csca_bytes_def csca_range_def cuts intro: csca_entry.equality)

interpretation identity_root_enc: self_delimiting identity_root_bytes "\<lambda>e. si_pinned_at_block e \<le> U64_MAX"
  by unfold_locales (auto simp: identity_root_bytes_def cuts intro: self_identity_root.equality)

interpretation ofac_root_enc: self_delimiting ofac_root_bytes "\<lambda>e. so_kind e < 256 \<and> so_pinned_at_block e \<le> U64_MAX"
proof
  fix x y :: self_ofac_root and r r' :: "byte list"
  assume *: "so_kind x < 256 \<and> so_pinned_at_block x \<le> U64_MAX" "so_kind y < 256 \<and> so_pinned_at_block y \<le> U64_MAX"
  then have "(of_nat (so_kind x) :: byte) = of_nat (so_kind y) \<longleftrightarrow> so_kind x = so_kind y"
    using u8_codec.enc_inject [of "so_kind x" "so_kind y"] by simp
  with * show "ofac_root_bytes x @ r = ofac_root_bytes y @ r' \<longleftrightarrow> x = y \<and> r = r'"
    by (auto simp: ofac_root_bytes_def cuts intro: self_ofac_root.equality)
qed

lemma fmap_values_inject: "sorted_list_of_fmap m = sorted_list_of_fmap n \<Longrightarrow> m = n"
  by (rule fmap_ext) (metis map_of_sorted_list)

interpretation contract_enc: self_delimiting contract_bytes contract_range
  by unfold_locales (auto simp: contract_bytes_def contract_range_def cuts var_enc.seq_cut sorted_vars_def
      intro!: prompt_contract.equality dest: fmap_values_inject)

lemma effect_encode_inject:
  assumes "effect_range a" "effect_range b"
  shows "effect_encode a = effect_encode b \<longleftrightarrow> ef_ops a = ef_ops b"
proof
  assume "effect_encode a = effect_encode b"
  then have "encode_ops (ef_ops a) = encode_ops (ef_ops b)" by (simp add: effect_encode_def)
  moreover have "decode_effect (encode_ops (ef_ops e)) = Inr (effect_new (ef_ops e))" if "effect_range e" for e
    using that by (auto simp: decode_effect_iff effect_range_def)
  ultimately have "effect_new (ef_ops a) = effect_new (ef_ops b)" using assms by (metis sum.inject(2))
  then show "ef_ops a = ef_ops b" by (simp add: effect_new_def)
qed (simp add: effect_encode_def)

interpretation effect_enc: self_delimiting effect_bytes effect_range
proof
  fix x y r r'
  assume *: "effect_range x" "effect_range y"
  then have "length (effect_encode x) \<le> U64_MAX" "length (effect_encode y) \<le> U64_MAX"
    by (simp_all add: effect_range_def)
  then show "effect_bytes x @ r = effect_bytes y @ r' \<longleftrightarrow> x = y \<and> r = r'"
    using * by (auto simp: effect_bytes_def cuts effect_encode_inject intro: canonical_effect.equality)
qed

interpretation submission_enc: self_delimiting submission_bytes "\<lambda>e. effect_range (snd e)"
  by unfold_locales (auto simp: submission_bytes_def cuts effect_enc.cut prod_eq_iff)

lemma exec_status_cut:
  assumes "case a of ExecCommitted e \<Rightarrow> effect_range e | _ \<Rightarrow> True" "case b of ExecCommitted e \<Rightarrow> effect_range e | _ \<Rightarrow> True"
  shows "exec_status_bytes a @ r = exec_status_bytes b @ r' \<longleftrightarrow> a = b \<and> r = r'"
  using assms by (cases a; cases b) (auto simp: effect_enc.cut)

lemma resolved_cut:
  assumes "case a of Some r \<Rightarrow> r \<le> U64_MAX | None \<Rightarrow> True" "case b of Some r \<Rightarrow> r \<le> U64_MAX | None \<Rightarrow> True"
  shows "resolved_bytes a @ r = resolved_bytes b @ r' \<longleftrightarrow> a = b \<and> r = r'"
  using assms by (cases a; cases b) (auto simp: cuts)

interpretation exec_case_enc: self_delimiting exec_case_bytes exec_case_range
  by unfold_locales (auto simp: exec_case_bytes_def exec_case_range_def cuts submission_enc.seq_cut
      exec_status_cut resolved_cut intro: exec_case.equality)

lemma scope_cut: "scope_bytes a @ r = scope_bytes b @ r' \<longleftrightarrow> a = b \<and> r = r'"
  by (cases a; cases b) (auto simp: cuts)

section \<open>What is committed\<close>

text \<open>
  The committed part of a state, as the root reads it: every collection as its sorted list, the
  scope, the validator snapshot and the counters.
\<close>

record commitment =
  cm_accounts :: "account list"
  cm_streams :: "stream list"
  cm_humans :: "human list"
  cm_edges :: "(address \<times> address) list"
  cm_cleared :: "(address \<times> address) list"
  cm_cases :: "poh_case list"
  cm_jurors :: "juror list"
  cm_nullifiers :: "hash list"
  cm_attributes :: "(address \<times> hash list) list"
  cm_csca :: "csca_entry list"
  cm_identity_roots :: "self_identity_root list"
  cm_ofac_roots :: "self_ofac_root list"
  cm_scope :: "hash option"
  cm_contracts :: "prompt_contract list"
  cm_exec_cases :: "exec_case list"
  cm_validators :: "address list"
  cm_counters :: "u64 \<times> u64 \<times> u64 \<times> u64"

definition committed :: "mem_state \<Rightarrow> commitment" where
  "committed s = \<lparr>cm_accounts = sort_key acc_address (accounts s), cm_streams = sort_key st_id (all_streams s),
     cm_humans = humans s, cm_edges = vouch_edges s, cm_cleared = cleared_challenges_sorted s,
     cm_cases = all_cases s, cm_jurors = committed_jurors s, cm_nullifiers = nullifiers s,
     cm_attributes = attribute_store s, cm_csca = csca_entries s, cm_identity_roots = self_identity_roots s,
     cm_ofac_roots = self_ofac_roots s, cm_scope = ms_self_scope s, cm_contracts = contracts s,
     cm_exec_cases = exec_cases s, cm_validators = ms_epoch_validators s,
     cm_counters = (ms_next_id s, ms_next_case_id s, ms_next_contract_id s, ms_next_exec_case_id s)\<rparr>"

definition in_range :: "mem_state \<Rightarrow> bool" where
  "in_range s \<longleftrightarrow> all_range account_ok (sort_key acc_address (accounts s))
     \<and> all_range stream_range (sort_key st_id (all_streams s)) \<and> all_range human_range (humans s)
     \<and> all_range (\<lambda>_. True) (vouch_edges s) \<and> all_range (\<lambda>_. True) (cleared_challenges_sorted s)
     \<and> all_range case_range (all_cases s) \<and> all_range (\<lambda>j. ju_stake j \<le> U128_MAX) (committed_jurors s)
     \<and> all_range (\<lambda>_. True) (nullifiers s) \<and> all_range (\<lambda>e. length (snd e) = 3) (attribute_store s)
     \<and> all_range csca_range (csca_entries s)
     \<and> all_range (\<lambda>e. si_pinned_at_block e \<le> U64_MAX) (self_identity_roots s)
     \<and> all_range (\<lambda>e. so_kind e < 256 \<and> so_pinned_at_block e \<le> U64_MAX) (self_ofac_roots s)
     \<and> all_range contract_range (contracts s) \<and> all_range exec_case_range (exec_cases s)
     \<and> all_range (\<lambda>_. True) (ms_epoch_validators s) \<and> ms_next_id s \<le> U64_MAX \<and> ms_next_case_id s \<le> U64_MAX
     \<and> ms_next_contract_id s \<le> U64_MAX \<and> ms_next_exec_case_id s \<le> U64_MAX"

lemmas seq_cuts = account_enc.seq_cut stream_enc.seq_cut human_enc.seq_cut edge_enc.seq_cut case_enc.seq_cut
  juror_enc.seq_cut attributes_enc.seq_cut csca_enc.seq_cut identity_root_enc.seq_cut ofac_root_enc.seq_cut
  contract_enc.seq_cut exec_case_enc.seq_cut

lemma root_bytes_iff:
  assumes "in_range s" "in_range s'"
  shows "root_bytes s = root_bytes s' \<longleftrightarrow> committed s = committed s'"
  using assms
  by (simp add: root_bytes_def committed_def in_range_def counter_bytes_def seq_cuts cuts scope_cut
      addr_codec.seq_inject)

lemmas committed_reads = accounts_def all_streams_def humans_def vouch_edges_def cleared_challenges_sorted_def
  all_cases_def committed_jurors_def active_jurors_def get_juror_def [abs_def] nullifiers_def attribute_store_def
  csca_entries_def self_identity_roots_def self_ofac_roots_def contracts_def exec_cases_def

lemma state_root_cong: "committed s = committed t \<Longrightarrow> state_root s = state_root t"
  by (simp add: state_root_digest root_bytes_def committed_def counter_bytes_def)

text \<open>Every record is stored under its own key.\<close>

definition keyed :: "mem_state \<Rightarrow> bool" where
  "keyed s \<longleftrightarrow> acct_store.keys_agree s \<and> stream_store.keys_agree s \<and> human_store.keys_agree s
     \<and> case_store.keys_agree s \<and> contract_store.keys_agree s \<and> exec_store.keys_agree s"

lemma lookup_values:
  assumes "\<And>k v. fmlookup m k = Some v \<Longrightarrow> key v = k" "\<And>k v. fmlookup n k = Some v \<Longrightarrow> key v = k"
    "set (fm_values m) = set (fm_values n)"
  shows "fmlookup m = fmlookup n"
proof -
  have "fmlookup m k = Some v \<longleftrightarrow> v \<in> set (fm_values m) \<and> key v = k" for k v
    using assms(1) by (auto simp: set_fm_values)
  moreover have "fmlookup n k = Some v \<longleftrightarrow> v \<in> set (fm_values n) \<and> key v = k" for k v
    using assms(2) by (auto simp: set_fm_values)
  ultimately have same: "fmlookup m k = Some v \<longleftrightarrow> fmlookup n k = Some v" for k v
    using assms(3) by simp
  have "fmlookup m k = fmlookup n k" for k
    using same [of k "the (fmlookup m k)"] same [of k "the (fmlookup n k)"]
    by (cases "fmlookup n k"; cases "fmlookup m k") auto
  then show ?thesis by (rule ext)
qed

lemma committed_lookups:
  assumes "keyed s" "keyed s'" "committed s = committed s'"
  shows "get s = get s'" "get_stream s = get_stream s'" "get_human s = get_human s'" "get_case s = get_case s'"
    "get_contract s = get_contract s'" "get_exec_case s = get_exec_case s'"
proof -
  have c: "set (accounts s) = set (accounts s')" "set (all_streams s) = set (all_streams s')" "humans s = humans s'"
    "all_cases s = all_cases s'" "contracts s = contracts s'" "exec_cases s = exec_cases s'"
    using assms(3) unfolding committed_def by (auto dest: arg_cong [of _ _ set])
  note k = assms(1,2) [unfolded keyed_def acct_store.keys_agree_def stream_store.keys_agree_def human_store.keys_agree_def
    case_store.keys_agree_def contract_store.keys_agree_def exec_store.keys_agree_def]
  show "get s = get s'"
    using lookup_values [of "ms_accounts s" acc_address "ms_accounts s'"] k c(1)
    by (simp add: get_def [abs_def] accounts_def fun_eq_iff)
  show "get_stream s = get_stream s'"
    using lookup_values [of "ms_streams s" st_id "ms_streams s'"] k c(2)
    by (simp add: get_stream_def [abs_def] all_streams_def fun_eq_iff)
  show "get_human s = get_human s'"
    using lookup_values [of "ms_humans s" hu_address "ms_humans s'"] k c(3)
    by (simp add: get_human_def [abs_def] humans_def fun_eq_iff)
  show "get_case s = get_case s'"
    using lookup_values [of "ms_cases s" cs_id "ms_cases s'"] k c(4)
    by (simp add: get_case_def [abs_def] all_cases_def fun_eq_iff)
  show "get_contract s = get_contract s'"
    using lookup_values [of "ms_contracts s" pc_id "ms_contracts s'"] k c(5)
    by (simp add: get_contract_def [abs_def] contracts_def fun_eq_iff)
  show "get_exec_case s = get_exec_case s'"
    using lookup_values [of "ms_exec_cases s" ec_id "ms_exec_cases s'"] k c(6)
    by (simp add: get_exec_case_def [abs_def] exec_cases_def fun_eq_iff)
qed

section \<open>Properties\<close>

text \<open>
  C21: The state root commits to the state. The root is the digest of one byte string; two states whose
  fields have their machine widths have the same byte string exactly when everything that is committed
  agrees, so no two different committed states alias, and a change of any committed field changes
  the pre-image; and two states with the same pre-image answer every lookup of an account, stream, human, case, contract
  and execution case alike.
\<close>

theorem state_root_commits:
  assumes "in_range s" "in_range s'" "keyed s" "keyed s'"
  shows "state_root s = fnv1a_256 (root_bytes s)
    \<and> (root_bytes s = root_bytes s' \<longleftrightarrow> committed s = committed s')
    \<and> (root_bytes s = root_bytes s' \<longrightarrow> get s = get s' \<and> get_stream s = get_stream s' \<and> get_human s = get_human s'
         \<and> get_case s = get_case s' \<and> get_contract s = get_contract s' \<and> get_exec_case s = get_exec_case s')"
  using root_bytes_iff [OF assms(1,2)] committed_lookups [OF assms(3,4)] by (simp add: state_root_digest)

theorem state_root_commits_witness:
  "root_bytes (put mem_state_new (fresh_account 1)) \<noteq> root_bytes mem_state_new"
proof -
  let ?s = "put mem_state_new (fresh_account 1)"
  have range: "in_range ?s" "in_range mem_state_new"
    by (simp_all add: in_range_def all_range_def committed_reads put_def mem_state_new_def fm_values_eq
        map_filter_simps U64_MAX_def sorted_list_of_fmap_def sorted_list_of_fset.rep_eq)
  have keys: "keyed ?s" "keyed mem_state_new"
    by (simp_all add: keyed_def acct_store.keys_agree_def stream_store.keys_agree_def human_store.keys_agree_def
        case_store.keys_agree_def contract_store.keys_agree_def exec_store.keys_agree_def)
      (simp_all add: mem_state_new_def state_defs)
  have "get ?s 1 \<noteq> get mem_state_new 1" by (simp add: get_def put_def mem_state_new_def)
  then show ?thesis using state_root_commits [OF range keys] by metis
qed

text \<open>
  What the root leaves out. The header of the module says that changing any field must change the
  root. The governance address of the trust-anchor registry is not committed, nor is the record of an
  inactive juror, so two different states can have the same root.
\<close>

theorem state_root_omits:
  "state_root (set_csca_governance s g) = state_root s
   \<and> (\<exists>t t'. get_juror t \<noteq> get_juror t' \<and> state_root t = state_root t')"
proof
  have "committed (set_csca_governance s g) = committed s"
    by (simp add: committed_def committed_reads set_csca_governance_def)
  then show "state_root (set_csca_governance s g) = state_root s" by (rule state_root_cong)
  let ?t = "put_juror mem_state_new \<lparr>ju_address = 1, ju_stake = 5, ju_active = False\<rparr>"
  have "get_juror ?t 1 \<noteq> get_juror mem_state_new 1" by (simp add: get_juror_def put_juror_def mem_state_new_def)
  moreover have "committed ?t = committed mem_state_new"
    by (simp add: committed_def committed_reads put_juror_def mem_state_new_def fm_values_eq map_filter_simps
        sorted_list_of_fset.rep_eq)
  then have "state_root ?t = state_root mem_state_new" by (rule state_root_cong)
  ultimately show "\<exists>t t'. get_juror t \<noteq> get_juror t' \<and> state_root t = state_root t'" by metis
qed

end
