(* ===== verification/Tx_Decode.thy ===== *)
theory Tx_Decode
  imports Kernel Effect_Codec
begin

text \<open>
  The decoding of raw transactions (\<^verbatim>\<open>decode_tx\<close> and the hub parsers of \<^verbatim>\<open>crates/exec/src/op.rs\<close>).
  The envelope decoder with its signer recovery (\<^verbatim>\<open>alloy_consensus\<close>) and the ABI decoders with their
  selectors (\<^verbatim>\<open>alloy_sol_types\<close>) are third-party code and arguments of the definitions: an envelope
  decoder and a record of call decoders. Their \<open>uint256\<close> results are natural numbers.
\<close>

section \<open>What the libraries provide\<close>

type_synonym u256 = nat

record envelope =
  en_tx_hash :: hash
  en_chain_id :: "u64 option"
  en_recover_signer :: "string + address"
  en_to :: "address option"
  en_nonce :: u64
  en_input :: "byte list"
  en_value :: u256
  en_tx_type :: u8
  en_max_fee_per_gas :: u128
  en_max_priority_fee_per_gas :: "u128 option"

record 'a sol_call =
  sc_selector :: "byte list"
  sc_abi_decode :: "byte list \<Rightarrow> string + 'a"

record hub_abi =
  openStreamCall :: "(address \<times> u256 \<times> u256) sol_call"
  stopStreamCall :: "u256 sol_call"
  requestVerificationCall :: "hash sol_call"
  vouchCall :: "address sol_call"
  challengeCall :: "(address \<times> hash) sol_call"
  submitVerdictCall :: "(u256 \<times> u8 \<times> u8) sol_call"
  submitZkPassportProofCall :: "(byte list \<times> hash list \<times> u8 \<times> byte list) sol_call"
  registerCscaCall :: "(byte list \<times> hash \<times> byte list) sol_call"
  revokeCscaCall :: "hash sol_call"
  pinSelfIdentityRootCall :: "hash sol_call"
  pinSelfOfacRootCall :: "(u8 \<times> hash) sol_call"
  retireSelfRootCall :: "hash sol_call"
  deployContractCall :: "(byte list \<times> address list) sol_call"
  fundContractCall :: "u256 sol_call"
  invokeContractCall :: "(u256 \<times> hash) sol_call"
  submitEffectCall :: "(u256 \<times> byte list) sol_call"
  transferFromCall :: "unit sol_call"
  safeTransferFromCall :: "unit sol_call"
  approveCall :: "unit sol_call"
  setApprovalForAllCall :: "unit sol_call"

section \<open>Errors\<close>

datatype DecodeError =
    Rlp string
  | WrongChain u64 "u64 option"     \<comment> \<open>expected, got\<close>
  | BadSignature string
  | ContractCreation
  | UnexpectedCalldata
  | ValueOverflow string
  | BadCalldata string
  | Soulbound

text \<open>The operator \<^verbatim>\<open>?\<close> and \<^verbatim>\<open>map_err\<close>.\<close>

definition attempt :: "'e + 'a \<Rightarrow> ('a \<Rightarrow> 'e + 'b) \<Rightarrow> 'e + 'b" where
  "attempt r f = (case r of Inl e \<Rightarrow> Inl e | Inr v \<Rightarrow> f v)"

definition map_err :: "('e \<Rightarrow> 'f) \<Rightarrow> 'e + 'a \<Rightarrow> 'f + 'a" where
  "map_err g r = (case r of Inl e \<Rightarrow> Inl (g e) | Inr v \<Rightarrow> Inr v)"

definition MAX_ZK_PROOF_BYTES :: usize where [const_defs]: "MAX_ZK_PROOF_BYTES = 1024"
definition MAX_USER_CONTEXT_DATA_BYTES :: usize where [const_defs]: "MAX_USER_CONTEXT_DATA_BYTES = 1024"

definition u256_to_u128 :: "u256 \<Rightarrow> string \<Rightarrow> DecodeError + u128" where
  "u256_to_u128 v which = (if v \<le> U128_MAX then Inr v else Inl (ValueOverflow which))"

definition selector_of :: "byte list \<Rightarrow> DecodeError + byte list" where
  "selector_of data = (if length data < 4 then Inl (BadCalldata ''calldata too short'') else Inr (take 4 data))"

text \<open>Decimal and two-digit hexadecimal formatting.\<close>

definition digit :: "nat \<Rightarrow> char" where
  "digit n = ''0123456789abcdef'' ! (n mod 16)"

fun decimal :: "nat \<Rightarrow> string" where
  "decimal n = (if n < 10 then [digit n] else decimal (n div 10) @ [digit (n mod 10)])"

declare decimal.simps [simp del]

definition hex4 :: "byte list \<Rightarrow> string" where
  "hex4 s = concat (map (\<lambda>b. [digit (unat b div 16), digit (unat b mod 16)]) s)"

definition verdict_from_u8 :: "u8 \<Rightarrow> DecodeError + Verdict" where
  "verdict_from_u8 b =
     (if b = 0 then Inr VHuman else if b = 1 then Inr VSybil else if b = 2 then Inr VUncertain
      else Inl (BadCalldata ''verdict out of range''))"

definition confidence_from_u8 :: "u8 \<Rightarrow> DecodeError + Confidence" where
  "confidence_from_u8 b =
     (if b = 0 then Inr Low else if b = 1 then Inr Med else if b = 2 then Inr High
      else Inl (BadCalldata ''confidence out of range''))"

section \<open>The hubs\<close>

text \<open>\<^verbatim>\<open>abi_decode(data, true).map_err(|e| BadCalldata(format!("name: {e}")))\<close>.\<close>

definition call_args :: "string \<Rightarrow> 'a sol_call \<Rightarrow> byte list \<Rightarrow> DecodeError + 'a" where
  "call_args name call data = map_err (\<lambda>e. BadCalldata (name @ '': '' @ e)) (sc_abi_decode call data)"

text \<open>\<^verbatim>\<open>if x > U256::from(u64::MAX) { return Err(..) }\<close> and the narrowing \<^verbatim>\<open>x.to::<u64>()\<close>.\<close>

definition narrow_u64 :: "u256 \<Rightarrow> string \<Rightarrow> DecodeError + u64" where
  "narrow_u64 v which = (if v > U64_MAX then Inl (ValueOverflow which) else Inr v)"

definition parse_stream :: "hub_abi \<Rightarrow> byte list \<Rightarrow> DecodeError + KernelKind" where
  "parse_stream abi data = attempt (selector_of data) (\<lambda>selector.
     if selector = sc_selector (openStreamCall abi) then
       attempt (call_args ''openStream'' (openStreamCall abi) data) (\<lambda>(to, rate, deposit).
         attempt (u256_to_u128 rate ''ratePerSec'') (\<lambda>rate.
           attempt (u256_to_u128 deposit ''deposit'') (\<lambda>deposit. Inr (KOpenStream to rate deposit))))
     else if selector = sc_selector (stopStreamCall abi) then
       attempt (call_args ''stopStream'' (stopStreamCall abi) data) (\<lambda>sid.
         attempt (narrow_u64 sid ''stream id'') (\<lambda>sid. Inr (KStopStream sid)))
     else if selector = sc_selector (transferFromCall abi) \<or> selector = sc_selector (safeTransferFromCall abi)
       \<or> selector = sc_selector (approveCall abi) \<or> selector = sc_selector (setApprovalForAllCall abi)
     then Inl Soulbound
     else Inl (BadCalldata (''unknown StreamHub selector 0x'' @ hex4 selector)))"

definition fill_signals :: "hash list \<Rightarrow> hash list" where
  "fill_signals pub = foldl (\<lambda>signals (i, s). signals[i := s]) (replicate 21 0) (List.enumerate 0 pub)"

definition parse_zk_proof :: "byte list \<times> hash list \<times> u8 \<times> byte list \<Rightarrow> DecodeError + KernelKind" where
  "parse_zk_proof = (\<lambda>(proof, public_signals, scheme_tag, user_context_data).
     if proof = [] \<or> length proof > MAX_ZK_PROOF_BYTES
     then Inl (BadCalldata (''ZK proof length '' @ decimal (length proof) @ '' is outside the accepted bounds''))
     else if length user_context_data > MAX_USER_CONTEXT_DATA_BYTES
     then Inl (BadCalldata (''userContextData length '' @ decimal (length user_context_data)
            @ '' exceeds the accepted bound''))
     else Inr (KSubmitZkPassportProof proof (fill_signals public_signals) scheme_tag user_context_data))"

definition parse_humanity :: "hub_abi \<Rightarrow> byte list \<Rightarrow> DecodeError + KernelKind" where
  "parse_humanity abi data = attempt (selector_of data) (\<lambda>selector.
     if selector = sc_selector (requestVerificationCall abi) then
       attempt (call_args ''requestVerification'' (requestVerificationCall abi) data) (\<lambda>liveness_ref.
         Inr (KRequestVerification liveness_ref))
     else if selector = sc_selector (vouchCall abi) then
       attempt (call_args ''vouch'' (vouchCall abi) data) (\<lambda>vouchee. Inr (KVouch vouchee))
     else if selector = sc_selector (challengeCall abi) then
       attempt (call_args ''challenge'' (challengeCall abi) data) (\<lambda>(subject, evidence_ref).
         Inr (KChallenge subject evidence_ref))
     else if selector = sc_selector (submitVerdictCall abi) then
       attempt (call_args ''submitVerdict'' (submitVerdictCall abi) data) (\<lambda>(case_id, verdict, confidence).
         attempt (narrow_u64 case_id ''caseId'') (\<lambda>case_id.
           attempt (verdict_from_u8 verdict) (\<lambda>verdict.
             attempt (confidence_from_u8 confidence) (\<lambda>confidence.
               Inr (KSubmitVerdict case_id (verdict_new verdict confidence))))))
     else if selector = sc_selector (submitZkPassportProofCall abi) then
       attempt (call_args ''submitZkPassportProof'' (submitZkPassportProofCall abi) data) parse_zk_proof
     else if selector = sc_selector (registerCscaCall abi) then
       attempt (call_args ''registerCsca'' (registerCscaCall abi) data) (\<lambda>(country_code, key_id, pubkey).
         Inr (KRegisterCsca country_code key_id pubkey))
     else if selector = sc_selector (revokeCscaCall abi) then
       attempt (call_args ''revokeCsca'' (revokeCscaCall abi) data) (\<lambda>key_id. Inr (KRevokeCsca key_id))
     else if selector = sc_selector (pinSelfIdentityRootCall abi) then
       attempt (call_args ''pinSelfIdentityRoot'' (pinSelfIdentityRootCall abi) data) (\<lambda>root.
         Inr (KPinSelfIdentityRoot root))
     else if selector = sc_selector (pinSelfOfacRootCall abi) then
       attempt (call_args ''pinSelfOfacRoot'' (pinSelfOfacRootCall abi) data) (\<lambda>(kind, root).
         Inr (KPinSelfOfacRoot kind root))
     else if selector = sc_selector (retireSelfRootCall abi) then
       attempt (call_args ''retireSelfRoot'' (retireSelfRootCall abi) data) (\<lambda>root. Inr (KRetireSelfRoot root))
     else Inl (BadCalldata (''unknown HumanityHub selector 0x'' @ hex4 selector)))"

definition parse_deploy :: "byte list \<times> address list \<Rightarrow> DecodeError + KernelKind" where
  "parse_deploy = (\<lambda>(text, parties).
     if length text > MAX_CONTRACT_TEXT_BYTES
     then Inl (BadCalldata (''contract text length '' @ decimal (length text)
            @ '' exceeds the on-chain storage cap of '' @ decimal MAX_CONTRACT_TEXT_BYTES @ '' bytes''))
     else if length parties > MAX_CONTRACT_PARTIES
     then Inl (BadCalldata (''parties count '' @ decimal (length parties) @ '' exceeds the cap of ''
            @ decimal MAX_CONTRACT_PARTIES))
     else Inr (KDeployContract text parties))"

definition parse_contract :: "hub_abi \<Rightarrow> byte list \<Rightarrow> DecodeError + KernelKind" where
  "parse_contract abi data = attempt (selector_of data) (\<lambda>selector.
     if selector = sc_selector (deployContractCall abi) then
       attempt (call_args ''deployContract'' (deployContractCall abi) data) parse_deploy
     else if selector = sc_selector (fundContractCall abi) then
       attempt (call_args ''fundContract'' (fundContractCall abi) data) (\<lambda>cid.
         attempt (narrow_u64 cid ''contract id'') (\<lambda>cid. Inr (KFundContract cid)))
     else if selector = sc_selector (invokeContractCall abi) then
       attempt (call_args ''invokeContract'' (invokeContractCall abi) data) (\<lambda>(cid, trigger_ref).
         attempt (narrow_u64 cid ''contract id'') (\<lambda>cid. Inr (KInvokeContract cid trigger_ref)))
     else if selector = sc_selector (submitEffectCall abi) then
       attempt (call_args ''submitEffect'' (submitEffectCall abi) data) (\<lambda>(case_id, ops).
         attempt (narrow_u64 case_id ''caseId'') (\<lambda>case_id.
           attempt (map_err (\<lambda>e. BadCalldata (''effect ops: '' @ e)) (decode_effect ops)) (\<lambda>effect.
             Inr (KSubmitEffect case_id effect))))
     else Inl (BadCalldata (''unknown ContractHub selector 0x'' @ hex4 selector)))"

section \<open>Transactions\<close>

definition tx_kind_of :: "hub_abi \<Rightarrow> envelope \<Rightarrow> address \<Rightarrow> DecodeError + KernelKind" where
  "tx_kind_of abi env to =
     (if to = STREAM_HUB then parse_stream abi (en_input env)
      else if to = HUMANITY_HUB then parse_humanity abi (en_input env)
      else if to = CONTRACT_HUB then parse_contract abi (en_input env)
      else if en_input env \<noteq> [] then Inl UnexpectedCalldata
      else attempt (u256_to_u128 (en_value env) ''value'') (\<lambda>v. Inr (KTransfer to v)))"

definition tx_value_of :: "envelope \<Rightarrow> KernelKind \<Rightarrow> DecodeError + u128" where
  "tx_value_of env kind =
     (case kind of
        KTransfer to v \<Rightarrow> Inr v
      | KFundContract cid \<Rightarrow> u256_to_u128 (en_value env) ''value''
      | _ \<Rightarrow> Inr 0)"

definition decode_tx ::
    "(byte list \<Rightarrow> string + envelope) \<Rightarrow> hub_abi \<Rightarrow> u64 \<Rightarrow> byte list \<Rightarrow> DecodeError + kernel_tx" where
  "decode_tx decode_2718 abi chain_id raw =
     attempt (map_err Rlp (decode_2718 raw)) (\<lambda>env.
       if en_chain_id env \<noteq> Some chain_id then Inl (WrongChain chain_id (en_chain_id env))
       else attempt (map_err BadSignature (en_recover_signer env)) (\<lambda>frm.
         case en_to env of
           None \<Rightarrow> Inl ContractCreation
         | Some to \<Rightarrow>
             attempt (tx_kind_of abi env to) (\<lambda>kind.
               attempt (tx_value_of env kind) (\<lambda>v.
                 Inr \<lparr>tx_hash = en_tx_hash env, tx_from = frm, tx_nonce = en_nonce env, tx_value = v,
                      tx_kind = kind\<rparr>))))"

end
