(* ===== verification/Tx_Theorems.thy ===== *)
theory Tx_Theorems
  imports Tx_Decode Kernel_Invariant
begin

text \<open>
  What decoding guarantees to the kernel: every field of a decoded transaction has its machine width,
  the size bounds hold, effects are exactly the decodable ones, and the sender and chain are those of
  the signed envelope.
\<close>

section \<open>Lemmas\<close>

lemma attempt_Inr: "attempt r f = Inr w \<longleftrightarrow> (\<exists>v. r = Inr v \<and> f v = Inr w)"
  by (auto simp: attempt_def split: sum.split)

lemma map_err_Inr: "map_err g r = Inr v \<longleftrightarrow> r = Inr v"
  by (auto simp: map_err_def split: sum.split)

lemma narrowing:
  "u256_to_u128 v which = Inr w \<longleftrightarrow> w = v \<and> v \<le> U128_MAX"
  "narrow_u64 v which = Inr w \<longleftrightarrow> w = v \<and> v \<le> U64_MAX"
  by (auto simp: u256_to_u128_def narrow_u64_def)

lemma foldl_updates:
  "n + length pub \<le> length acc \<Longrightarrow>
    foldl (\<lambda>xs (i, s). xs[i := s]) acc (List.enumerate n pub) = take n acc @ pub @ drop (n + length pub) acc"
proof (induction pub arbitrary: n acc)
  case (Cons x pub)
  then have "foldl (\<lambda>xs (i, s). xs[i := s]) (acc[n := x]) (List.enumerate (Suc n) pub)
      = take (Suc n) (acc[n := x]) @ pub @ drop (Suc n + length pub) (acc[n := x])"
    by simp
  with Cons.prems show ?case by (simp add: take_Suc_conv_app_nth take_update_swap list_update_append)
qed simp

lemma fill_signals_id: "length pub = 21 \<Longrightarrow> fill_signals pub = pub"
  using foldl_updates [of 0 pub "replicate 21 0"] by (simp add: fill_signals_def)

lemma length_fill_signals: "length (fill_signals pub) = 21"
proof -
  have "length (foldl (\<lambda>xs (i, s). xs[i := s]) acc us) = length acc" for acc :: "hash list" and us
    by (induction us arbitrary: acc) auto
  then show ?thesis by (simp add: fill_signals_def)
qed

fun kind_ok :: "KernelKind \<Rightarrow> bool" where
  "kind_ok (KTransfer to v) \<longleftrightarrow> v \<le> U128_MAX"
| "kind_ok (KOpenStream to rate deposit) \<longleftrightarrow> rate \<le> U128_MAX \<and> deposit \<le> U128_MAX"
| "kind_ok (KStopStream sid) \<longleftrightarrow> sid \<le> U64_MAX"
| "kind_ok (KSubmitVerdict cid v) \<longleftrightarrow> cid \<le> U64_MAX \<and> cv_reasons_hash v = 0"
| "kind_ok (KSubmitZkPassportProof proof signals tag ucd) \<longleftrightarrow>
     0 < length proof \<and> length proof \<le> MAX_ZK_PROOF_BYTES \<and> length signals = 21
     \<and> length ucd \<le> MAX_USER_CONTEXT_DATA_BYTES"
| "kind_ok (KDeployContract text parties) \<longleftrightarrow>
     length text \<le> MAX_CONTRACT_TEXT_BYTES \<and> length parties \<le> MAX_CONTRACT_PARTIES"
| "kind_ok (KFundContract cid) \<longleftrightarrow> cid \<le> U64_MAX"
| "kind_ok (KInvokeContract cid tref) \<longleftrightarrow> cid \<le> U64_MAX"
| "kind_ok (KSubmitEffect cid e) \<longleftrightarrow>
     cid \<le> U64_MAX \<and> effect_small e \<and> list_all op_ok (ef_ops e) \<and> e = effect_new (ef_ops e)"
| "kind_ok _ \<longleftrightarrow> True"

lemmas parse_simps = attempt_Inr map_err_Inr call_args_def narrowing

lemma parse_stream_ok: "parse_stream abi data = Inr k \<Longrightarrow> kind_ok k"
  by (auto simp: parse_stream_def parse_simps split: if_splits)

lemma parse_zk_proof_ok: "parse_zk_proof args = Inr k \<Longrightarrow> kind_ok k"
  by (cases args) (auto simp: parse_zk_proof_def length_fill_signals split: if_splits)

lemma parse_humanity_ok: "parse_humanity abi data = Inr k \<Longrightarrow> kind_ok k"
  by (auto simp: parse_humanity_def parse_simps verdict_new_def split: if_splits dest: parse_zk_proof_ok)

lemma parse_deploy_ok: "parse_deploy args = Inr k \<Longrightarrow> kind_ok k"
  by (cases args) (auto simp: parse_deploy_def split: if_splits)

lemma parse_contract_ok: "parse_contract abi data = Inr k \<Longrightarrow> kind_ok k"
  by (auto simp: parse_contract_def parse_simps decode_effect_iff effect_small_def effect_new_def
      split: if_splits dest: parse_deploy_ok)

lemma tx_kind_of_ok: "tx_kind_of abi env to = Inr k \<Longrightarrow> kind_ok k"
  by (auto simp: tx_kind_of_def parse_simps split: if_splits
      dest: parse_stream_ok parse_humanity_ok parse_contract_ok)

section \<open>Properties\<close>

text \<open>
  C23: A decoded transaction is well formed. Its chain id is the node's, its sender is the recovered
  signer and its nonce the envelope's; every amount fits 128 bits and every id 64 bits; proof, context,
  contract text and party list are within their caps; a carried effect is one the codec accepts with the
  digest recomputed from its operations; only a transfer and a funding carry value. So a decoded
  transaction of an ordinary sender meets what the supply bound asks of a transaction.
\<close>

theorem decoded_tx_wf:
  assumes "decode_tx decode_2718 abi chain_id raw = Inr tx"
  shows "(\<exists>env. decode_2718 raw = Inr env \<and> en_chain_id env = Some chain_id
      \<and> en_recover_signer env = Inr (tx_from tx) \<and> tx_nonce tx = en_nonce env)
    \<and> kind_ok (tx_kind tx) \<and> tx_value tx \<le> U128_MAX
    \<and> (tx_value tx \<noteq> 0 \<longrightarrow> (\<exists>to. tx_kind tx = KTransfer to (tx_value tx)) \<or> (\<exists>cid. tx_kind tx = KFundContract cid))
    \<and> (ordinary (tx_from tx) \<longrightarrow> tx_ok tx)"
proof -
  from assms obtain env to v where env: "decode_2718 raw = Inr env" "en_chain_id env = Some chain_id"
      "en_recover_signer env = Inr (tx_from tx)" "tx_nonce tx = en_nonce env"
    and kind: "tx_kind_of abi env to = Inr (tx_kind tx)" and v: "tx_value_of env (tx_kind tx) = Inr (tx_value tx)"
    by (auto simp: decode_tx_def parse_simps split: if_splits option.splits)
  note k = tx_kind_of_ok [OF kind]
  have "tx_value tx \<le> U128_MAX"
    and "tx_value tx \<noteq> 0 \<longrightarrow> (\<exists>to. tx_kind tx = KTransfer to (tx_value tx)) \<or> (\<exists>cid. tx_kind tx = KFundContract cid)"
    using v k by (auto simp: tx_value_of_def narrowing split: KernelKind.splits)
  moreover have "ordinary (tx_from tx) \<longrightarrow> tx_ok tx"
    using k by (auto simp: tx_ok_def split: KernelKind.split)
  ultimately show ?thesis using env k by blast
qed

text \<open>A stub of the libraries: an ABI whose only live call is \<^verbatim>\<open>submitEffect\<close>, and one signed envelope.\<close>

definition dead_call :: "byte \<Rightarrow> 'a sol_call" where
  "dead_call b = \<lparr>sc_selector = [0, 0, 0, b], sc_abi_decode = (\<lambda>_. Inl ''unused'')\<rparr>"

definition demo_abi :: "byte list \<Rightarrow> hub_abi" where
  "demo_abi ops = \<lparr>openStreamCall = dead_call 1, stopStreamCall = dead_call 2, requestVerificationCall = dead_call 3,
     vouchCall = dead_call 4, challengeCall = dead_call 5, submitVerdictCall = dead_call 6,
     submitZkPassportProofCall = dead_call 7, registerCscaCall = dead_call 8, revokeCscaCall = dead_call 9,
     pinSelfIdentityRootCall = dead_call 10, pinSelfOfacRootCall = dead_call 11, retireSelfRootCall = dead_call 12,
     deployContractCall = dead_call 13, fundContractCall = dead_call 14, invokeContractCall = dead_call 15,
     submitEffectCall = \<lparr>sc_selector = [9, 9, 9, 9], sc_abi_decode = (\<lambda>_. Inr (3, ops))\<rparr>,
     transferFromCall = dead_call 16, safeTransferFromCall = dead_call 17, approveCall = dead_call 18,
     setApprovalForAllCall = dead_call 19\<rparr>"

definition demo_envelope :: envelope where
  "demo_envelope = \<lparr>en_tx_hash = 5, en_chain_id = Some 42, en_recover_signer = Inr 1, en_to = Some CONTRACT_HUB,
     en_nonce = 8, en_input = [9, 9, 9, 9], en_value = 0,
      en_tx_type = 2, en_max_fee_per_gas = 0, en_max_priority_fee_per_gas = Some 0\<rparr>"

theorem decoded_tx_wf_witness:
  "\<exists>tx. decode_tx (\<lambda>_. Inr demo_envelope) (demo_abi (encode_effect (effect_new [Refund 7 40]))) 42 [] = Inr tx
     \<and> tx_kind tx = KSubmitEffect 3 (effect_new [Refund 7 40]) \<and> kind_ok (tx_kind tx) \<and> tx_nonce tx = 8"
proof -
  let ?e = "effect_new [Refund 7 40]"
  let ?tx = "\<lparr>tx_hash = 5, tx_from = 1, tx_nonce = 8, tx_value = 0, tx_kind = KSubmitEffect 3 ?e\<rparr>"
  have "decode_effect (encode_effect ?e) = Inr ?e"
    by (auto simp: decode_effect_iff encode_effect_def effect_encode_def effect_new_def U128_MAX_def)
  then have r: "decode_tx (\<lambda>_. Inr demo_envelope) (demo_abi (encode_effect ?e)) 42 [] = Inr ?tx"
    by (simp add: decode_tx_def demo_envelope_def tx_kind_of_def parse_contract_def selector_of_def demo_abi_def
        dead_call_def call_args_def attempt_def map_err_def narrow_u64_def tx_value_of_def const_defs U64_MAX_def)
  then show ?thesis using decoded_tx_wf [OF r] by simp
qed

end
