(* ===== verification/Rate_Limit.thy ===== *)
theory Rate_Limit
  imports Ubi_Prelude
begin

text \<open>
  The per-peer anti-spam of the network layer (\<^verbatim>\<open>crates/network/src/ratelimit.rs\<close>): token buckets, the
  cap on concurrent sync requests and the count of invalid messages. An instant is a number of nanoseconds;
  64-bit arithmetic wraps. The lemmas bound what a peer gets through over any interval, show that a
  drained bucket admits again, that peers do not affect each other, and that the in-flight cap and the
  greylist threshold are exact.
\<close>

section \<open>Constants\<close>

definition RATE_BUCKET_CAPACITY :: u32 where [const_defs]: "RATE_BUCKET_CAPACITY = 256"
definition RATE_REFILL_PER_SEC :: u32 where [const_defs]: "RATE_REFILL_PER_SEC = 64"
definition SYNC_RATE_BUCKET_CAPACITY :: u32 where [const_defs]: "SYNC_RATE_BUCKET_CAPACITY = 64"
definition SYNC_RATE_REFILL_PER_SEC :: u32 where [const_defs]: "SYNC_RATE_REFILL_PER_SEC = 16"
definition SYNC_MAX_INFLIGHT_PER_PEER :: usize where [const_defs]: "SYNC_MAX_INFLIGHT_PER_PEER = 4"
definition GREYLIST_THRESHOLD :: u32 where [const_defs]: "GREYLIST_THRESHOLD = 16"
definition U32_MAX :: nat where [arith_defs]: "U32_MAX = 4294967295"

type_synonym instant = nat
type_synonym peer_id = nat

section \<open>One bucket\<close>

record token_bucket =
  tb_tokens_milli :: u64
  tb_last_refill :: instant
  tb_capacity :: u32
  tb_refill_per_sec :: u32

definition bucket_new :: "instant \<Rightarrow> u32 \<Rightarrow> u32 \<Rightarrow> token_bucket" where
  "bucket_new now capacity refill_per_sec =
     \<lparr>tb_tokens_milli = capacity * 1000, tb_last_refill = now, tb_capacity = capacity,
      tb_refill_per_sec = refill_per_sec\<rparr>"

definition millis_since :: "instant \<Rightarrow> instant \<Rightarrow> u64" where
  "millis_since now earlier = (now - earlier) div 1000000 mod 2 ^ 64"

definition bucket_refill :: "instant \<Rightarrow> token_bucket \<Rightarrow> token_bucket" where
  "bucket_refill now b =
     (let elapsed_ms = millis_since now (tb_last_refill b) in
      if elapsed_ms = 0 then b
      else
        let add = elapsed_ms * tb_refill_per_sec b mod 2 ^ 64;
            cap = tb_capacity b * 1000
        in b\<lparr>tb_tokens_milli := min ((tb_tokens_milli b + add) mod 2 ^ 64) cap, tb_last_refill := now\<rparr>)"

definition bucket_take :: "instant \<Rightarrow> token_bucket \<Rightarrow> bool \<times> token_bucket" where
  "bucket_take now b =
     (let b = bucket_refill now b in
      if tb_tokens_milli b \<ge> 1000 then (True, b\<lparr>tb_tokens_milli := tb_tokens_milli b - 1000\<rparr>)
      else (False, b))"

section \<open>The limiter\<close>

record peer_bucket =
  pb_gossip :: token_bucket
  pb_sync :: token_bucket
  pb_sync_inflight :: usize
  pb_invalid_count :: u32

definition peer_bucket_new :: "instant \<Rightarrow> peer_bucket" where
  "peer_bucket_new now =
     \<lparr>pb_gossip = bucket_new now RATE_BUCKET_CAPACITY RATE_REFILL_PER_SEC,
      pb_sync = bucket_new now SYNC_RATE_BUCKET_CAPACITY SYNC_RATE_REFILL_PER_SEC,
      pb_sync_inflight = 0, pb_invalid_count = 0\<rparr>"

type_synonym rate_limiter = "(peer_id, peer_bucket) fmap"

definition limiter_new :: rate_limiter where
  "limiter_new = fmempty"

text \<open>\<^verbatim>\<open>self.peers.entry(peer).or_insert_with(|| PeerBucket::new(now))\<close>.\<close>

definition peer_entry :: "rate_limiter \<Rightarrow> peer_id \<Rightarrow> instant \<Rightarrow> peer_bucket" where
  "peer_entry rl p now = (case fmlookup rl p of Some b \<Rightarrow> b | None \<Rightarrow> peer_bucket_new now)"

definition allow :: "rate_limiter \<Rightarrow> peer_id \<Rightarrow> instant \<Rightarrow> bool \<times> rate_limiter" where
  "allow rl p now =
     (let b = peer_entry rl p now; (ok, g) = bucket_take now (pb_gossip b)
      in (ok, fmupd p (b\<lparr>pb_gossip := g\<rparr>) rl))"

definition allow_sync :: "rate_limiter \<Rightarrow> peer_id \<Rightarrow> instant \<Rightarrow> bool \<times> rate_limiter" where
  "allow_sync rl p now =
     (let b = peer_entry rl p now; (ok, g) = bucket_take now (pb_sync b)
      in (ok, fmupd p (b\<lparr>pb_sync := g\<rparr>) rl))"

definition try_acquire_sync_inflight :: "rate_limiter \<Rightarrow> peer_id \<Rightarrow> instant \<Rightarrow> bool \<times> rate_limiter" where
  "try_acquire_sync_inflight rl p now =
     (let b = peer_entry rl p now in
      if pb_sync_inflight b \<ge> SYNC_MAX_INFLIGHT_PER_PEER then (False, fmupd p b rl)
      else (True, fmupd p (b\<lparr>pb_sync_inflight := pb_sync_inflight b + 1\<rparr>) rl))"

definition release_sync_inflight :: "rate_limiter \<Rightarrow> peer_id \<Rightarrow> rate_limiter" where
  "release_sync_inflight rl p =
     (case fmlookup rl p of
        None \<Rightarrow> rl
      | Some b \<Rightarrow> fmupd p (b\<lparr>pb_sync_inflight := pb_sync_inflight b - 1\<rparr>) rl)"

definition penalize :: "rate_limiter \<Rightarrow> peer_id \<Rightarrow> instant \<Rightarrow> bool \<times> rate_limiter" where
  "penalize rl p now =
     (let b = peer_entry rl p now;
          b = b\<lparr>pb_invalid_count := min (pb_invalid_count b + 1) U32_MAX\<rparr>
      in (pb_invalid_count b \<ge> GREYLIST_THRESHOLD, fmupd p b rl))"

definition peer_invalid_count :: "rate_limiter \<Rightarrow> peer_id \<Rightarrow> u32" where
  "peer_invalid_count rl p = (case fmlookup rl p of Some b \<Rightarrow> pb_invalid_count b | None \<Rightarrow> 0)"

definition forget :: "rate_limiter \<Rightarrow> peer_id \<Rightarrow> rate_limiter" where
  "forget rl p = fmdrop p rl"

section \<open>Runs\<close>

datatype limiter_call = Allow | AllowSync | Acquire | Release | Penalize | Forget

fun limiter_exec :: "rate_limiter \<Rightarrow> peer_id \<times> limiter_call \<times> instant \<Rightarrow> bool \<times> rate_limiter" where
  "limiter_exec rl (p, Allow, now) = allow rl p now"
| "limiter_exec rl (p, AllowSync, now) = allow_sync rl p now"
| "limiter_exec rl (p, Acquire, now) = try_acquire_sync_inflight rl p now"
| "limiter_exec rl (p, Release, now) = (True, release_sync_inflight rl p)"
| "limiter_exec rl (p, Penalize, now) = penalize rl p now"
| "limiter_exec rl (p, Forget, now) = (True, forget rl p)"

text \<open>The calls of one kind by one peer that were admitted.\<close>

fun admitted :: "limiter_call \<Rightarrow> peer_id \<Rightarrow> rate_limiter \<Rightarrow> (peer_id \<times> limiter_call \<times> instant) list \<Rightarrow> nat" where
  "admitted k p rl [] = 0"
| "admitted k p rl (e # es) =
     (let (ok, rl') = limiter_exec rl e
      in (if ok \<and> fst e = p \<and> fst (snd e) = k then 1 else 0) + admitted k p rl' es)"

section \<open>The rate bound\<close>

lemma millis_split:
  fixes l now t :: nat
  assumes "l \<le> now" "now \<le> t"
  shows "(now - l) div 1000000 + (t - now) div 1000000 \<le> (t - l) div 1000000"
proof -
  have "(now - l) + (t - now) = t - l" using assms by simp
  then show ?thesis using div_add1_eq [of "now - l" "t - now" 1000000] by simp
qed

text \<open>What a bucket can still spend up to time \<open>t\<close>: its tokens and the refill from now on.\<close>

definition allowance :: "instant \<Rightarrow> token_bucket \<Rightarrow> nat" where
  "allowance t b = tb_tokens_milli b + tb_refill_per_sec b * ((t - tb_last_refill b) div 1000000)"

lemma refill_allowance:
  assumes "tb_last_refill b \<le> now" "now \<le> t"
  shows "allowance t (bucket_refill now b) \<le> allowance t b"
proof (cases "millis_since now (tb_last_refill b) = 0")
  case True
  then show ?thesis by (simp add: bucket_refill_def)
next
  case False
  let ?l = "tb_last_refill b" and ?r = "tb_refill_per_sec b"
  let ?add = "millis_since now ?l * ?r mod 2 ^ 64"
  have "?add \<le> millis_since now ?l * ?r" by (rule mod_less_eq_dividend)
  also have "\<dots> \<le> ((now - ?l) div 1000000) * ?r" by (simp add: millis_since_def)
  finally have add: "?add \<le> ?r * ((now - ?l) div 1000000)" by (simp add: mult.commute)
  have "?r * ((now - ?l) div 1000000) + ?r * ((t - now) div 1000000) \<le> ?r * ((t - ?l) div 1000000)"
    unfolding add_mult_distrib2 [symmetric] by (intro mult_le_mono2 millis_split assms)
  moreover have "min ((tb_tokens_milli b + ?add) mod 2 ^ 64) (tb_capacity b * 1000) \<le> tb_tokens_milli b + ?add"
    by (rule min.coboundedI1) (rule mod_less_eq_dividend)
  ultimately show ?thesis
    using add False by (simp add: allowance_def bucket_refill_def Let_def)
qed

lemma refill_frame [simp]:
  "tb_refill_per_sec (bucket_refill now b) = tb_refill_per_sec b"
  "tb_capacity (bucket_refill now b) = tb_capacity b"
  by (simp_all add: bucket_refill_def Let_def)

lemma refill_last: "tb_last_refill b \<le> now \<Longrightarrow> tb_last_refill (bucket_refill now b) \<le> now"
  by (simp add: bucket_refill_def Let_def)

lemma take_allowance:
  assumes "tb_last_refill b \<le> now" "now \<le> t" "bucket_take now b = (ok, b')"
  shows "(if ok then 1000 else 0) + allowance t b' \<le> allowance t b" "tb_last_refill b' \<le> now"
    "tb_refill_per_sec b' = tb_refill_per_sec b" "tb_capacity b' = tb_capacity b"
  using assms refill_allowance [OF assms(1,2)] refill_last [OF assms(1)]
  by (auto simp: bucket_take_def allowance_def Let_def split: if_splits)

section \<open>Peers are independent\<close>

lemma exec_other_peer:
  assumes "q \<noteq> p"
  shows "fmlookup (snd (limiter_exec rl (q, c, now))) p = fmlookup rl p"
  using assms
  by (cases c) (simp_all add: allow_def allow_sync_def try_acquire_sync_inflight_def release_sync_inflight_def
      penalize_def forget_def Let_def split: prod.split option.split)

text \<open>
  The contract of a metered call \<open>k\<close>: it draws on one bucket of its peer, which starts full and which no
  other call but a disconnect touches. Gossip and sync requests are the two instances.
\<close>

locale metered =
  fixes k :: limiter_call and bucket_of :: "peer_bucket \<Rightarrow> token_bucket" and cap rate :: nat
  assumes fresh: "bucket_of (peer_bucket_new now) = bucket_new now cap rate"
    and charge: "\<exists>b'. limiter_exec rl (p, k, now)
        = (fst (bucket_take now (bucket_of (peer_entry rl p now))), fmupd p b' rl)
      \<and> bucket_of b' = snd (bucket_take now (bucket_of (peer_entry rl p now)))"
    and untouched: "c \<noteq> k \<Longrightarrow> c \<noteq> Forget \<Longrightarrow>
      (case fmlookup (snd (limiter_exec rl (p, c, now))) p of
         None \<Rightarrow> fmlookup rl p = None
       | Some b \<Rightarrow> bucket_of b = bucket_of (peer_entry rl p now))"
begin

definition budget :: "instant \<Rightarrow> instant \<Rightarrow> rate_limiter \<Rightarrow> peer_id \<Rightarrow> nat" where
  "budget t now rl p =
     (case fmlookup rl p of None \<Rightarrow> allowance t (bucket_new now cap rate) | Some b \<Rightarrow> allowance t (bucket_of b))"

definition timely :: "instant \<Rightarrow> rate_limiter \<Rightarrow> peer_id \<Rightarrow> bool" where
  "timely now rl p \<longleftrightarrow> (\<forall>b. fmlookup rl p = Some b \<longrightarrow> tb_last_refill (bucket_of b) \<le> now)"

lemma entry_budget:
  assumes "timely now rl p" "now \<le> at"
  shows "allowance t (bucket_of (peer_entry rl p at)) \<le> budget t now rl p"
    "tb_last_refill (bucket_of (peer_entry rl p at)) \<le> at"
  using assms
  by (auto simp: budget_def peer_entry_def timely_def fresh allowance_def bucket_new_def split: option.split
      intro!: mult_le_mono2 div_le_mono)

lemma step_budget:
  assumes "timely now rl p" "now \<le> at" "at \<le> t" "q = p \<Longrightarrow> c \<noteq> Forget" "limiter_exec rl (q, c, at) = (ok, rl')"
  shows "(if ok \<and> q = p \<and> c = k then 1000 else 0) + budget t at rl' p \<le> budget t now rl p \<and> timely at rl' p"
proof (cases "q = p")
  case False
  then have "fmlookup rl' p = fmlookup rl p" using exec_other_peer assms(5) by (metis snd_conv)
  then show ?thesis
    using False assms(1,2)
    by (auto simp: budget_def timely_def allowance_def bucket_new_def split: option.split
        intro!: mult_le_mono2 div_le_mono)
next
  case True
  note e = entry_budget [OF assms(1,2)]
  show ?thesis
  proof (cases "c = k")
    case True
    let ?b = "bucket_of (peer_entry rl p at)"
    obtain b' where b': "rl' = fmupd p b' rl" "bucket_take at ?b = (ok, bucket_of b')"
      using charge [of rl p at] assms(5) \<open>q = p\<close> True by (metis fst_conv prod.collapse snd_conv)
    note take_allowance(1,2) [OF e(2) assms(3) b'(2)]
    moreover have "budget t at rl' p = allowance t (bucket_of b')" using b'(1) by (simp add: budget_def)
    ultimately show ?thesis
      using e(1) [of t] b'(1) \<open>q = p\<close> True by (auto simp: timely_def)
  next
    case False
    with untouched [OF False, of rl p at] assms(4,5) \<open>q = p\<close> e show ?thesis
      by (auto simp: budget_def timely_def fresh peer_entry_def split: option.splits)
  qed
qed

lemma run_budget:
  assumes "timely now rl p" "sorted (now # map (snd \<circ> snd) es)" "\<forall>e \<in> set es. snd (snd e) \<le> t"
    "\<forall>e \<in> set es. fst e = p \<longrightarrow> fst (snd e) \<noteq> Forget"
  shows "1000 * admitted k p rl es \<le> budget t now rl p"
  using assms
proof (induction es arbitrary: now rl)
  case (Cons e es)
  obtain q c at where e: "e = (q, c, at)" by (cases e)
  obtain ok rl' where r: "limiter_exec rl (q, c, at) = (ok, rl')" by (cases "limiter_exec rl (q, c, at)")
  have "now \<le> at" "at \<le> t" "q = p \<Longrightarrow> c \<noteq> Forget" using Cons.prems e by auto
  note step = step_budget [OF Cons.prems(1) this r]
  have "1000 * admitted k p rl' es \<le> budget t at rl' p"
    using Cons.prems e step by (intro Cons.IH) auto
  then show ?case using step r e by (auto split: if_splits)
qed simp

lemma run_bound:
  assumes "sorted (now # map (snd \<circ> snd) es)" "\<forall>e \<in> set es. snd (snd e) \<le> t"
    "\<forall>e \<in> set es. fst e = p \<longrightarrow> fst (snd e) \<noteq> Forget"
  shows "1000 * admitted k p limiter_new es \<le> 1000 * cap + rate * ((t - now) div 1000000)"
  using run_budget [OF _ assms, of limiter_new]
  by (simp add: timely_def budget_def limiter_new_def allowance_def bucket_new_def mult.commute)

end

interpretation gossip_meter: metered Allow pb_gossip RATE_BUCKET_CAPACITY RATE_REFILL_PER_SEC
proof
  show "case fmlookup (snd (limiter_exec rl (p, c, now))) p of
         None \<Rightarrow> fmlookup rl p = None
       | Some b \<Rightarrow> pb_gossip b = pb_gossip (peer_entry rl p now)" if "c \<noteq> Allow" "c \<noteq> Forget" for c rl p now
    using that by (cases c) (auto simp: allow_sync_def try_acquire_sync_inflight_def release_sync_inflight_def
        penalize_def peer_entry_def Let_def split: prod.split option.split)
qed (auto simp: peer_bucket_new_def allow_def Let_def split: prod.split)

interpretation sync_meter: metered AllowSync pb_sync SYNC_RATE_BUCKET_CAPACITY SYNC_RATE_REFILL_PER_SEC
proof
  show "case fmlookup (snd (limiter_exec rl (p, c, now))) p of
         None \<Rightarrow> fmlookup rl p = None
       | Some b \<Rightarrow> pb_sync b = pb_sync (peer_entry rl p now)" if "c \<noteq> AllowSync" "c \<noteq> Forget" for c rl p now
    using that by (cases c) (auto simp: allow_def try_acquire_sync_inflight_def release_sync_inflight_def
        penalize_def peer_entry_def Let_def split: prod.split option.split)
qed (auto simp: peer_bucket_new_def allow_sync_def Let_def split: prod.split)

section \<open>Invariants of a run\<close>

definition bucket_ok :: "nat \<Rightarrow> nat \<Rightarrow> token_bucket \<Rightarrow> bool" where
  "bucket_ok cap rate b \<longleftrightarrow> tb_capacity b = cap \<and> tb_refill_per_sec b = rate \<and> tb_tokens_milli b \<le> 1000 * cap"

definition peer_ok :: "peer_bucket \<Rightarrow> bool" where
  "peer_ok b \<longleftrightarrow> bucket_ok RATE_BUCKET_CAPACITY RATE_REFILL_PER_SEC (pb_gossip b)
     \<and> bucket_ok SYNC_RATE_BUCKET_CAPACITY SYNC_RATE_REFILL_PER_SEC (pb_sync b)
     \<and> pb_sync_inflight b \<le> SYNC_MAX_INFLIGHT_PER_PEER \<and> pb_invalid_count b \<le> U32_MAX"

definition limiter_ok :: "rate_limiter \<Rightarrow> bool" where
  "limiter_ok rl \<longleftrightarrow> (\<forall>p b. fmlookup rl p = Some b \<longrightarrow> peer_ok b)"

definition limiter_run :: "rate_limiter \<Rightarrow> (peer_id \<times> limiter_call \<times> instant) list \<Rightarrow> rate_limiter" where
  "limiter_run rl es = foldl (\<lambda>rl e. snd (limiter_exec rl e)) rl es"

lemma bucket_ok_take: "bucket_ok cap rate b \<Longrightarrow> bucket_ok cap rate (snd (bucket_take now b))"
  by (auto simp: bucket_ok_def bucket_take_def bucket_refill_def Let_def)

lemma peer_ok_new [simp]: "peer_ok (peer_bucket_new now)"
  by (simp add: peer_ok_def peer_bucket_new_def bucket_ok_def bucket_new_def)

lemma peer_ok_entry: "limiter_ok rl \<Longrightarrow> peer_ok (peer_entry rl p now)"
  by (auto simp: limiter_ok_def peer_entry_def split: option.split)

lemma limiter_ok_upd: "limiter_ok rl \<Longrightarrow> peer_ok b \<Longrightarrow> limiter_ok (fmupd p b rl)"
  by (simp add: limiter_ok_def)

lemma take_gossip_ok: "peer_ok b \<Longrightarrow> bucket_take now (pb_gossip b) = (ok, g) \<Longrightarrow> peer_ok (b\<lparr>pb_gossip := g\<rparr>)"
  using bucket_ok_take [of _ _ "pb_gossip b" now] by (auto simp: peer_ok_def)

lemma take_sync_ok: "peer_ok b \<Longrightarrow> bucket_take now (pb_sync b) = (ok, g) \<Longrightarrow> peer_ok (b\<lparr>pb_sync := g\<rparr>)"
  using bucket_ok_take [of _ _ "pb_sync b" now] by (auto simp: peer_ok_def)

lemma limiter_exec_ok:
  assumes "limiter_ok rl"
  shows "limiter_ok (snd (limiter_exec rl (p, c, now)))"
proof (cases c)
  case Release
  have "peer_ok (b\<lparr>pb_sync_inflight := pb_sync_inflight b - 1\<rparr>)" if "peer_ok b" for b
    using that by (auto simp: peer_ok_def)
  with assms show ?thesis
    using Release by (auto simp: release_sync_inflight_def limiter_ok_def split: option.split)
next
  case Forget
  with assms show ?thesis by (auto simp: forget_def limiter_ok_def)
next
  case Acquire
  have "peer_ok (b\<lparr>pb_sync_inflight := Suc (pb_sync_inflight b)\<rparr>)"
    if "peer_ok b" "pb_sync_inflight b < SYNC_MAX_INFLIGHT_PER_PEER" for b
    using that by (simp add: peer_ok_def)
  then show ?thesis
    using Acquire assms peer_ok_entry [OF assms]
    by (auto simp: try_acquire_sync_inflight_def Let_def limiter_ok_upd)
next
  case Penalize
  have "peer_ok (b\<lparr>pb_invalid_count := min n U32_MAX\<rparr>)" if "peer_ok b" for b n
    using that by (simp add: peer_ok_def)
  then show ?thesis
    using Penalize assms peer_ok_entry [OF assms] by (simp add: penalize_def Let_def limiter_ok_upd)
qed (use assms peer_ok_entry [OF assms] in
    \<open>auto simp: allow_def allow_sync_def Let_def split: prod.split intro: limiter_ok_upd take_gossip_ok take_sync_ok\<close>)

lemma limiter_run_ok: "limiter_ok rl \<Longrightarrow> limiter_ok (limiter_run rl es)"
proof (induction es arbitrary: rl)
  case (Cons e es)
  then show ?case using limiter_exec_ok [of rl "fst e" "fst (snd e)" "snd (snd e)"] by (simp add: limiter_run_def)
qed (simp add: limiter_run_def)

lemma limiter_new_ok [simp]: "limiter_ok limiter_new"
  by (simp add: limiter_ok_def limiter_new_def)

section \<open>Recovery\<close>

lemma take_after_wait:
  assumes "bucket_ok cap rate b" "0 < cap" "cap < 2 ^ 32" "rate < 2 ^ 10"
    "1000 \<le> (now - tb_last_refill b) div 1000000 * rate" "(now - tb_last_refill b) div 1000000 < 2 ^ 50"
  shows "fst (bucket_take now b)"
proof -
  let ?ms = "(now - tb_last_refill b) div 1000000"
  have b: "tb_capacity b = cap" "tb_refill_per_sec b = rate" "tb_tokens_milli b \<le> 1000 * cap"
    using assms(1) by (simp_all add: bucket_ok_def)
  have ms: "millis_since now (tb_last_refill b) = ?ms"
    using assms(6) unfolding millis_since_def by (intro mod_less) simp
  have "?ms * rate < 2 ^ 50 * 2 ^ 10"
    using assms(4,6) by (intro mult_strict_mono) simp_all
  then have add: "?ms * rate mod 2 ^ 64 = ?ms * rate" "(tb_tokens_milli b + ?ms * rate) mod 2 ^ 64 = tb_tokens_milli b + ?ms * rate"
    using b(3) assms(3) by (auto intro!: mod_less)
  have "?ms \<noteq> 0" using assms(5) by (metis mult_zero_left not_one_le_zero numeral_One numeral_le_iff le_zero_eq zero_neq_numeral)
  then have "1000 \<le> tb_tokens_milli (bucket_refill now b)"
    using ms add b assms(2,5) by (simp add: bucket_refill_def Let_def)
  then show ?thesis by (simp add: bucket_take_def Let_def)
qed

section \<open>Properties\<close>



text \<open>
  A throttled peer recovers. In every state a limiter can reach, a peer whose gossip bucket was last
  refilled at least 16 milliseconds ago is admitted again, and one whose sync bucket was last refilled
  at least 63 milliseconds ago is served again; an unknown peer is admitted at once. (Within the
  35,000 years for which the refill does not wrap.)
\<close>

theorem limiter_recovers:
  assumes "\<forall>b. fmlookup (limiter_run limiter_new es) p = Some b \<longrightarrow>
      16 \<le> (now - tb_last_refill (pb_gossip b)) div 1000000 \<and> 63 \<le> (now - tb_last_refill (pb_sync b)) div 1000000
      \<and> (now - tb_last_refill (pb_gossip b)) div 1000000 < 2 ^ 50 \<and> (now - tb_last_refill (pb_sync b)) div 1000000 < 2 ^ 50"
  shows "fst (allow (limiter_run limiter_new es) p now) \<and> fst (allow_sync (limiter_run limiter_new es) p now)"
proof (cases "fmlookup (limiter_run limiter_new es) p")
  case None
  then show ?thesis
    by (simp add: allow_def allow_sync_def peer_entry_def peer_bucket_new_def bucket_new_def bucket_take_def
        bucket_refill_def millis_since_def const_defs)
next
  case (Some b)
  then have "peer_ok b" using limiter_run_ok [OF limiter_new_ok] by (auto simp: limiter_ok_def)
  note ok = this [unfolded peer_ok_def]
  have wait: "16 \<le> (now - tb_last_refill (pb_gossip b)) div 1000000" "63 \<le> (now - tb_last_refill (pb_sync b)) div 1000000"
    "(now - tb_last_refill (pb_gossip b)) div 1000000 < 2 ^ 50" "(now - tb_last_refill (pb_sync b)) div 1000000 < 2 ^ 50"
    using assms Some by simp_all
  have "fst (bucket_take now (pb_gossip b))"
    using ok wait(1,3) by (intro take_after_wait [of RATE_BUCKET_CAPACITY RATE_REFILL_PER_SEC]) (simp_all add: const_defs)
  moreover have "fst (bucket_take now (pb_sync b))"
    using ok wait(2,4) by (intro take_after_wait [of SYNC_RATE_BUCKET_CAPACITY SYNC_RATE_REFILL_PER_SEC]) (simp_all add: const_defs)
  ultimately show ?thesis
    using Some by (simp add: allow_def allow_sync_def peer_entry_def case_prod_beta)
qed

theorem limiter_recovers_witness:
  "fst (allow (limiter_run limiter_new [(7, Allow, 0), (7, Penalize, 5)]) 7 70000000)"
  using limiter_recovers [of "[(7, Allow, 0), (7, Penalize, 5)]" 7 70000000]
  by (simp add: limiter_run_def limiter_new_def allow_def penalize_def peer_entry_def peer_bucket_new_def bucket_new_def
      bucket_take_def bucket_refill_def millis_since_def const_defs)

text \<open>
  The caps are exact. In every state a limiter can reach, at most four sync requests of a peer are in
  flight; a further one is accepted exactly when fewer than four are; a release frees exactly one; and a
  penalty reports the peer for greylisting exactly from its sixteenth invalid message on.
\<close>

theorem limiter_caps:
  fixes es p now
  defines "rl \<equiv> limiter_run limiter_new es"
  shows "pb_sync_inflight (peer_entry rl p now) \<le> 4
    \<and> (fst (try_acquire_sync_inflight rl p now) \<longleftrightarrow> pb_sync_inflight (peer_entry rl p now) < 4)
    \<and> (let rl' = snd (try_acquire_sync_inflight rl p now) in
         fst (try_acquire_sync_inflight rl p now) \<longrightarrow>
           pb_sync_inflight (peer_entry (release_sync_inflight rl' p) p now) = pb_sync_inflight (peer_entry rl p now))
    \<and> (fst (penalize rl p now) \<longleftrightarrow> 15 \<le> peer_invalid_count rl p)
    \<and> peer_invalid_count (snd (penalize rl p now)) p = min (peer_invalid_count rl p + 1) U32_MAX"
proof -
  have "peer_ok (peer_entry rl p now)"
    unfolding rl_def by (intro peer_ok_entry limiter_run_ok limiter_new_ok)
  moreover have "pb_invalid_count (peer_entry rl p now) = peer_invalid_count rl p"
    by (simp add: peer_entry_def peer_invalid_count_def peer_bucket_new_def split: option.split)
  ultimately show ?thesis
    by (auto simp: peer_ok_def try_acquire_sync_inflight_def release_sync_inflight_def penalize_def
        peer_invalid_count_def [of "fmupd p _ _"] peer_entry_def [of "fmupd p _ _"] Let_def const_defs U32_MAX_def)
qed

theorem limiter_caps_witness:
  "let rl = limiter_run limiter_new [(7, Acquire, 0), (7, Acquire, 0), (7, Penalize, 3)] in
     pb_sync_inflight (peer_entry rl 7 5) \<le> 4 \<and> (fst (penalize rl 7 5) \<longleftrightarrow> 15 \<le> peer_invalid_count rl 7)"
  using limiter_caps [of "[(7, Acquire, 0), (7, Acquire, 0), (7, Penalize, 3)]" 7 5] by (simp only: Let_def)

end
