(* ===== verification/Pending_Tx.thy ===== *)
theory Pending_Tx
  imports Tx_Decode
begin

text \<open>
  The queued transactions of the node (\<^verbatim>\<open>PendingKind\<close>, \<^verbatim>\<open>PendingTx\<close> and their conversions in
  \<^verbatim>\<open>crates/rpc/src/lib.rs\<close>): the node keeps its own copy of the kernel's operation type, decodes a raw
  transaction with the shared decoder, renders its errors for the wallet, and converts back to the
  kernel's type when a block is executed. The lemmas show that the two copies are one type and the two
  gas tables one table, so that the node applies what the shared decoder decoded.
\<close>

section \<open>Queued operations\<close>

datatype PendingKind =
    PTransfer address u128
  | POpenStream address u128 u128
  | PStopStream stream_id
  | PRequestVerification hash
  | PVouch address
  | PChallenge address hash
  | PSubmitVerdict u64 canonical_verdict
  | PSubmitZkPassportProof "byte list" "hash list" u8 "byte list"
  | PRegisterCsca "byte list" hash "byte list"
  | PRevokeCsca hash
  | PPinSelfIdentityRoot hash
  | PPinSelfOfacRoot u8 hash
  | PRetireSelfRoot hash
  | PDeployContract "byte list" "address list"
  | PFundContract contract_id
  | PInvokeContract contract_id hash
  | PSubmitEffect exec_case_id canonical_effect

fun gas_for_kind :: "PendingKind \<Rightarrow> u64" where
  "gas_for_kind (PTransfer _ _) = GAS_TRANSFER"
| "gas_for_kind (POpenStream _ _ _) = GAS_STREAM"
| "gas_for_kind (PStopStream _) = GAS_STREAM"
| "gas_for_kind (PRequestVerification _) = GAS_ONBOARD"
| "gas_for_kind (PVouch _) = GAS_HUMANITY"
| "gas_for_kind (PChallenge _ _) = GAS_HUMANITY"
| "gas_for_kind (PSubmitVerdict _ _) = GAS_HUMANITY"
| "gas_for_kind (PSubmitZkPassportProof _ _ _ _) = GAS_ZKPOH"
| "gas_for_kind (PRegisterCsca _ _ _) = GAS_CSCA_GOV"
| "gas_for_kind (PRevokeCsca _) = GAS_CSCA_GOV"
| "gas_for_kind (PPinSelfIdentityRoot _) = GAS_CSCA_GOV"
| "gas_for_kind (PPinSelfOfacRoot _ _) = GAS_CSCA_GOV"
| "gas_for_kind (PRetireSelfRoot _) = GAS_CSCA_GOV"
| "gas_for_kind (PDeployContract text _) = gas_for_deploy (length text)"
| "gas_for_kind (PFundContract _) = GAS_CONTRACT"
| "gas_for_kind (PInvokeContract _ _) = GAS_CONTRACT"
| "gas_for_kind (PSubmitEffect _ _) = GAS_CONTRACT"

record pending_tx =
  pt_hash :: hash
  pt_from :: address
  pt_tx_to :: address
  pt_value :: u128
  pt_nonce :: u64
  pt_input :: "byte list"
  pt_kind :: PendingKind
  pt_tx_type :: u8
  pt_max_fee_per_gas :: "u128 option"
  pt_max_priority_fee_per_gas :: "u128 option"

definition spendable_debit :: "u128 \<Rightarrow> PendingKind \<Rightarrow> u128" where
  "spendable_debit v kind =
     sat_add128 (sat_add128 v (case kind of POpenStream _ _ deposit \<Rightarrow> deposit | _ \<Rightarrow> 0))
       (fee_for_gas (gas_for_kind kind))"

section \<open>Conversions\<close>

fun pending_kind_from_kernel :: "KernelKind \<Rightarrow> PendingKind" where
  "pending_kind_from_kernel (KTransfer to v) = PTransfer to v"
| "pending_kind_from_kernel (KOpenStream to rate deposit) = POpenStream to rate deposit"
| "pending_kind_from_kernel (KStopStream sid) = PStopStream sid"
| "pending_kind_from_kernel (KRequestVerification liveness_ref) = PRequestVerification liveness_ref"
| "pending_kind_from_kernel (KVouch vouchee) = PVouch vouchee"
| "pending_kind_from_kernel (KChallenge subject evidence_ref) = PChallenge subject evidence_ref"
| "pending_kind_from_kernel (KSubmitVerdict case_id verdict) = PSubmitVerdict case_id verdict"
| "pending_kind_from_kernel (KSubmitZkPassportProof proof signals scheme_tag user_context_data) =
     PSubmitZkPassportProof proof signals scheme_tag user_context_data"
| "pending_kind_from_kernel (KRegisterCsca country_code key_id pubkey) = PRegisterCsca country_code key_id pubkey"
| "pending_kind_from_kernel (KRevokeCsca key_id) = PRevokeCsca key_id"
| "pending_kind_from_kernel (KPinSelfIdentityRoot root) = PPinSelfIdentityRoot root"
| "pending_kind_from_kernel (KPinSelfOfacRoot kind root) = PPinSelfOfacRoot kind root"
| "pending_kind_from_kernel (KRetireSelfRoot root) = PRetireSelfRoot root"
| "pending_kind_from_kernel (KDeployContract text parties) = PDeployContract text parties"
| "pending_kind_from_kernel (KFundContract cid) = PFundContract cid"
| "pending_kind_from_kernel (KInvokeContract cid trigger_ref) = PInvokeContract cid trigger_ref"
| "pending_kind_from_kernel (KSubmitEffect case_id effect) = PSubmitEffect case_id effect"

fun kernel_kind_from_pending :: "PendingKind \<Rightarrow> KernelKind" where
  "kernel_kind_from_pending (PTransfer to v) = KTransfer to v"
| "kernel_kind_from_pending (POpenStream to rate deposit) = KOpenStream to rate deposit"
| "kernel_kind_from_pending (PStopStream sid) = KStopStream sid"
| "kernel_kind_from_pending (PRequestVerification liveness_ref) = KRequestVerification liveness_ref"
| "kernel_kind_from_pending (PVouch vouchee) = KVouch vouchee"
| "kernel_kind_from_pending (PChallenge subject evidence_ref) = KChallenge subject evidence_ref"
| "kernel_kind_from_pending (PSubmitVerdict case_id verdict) = KSubmitVerdict case_id verdict"
| "kernel_kind_from_pending (PSubmitZkPassportProof proof signals scheme_tag user_context_data) =
     KSubmitZkPassportProof proof signals scheme_tag user_context_data"
| "kernel_kind_from_pending (PRegisterCsca country_code key_id pubkey) = KRegisterCsca country_code key_id pubkey"
| "kernel_kind_from_pending (PRevokeCsca key_id) = KRevokeCsca key_id"
| "kernel_kind_from_pending (PPinSelfIdentityRoot root) = KPinSelfIdentityRoot root"
| "kernel_kind_from_pending (PPinSelfOfacRoot kind root) = KPinSelfOfacRoot kind root"
| "kernel_kind_from_pending (PRetireSelfRoot root) = KRetireSelfRoot root"
| "kernel_kind_from_pending (PDeployContract text parties) = KDeployContract text parties"
| "kernel_kind_from_pending (PFundContract cid) = KFundContract cid"
| "kernel_kind_from_pending (PInvokeContract cid trigger_ref) = KInvokeContract cid trigger_ref"
| "kernel_kind_from_pending (PSubmitEffect case_id effect) = KSubmitEffect case_id effect"

definition kernel_tx_from_pending :: "pending_tx \<Rightarrow> kernel_tx" where
  "kernel_tx_from_pending p =
     \<lparr>tx_hash = pt_hash p, tx_from = pt_from p, tx_nonce = pt_nonce p, tx_value = pt_value p,
      tx_kind = kernel_kind_from_pending (pt_kind p)\<rparr>"

section \<open>Errors for the wallet\<close>

record rpc_error =
  re_code :: int
  re_message :: string

definition invalid_params :: "string \<Rightarrow> rpc_error" where
  "invalid_params msg = \<lparr>re_code = - 32602, re_message = msg\<rparr>"

definition execution_reverted :: "string \<Rightarrow> rpc_error" where
  "execution_reverted msg = \<lparr>re_code = 3, re_message = msg\<rparr>"

text \<open>\<^verbatim>\<open>str::contains\<close>.\<close>

fun contains :: "string \<Rightarrow> string \<Rightarrow> bool" where
  "contains [] pat \<longleftrightarrow> pat = []"
| "contains (c # cs) pat \<longleftrightarrow> take (length pat) (c # cs) = pat \<or> contains cs pat"

fun decode_error_to_rpc :: "DecodeError \<Rightarrow> rpc_error" where
  "decode_error_to_rpc (Rlp m) = invalid_params (''rlp decode failed: '' @ m)"
| "decode_error_to_rpc (WrongChain expected (Some g)) =
     invalid_params (''wrong chainId: tx is for '' @ decimal g @ '', devnet is '' @ decimal expected)"
| "decode_error_to_rpc (WrongChain expected None) =
     invalid_params ''tx must be EIP-155 (chainId-bound) for replay safety''"
| "decode_error_to_rpc (BadSignature m) = invalid_params (''signature recovery failed: '' @ m)"
| "decode_error_to_rpc ContractCreation = invalid_params ''contract creation not supported''"
| "decode_error_to_rpc UnexpectedCalldata =
     invalid_params ''calldata only supported for StreamHub (value transfers otherwise)''"
| "decode_error_to_rpc (ValueOverflow which) = invalid_params (which @ '' exceeds u128 base-unit range'')"
| "decode_error_to_rpc Soulbound = execution_reverted ''soulbound''"
| "decode_error_to_rpc (BadCalldata m) =
     (if contains m ''unknown'' \<and> contains m ''selector'' then execution_reverted ''unknown hub selector''
      else invalid_params (''hub call: '' @ m))"

section \<open>Decoding\<close>

definition decode_pending_tx ::
    "(byte list \<Rightarrow> string + envelope) \<Rightarrow> hub_abi \<Rightarrow> u64 \<Rightarrow> byte list \<Rightarrow> rpc_error + pending_tx" where
  "decode_pending_tx decode_2718 abi chain_id raw =
     attempt (map_err decode_error_to_rpc (decode_tx decode_2718 abi chain_id raw)) (\<lambda>ktx.
       attempt (map_err (\<lambda>e. invalid_params (''rlp decode failed: '' @ e)) (decode_2718 raw)) (\<lambda>env.
         case en_to env of
           None \<Rightarrow> Inl (invalid_params ''contract creation not supported'')
         | Some to \<Rightarrow>
             Inr \<lparr>pt_hash = en_tx_hash env, pt_from = tx_from ktx, pt_tx_to = to, pt_value = tx_value ktx,
                  pt_nonce = tx_nonce ktx, pt_input = en_input env,
                  pt_kind = pending_kind_from_kernel (tx_kind ktx), pt_tx_type = en_tx_type env,
                  pt_max_fee_per_gas = (if en_tx_type env \<ge> 1 then Some (en_max_fee_per_gas env) else None),
                  pt_max_priority_fee_per_gas =
                    (if en_tx_type env \<ge> 1 then en_max_priority_fee_per_gas env else None)\<rparr>))"

section \<open>The two copies agree\<close>

lemma pending_kernel_inverse [simp]:
  "kernel_kind_from_pending (pending_kind_from_kernel k) = k"
  "pending_kind_from_kernel (kernel_kind_from_pending q) = q"
  by (cases k; simp) (cases q; simp)

lemma gas_for_kind_kernel: "kernel_gas (kernel_kind_from_pending q) = gas_for_kind q"
  by (cases q) simp_all

text \<open>What the node decodes and later applies is exactly what the shared decoder decodes.\<close>

lemma decode_pending_kernel:
  "decode_pending_tx decode_2718 abi chain_id raw = Inr p
   \<Longrightarrow> decode_tx decode_2718 abi chain_id raw = Inr (kernel_tx_from_pending p)"
  by (auto simp: decode_pending_tx_def decode_tx_def attempt_def map_err_def kernel_tx_from_pending_def
      split: sum.splits option.splits if_splits)

lemma decode_pending_complete:
  "decode_tx decode_2718 abi chain_id raw = Inr ktx
   \<Longrightarrow> \<exists>p. decode_pending_tx decode_2718 abi chain_id raw = Inr p \<and> kernel_tx_from_pending p = ktx"
  by (auto simp: decode_pending_tx_def decode_tx_def attempt_def map_err_def kernel_tx_from_pending_def
      split: sum.splits option.splits if_splits)

end
