(* ===== verification/Receipts.thy ===== *)
theory Receipts
  imports Pending_Tx
begin

text \<open>
  Receipts and indexes of the node (\<^verbatim>\<open>crates/rpc/src/lib.rs\<close>): the event logs of every operation, the two
  sweeps with the logs they emit, the addresses a transaction touches and the per-address index. Logs
  are presentation: they are not part of the state. The node runs its own copies of the kernel's
  sweeps; the lemmas show that they change the state exactly as the kernel's do.
\<close>

unbundle bit_operations_syntax

section \<open>Records\<close>

record tx_log =
  lg_address :: address
  lg_topics :: "hash list"
  lg_data :: "byte list"

record stored_tx =
  sx_hash :: hash
  sx_from :: address
  sx_to :: "address option"
  sx_value :: u256
  sx_nonce :: u64
  sx_block_number :: u64
  sx_block_hash :: hash
  sx_tx_index :: u64
  sx_input :: "byte list"
  sx_logs :: "tx_log list"
  sx_gas_used :: u64
  sx_success :: bool
  sx_revert_reason :: "kernel_error option"
  sx_tx_type :: u8
  sx_max_fee_per_gas :: "u128 option"
  sx_max_priority_fee_per_gas :: "u128 option"

section \<open>Topics and data words\<close>

type_synonym keccak = "byte list \<Rightarrow> hash"

definition stream_opened_topic :: "keccak \<Rightarrow> hash" where
  "stream_opened_topic keccak256 = keccak256 (ascii ''StreamOpened(uint256,address,address)'')"

definition stream_stopped_topic :: "keccak \<Rightarrow> hash" where
  "stream_stopped_topic keccak256 = keccak256 (ascii ''StreamStopped(uint256,address)'')"

definition transfer_topic :: "keccak \<Rightarrow> hash" where
  "transfer_topic keccak256 = keccak256 (ascii ''Transfer(address,address,uint256)'')"

definition case_opened_topic :: "keccak \<Rightarrow> hash" where
  "case_opened_topic keccak256 = keccak256 (ascii ''CaseOpened(uint256,address,uint8)'')"

definition verdict_submitted_topic :: "keccak \<Rightarrow> hash" where
  "verdict_submitted_topic keccak256 = keccak256 (ascii ''VerdictSubmitted(uint256,address,uint8)'')"

definition status_changed_topic :: "keccak \<Rightarrow> hash" where
  "status_changed_topic keccak256 = keccak256 (ascii ''StatusChanged(address,uint8)'')"

definition zk_verified_topic :: "keccak \<Rightarrow> hash" where
  "zk_verified_topic keccak256 = keccak256 (ascii ''ZkPassportVerified(address,uint8)'')"

definition csca_registered_topic :: "keccak \<Rightarrow> hash" where
  "csca_registered_topic keccak256 = keccak256 (ascii ''CscaRegistered(bytes32,bytes3)'')"

definition csca_revoked_topic :: "keccak \<Rightarrow> hash" where
  "csca_revoked_topic keccak256 = keccak256 (ascii ''CscaRevoked(bytes32)'')"

definition self_identity_root_pinned_topic :: "keccak \<Rightarrow> hash" where
  "self_identity_root_pinned_topic keccak256 = keccak256 (ascii ''SelfIdentityRootPinned(bytes32)'')"

definition self_ofac_root_pinned_topic :: "keccak \<Rightarrow> hash" where
  "self_ofac_root_pinned_topic keccak256 = keccak256 (ascii ''SelfOfacRootPinned(bytes32)'')"

definition self_root_retired_topic :: "keccak \<Rightarrow> hash" where
  "self_root_retired_topic keccak256 = keccak256 (ascii ''SelfRootRetired(bytes32)'')"

definition contract_deployed_topic :: "keccak \<Rightarrow> hash" where
  "contract_deployed_topic keccak256 = keccak256 (ascii ''ContractDeployed(uint256,address,bytes32)'')"

definition contract_case_opened_topic :: "keccak \<Rightarrow> hash" where
  "contract_case_opened_topic keccak256 = keccak256 (ascii ''CaseOpened(uint256,uint256,address)'')"

definition effect_committed_topic :: "keccak \<Rightarrow> hash" where
  "effect_committed_topic keccak256 = keccak256 (ascii ''EffectCommitted(uint256,uint256,bytes32)'')"

definition effect_aborted_topic :: "keccak \<Rightarrow> hash" where
  "effect_aborted_topic keccak256 = keccak256 (ascii ''EffectAborted(uint256,uint256)'')"

definition u64_topic :: "u64 \<Rightarrow> hash" where
  "u64_topic v = of_nat v"

definition addr_topic :: "address \<Rightarrow> hash" where
  "addr_topic a = ucast a"

definition token_id_of :: "address \<Rightarrow> hash" where
  "token_id_of human = ucast human"

definition addr_of_token_id :: "hash \<Rightarrow> address option" where
  "addr_of_token_id token_id =
     (if drop_bit 160 token_id \<noteq> 0 then None else Some (ucast token_id))"

definition u8_data :: "u8 \<Rightarrow> byte list" where
  "u8_data v = replicate 31 0 @ [of_nat v]"

definition hash_data :: "hash \<Rightarrow> byte list" where
  "hash_data h = hash_bytes h"

fun case_kind_u8 :: "CaseKind \<Rightarrow> u8" where
  "case_kind_u8 Registration = 0"
| "case_kind_u8 Challenge = 1"

fun verdict_u8 :: "Verdict \<Rightarrow> u8" where
  "verdict_u8 VHuman = 0"
| "verdict_u8 VSybil = 1"
| "verdict_u8 VUncertain = 2"

fun human_status_u8 :: "HumanStatus \<Rightarrow> u8" where
  "human_status_u8 Unverified = 0"
| "human_status_u8 Pending = 1"
| "human_status_u8 Verified = 2"
| "human_status_u8 Challenged = 3"
| "human_status_u8 Revoked = 4"

section \<open>Logs\<close>

definition stream_open_logs :: "keccak \<Rightarrow> u64 \<Rightarrow> address \<Rightarrow> address \<Rightarrow> tx_log list" where
  "stream_open_logs keccak256 sid frm to =
     (let recipient_token = of_nat sid :: hash;
          sender_token = of_nat sid OR push_bit 255 (1 :: hash)
      in [\<lparr>lg_address = STREAM_HUB,
           lg_topics = [stream_opened_topic keccak256, u64_topic sid, addr_topic frm, addr_topic to], lg_data = []\<rparr>,
          \<lparr>lg_address = STREAM_HUB,
           lg_topics = [transfer_topic keccak256, addr_topic 0, addr_topic to, recipient_token], lg_data = []\<rparr>,
          \<lparr>lg_address = STREAM_HUB,
           lg_topics = [transfer_topic keccak256, addr_topic 0, addr_topic frm, sender_token], lg_data = []\<rparr>])"

definition stream_stop_logs :: "keccak \<Rightarrow> u64 \<Rightarrow> address \<Rightarrow> tx_log list" where
  "stream_stop_logs keccak256 sid caller =
     [\<lparr>lg_address = STREAM_HUB, lg_topics = [stream_stopped_topic keccak256, u64_topic sid, addr_topic caller],
       lg_data = []\<rparr>]"

definition zk_verified_log :: "keccak \<Rightarrow> address \<Rightarrow> Assurance \<Rightarrow> tx_log" where
  "zk_verified_log keccak256 subject assurance =
     \<lparr>lg_address = HUMANITY_HUB, lg_topics = [zk_verified_topic keccak256, addr_topic subject],
      lg_data = u8_data (assurance_tag assurance)\<rparr>"

definition case_opened_log :: "keccak \<Rightarrow> poh_case \<Rightarrow> tx_log" where
  "case_opened_log keccak256 c =
     \<lparr>lg_address = HUMANITY_HUB,
      lg_topics = [case_opened_topic keccak256, u64_topic (cs_id c), addr_topic (cs_subject c)],
      lg_data = u8_data (case_kind_u8 (cs_kind c))\<rparr>"

definition verdict_submitted_log :: "keccak \<Rightarrow> u64 \<Rightarrow> address \<Rightarrow> Verdict \<Rightarrow> tx_log" where
  "verdict_submitted_log keccak256 case_id juror v =
     \<lparr>lg_address = HUMANITY_HUB,
      lg_topics = [verdict_submitted_topic keccak256, u64_topic case_id, addr_topic juror],
      lg_data = u8_data (verdict_u8 v)\<rparr>"

definition status_changed_log :: "keccak \<Rightarrow> address \<Rightarrow> HumanStatus \<Rightarrow> tx_log" where
  "status_changed_log keccak256 subject status =
     \<lparr>lg_address = HUMANITY_HUB, lg_topics = [status_changed_topic keccak256, addr_topic subject],
      lg_data = u8_data (human_status_u8 status)\<rparr>"

definition poh_mint_log :: "keccak \<Rightarrow> address \<Rightarrow> tx_log" where
  "poh_mint_log keccak256 human =
     \<lparr>lg_address = HUMANITY_HUB,
      lg_topics = [transfer_topic keccak256, addr_topic 0, addr_topic human, token_id_of human], lg_data = []\<rparr>"

definition poh_burn_log :: "keccak \<Rightarrow> address \<Rightarrow> tx_log" where
  "poh_burn_log keccak256 human =
     \<lparr>lg_address = HUMANITY_HUB,
      lg_topics = [transfer_topic keccak256, addr_topic human, addr_topic 0, token_id_of human], lg_data = []\<rparr>"

definition humanity_status_logs :: "keccak \<Rightarrow> address \<Rightarrow> HumanStatus option \<Rightarrow> HumanStatus \<Rightarrow> tx_log list" where
  "humanity_status_logs keccak256 subject prev status =
     (let was_verified = (prev = Some Verified); is_verified = (status = Verified)
      in [status_changed_log keccak256 subject status] @
         (if is_verified \<and> \<not> was_verified then [poh_mint_log keccak256 subject]
          else if was_verified \<and> \<not> is_verified then [poh_burn_log keccak256 subject]
          else []))"

definition contract_deployed_log :: "keccak \<Rightarrow> u64 \<Rightarrow> address \<Rightarrow> hash \<Rightarrow> tx_log" where
  "contract_deployed_log keccak256 cid deployer text_ref =
     \<lparr>lg_address = CONTRACT_HUB, lg_topics = [contract_deployed_topic keccak256, u64_topic cid, addr_topic deployer],
      lg_data = hash_data text_ref\<rparr>"

definition contract_case_opened_log :: "keccak \<Rightarrow> u64 \<Rightarrow> u64 \<Rightarrow> address \<Rightarrow> tx_log" where
  "contract_case_opened_log keccak256 case_id cid invoker =
     \<lparr>lg_address = CONTRACT_HUB,
      lg_topics = [contract_case_opened_topic keccak256, u64_topic case_id, u64_topic cid, addr_topic invoker],
      lg_data = []\<rparr>"

definition exec_case_outcome_log :: "keccak \<Rightarrow> exec_case \<Rightarrow> tx_log option" where
  "exec_case_outcome_log keccak256 c =
     (case ec_status c of
        ExecCommitted effect \<Rightarrow> Some
          \<lparr>lg_address = CONTRACT_HUB,
           lg_topics = [effect_committed_topic keccak256, u64_topic (ec_id c), u64_topic (ec_contract c)],
           lg_data = hash_data (ef_effect_hash effect)\<rparr>
      | Aborted \<Rightarrow> Some
          \<lparr>lg_address = CONTRACT_HUB,
           lg_topics = [effect_aborted_topic keccak256, u64_topic (ec_id c), u64_topic (ec_contract c)],
           lg_data = []\<rparr>
      | ExecOpen \<Rightarrow> None)"

definition opt_list :: "'a option \<Rightarrow> 'a list" where
  "opt_list x = (case x of None \<Rightarrow> [] | Some y \<Rightarrow> [y])"

definition humanity_log :: "hash list \<Rightarrow> byte list \<Rightarrow> tx_log" where
  "humanity_log topics bytes = \<lparr>lg_address = HUMANITY_HUB, lg_topics = topics, lg_data = bytes\<rparr>"

fun build_op_logs ::
    "keccak \<Rightarrow> mem_state \<Rightarrow> pending_tx \<Rightarrow> PendingKind \<Rightarrow> OpResult
      \<Rightarrow> (address \<times> HumanStatus option) option \<Rightarrow> tx_log list" where
  "build_op_logs keccak256 s p (PTransfer _ _) result pre_status = []"
| "build_op_logs keccak256 s p (POpenStream to _ _) result pre_status =
     (case result of StreamId sid \<Rightarrow> stream_open_logs keccak256 sid (pt_from p) to | _ \<Rightarrow> [])"
| "build_op_logs keccak256 s p (PStopStream sid) result pre_status = stream_stop_logs keccak256 sid (pt_from p)"
| "build_op_logs keccak256 s p (PRequestVerification _) result pre_status =
     (case result of
        CaseId case_id \<Rightarrow> (case get_case s case_id of Some c \<Rightarrow> [case_opened_log keccak256 c] | None \<Rightarrow> [])
      | _ \<Rightarrow> []) @ [status_changed_log keccak256 (pt_from p) Pending]"
| "build_op_logs keccak256 s p (PVouch _) result pre_status = []"
| "build_op_logs keccak256 s p (PChallenge subject _) result pre_status =
     (case result of
        CaseId case_id \<Rightarrow> (case get_case s case_id of Some c \<Rightarrow> [case_opened_log keccak256 c] | None \<Rightarrow> [])
      | _ \<Rightarrow> []) @
     (case get_human s subject of
        Some h \<Rightarrow>
          if hu_status h = Challenged then humanity_status_logs keccak256 subject (Some Verified) (hu_status h) else []
      | None \<Rightarrow> [])"
| "build_op_logs keccak256 s p (PSubmitVerdict case_id verdict) result pre_status =
     verdict_submitted_log keccak256 case_id (pt_from p) (cv_verdict verdict) #
     (case pre_status of
        Some (subj, pre) \<Rightarrow>
          (case get_human s subj of
             Some h \<Rightarrow> if Some (hu_status h) \<noteq> pre then humanity_status_logs keccak256 subj pre (hu_status h) else []
           | None \<Rightarrow> [])
      | None \<Rightarrow> [])"
| "build_op_logs keccak256 s p (PSubmitZkPassportProof _ _ _ _) result pre_status =
     (let subject = pt_from p;
          pre = (case pre_status of Some (_, st) \<Rightarrow> st | None \<Rightarrow> None)
      in (case result of AssuranceLevel a \<Rightarrow> [zk_verified_log keccak256 subject a] | _ \<Rightarrow> []) @
         (if pre \<noteq> Some Verified then humanity_status_logs keccak256 subject pre Verified else []))"
| "build_op_logs keccak256 s p (PRegisterCsca country_code key_id _) result pre_status =
     [humanity_log [csca_registered_topic keccak256, key_id] (country_code @ replicate 29 0)]"
| "build_op_logs keccak256 s p (PRevokeCsca key_id) result pre_status =
     [humanity_log [csca_revoked_topic keccak256, key_id] []]"
| "build_op_logs keccak256 s p (PPinSelfIdentityRoot root) result pre_status =
     [humanity_log [self_identity_root_pinned_topic keccak256, root] []]"
| "build_op_logs keccak256 s p (PPinSelfOfacRoot kind root) result pre_status =
     [humanity_log [self_ofac_root_pinned_topic keccak256, root] (replicate 31 0 @ [of_nat kind])]"
| "build_op_logs keccak256 s p (PRetireSelfRoot root) result pre_status =
     [humanity_log [self_root_retired_topic keccak256, root] []]"
| "build_op_logs keccak256 s p (PDeployContract text _) result pre_status =
     (case result of
        CaseId cid \<Rightarrow> [contract_deployed_log keccak256 cid (pt_from p) (text_commitment keccak256 text)]
      | _ \<Rightarrow> [])"
| "build_op_logs keccak256 s p (PFundContract _) result pre_status = []"
| "build_op_logs keccak256 s p (PInvokeContract cid _) result pre_status =
     (case result of
        CaseId case_id \<Rightarrow>
          contract_case_opened_log keccak256 case_id cid (pt_from p) #
          (case get_exec_case s case_id of
             Some c \<Rightarrow> opt_list (exec_case_outcome_log keccak256 c)
           | None \<Rightarrow> [])
      | _ \<Rightarrow> [])"
| "build_op_logs keccak256 s p (PSubmitEffect case_id _) result pre_status =
     (case get_exec_case s case_id of
        Some c \<Rightarrow> opt_list (exec_case_outcome_log keccak256 c)
      | None \<Rightarrow> [])"

section \<open>The node's sweeps\<close>

definition rpc_block_entropy :: "hash \<Rightarrow> u64 \<Rightarrow> u64" where
  "rpc_block_entropy h number =
     unat ((of_nat (be_nat (take 8 (hash_bytes h))) :: 64 word) XOR of_nat number)"

text \<open>A sweep threads the state and appends to the logs.\<close>

definition rpc_finalize_one :: "keccak \<Rightarrow> u64 \<Rightarrow> u64 \<Rightarrow> address \<Rightarrow> tx_log list \<times> mem_state \<Rightarrow> tx_log list \<times> mem_state" where
  "rpc_finalize_one keccak256 now_block verified_at_secs subject = (\<lambda>(logs, s).
     (case finalize_registration s subject now_block verified_at_secs of
        (Inr _, s) \<Rightarrow> (logs @ humanity_status_logs keccak256 subject (Some Pending) Verified, s)
      | (Inl _, s) \<Rightarrow> (logs, s)))"

definition rpc_sweep_finalize :: "keccak \<Rightarrow> mem_state \<Rightarrow> u64 \<Rightarrow> u64 \<Rightarrow> tx_log list \<times> mem_state" where
  "rpc_sweep_finalize keccak256 s now_block verified_at_secs =
     (let pending = map hu_address (filter (\<lambda>h. hu_status h = Pending) (humans s))
      in fold (rpc_finalize_one keccak256 now_block verified_at_secs) pending ([], s))"

definition rpc_scan_one :: "kernel_env \<Rightarrow> hash \<Rightarrow> u64 \<Rightarrow> address \<Rightarrow> tx_log list \<times> mem_state \<Rightarrow> tx_log list \<times> mem_state" where
  "rpc_scan_one env block_hash now_block subject = (\<lambda>(logs, s).
     (let graph = state_graph_view s in
      if cv_verdict (analyze_sybil (ke_oracle env) graph subject) \<noteq> VSybil then (logs, s)
      else
        let evidence_ref = ke_keccak256 env (ascii ''sybil-scan'' @ addr_bytes subject @ hash_bytes block_hash);
            entropy = rpc_block_entropy block_hash now_block
        in (case system_challenge s HUMANITY_HUB subject evidence_ref entropy now_block of
              (Inr case_id, s) \<Rightarrow>
                (case get_case s case_id of
                   Some c \<Rightarrow> (logs @ [case_opened_log (ke_keccak256 env) c], s)
                 | None \<Rightarrow> (logs, s))
            | (Inl _, s) \<Rightarrow> (logs, s))))"

definition rpc_sweep_sybil_scan :: "kernel_env \<Rightarrow> mem_state \<Rightarrow> hash \<Rightarrow> u64 \<Rightarrow> tx_log list \<times> mem_state" where
  "rpc_sweep_sybil_scan env s block_hash now_block =
     (let pending = map hu_address (filter (\<lambda>h. hu_status h = Pending) (humans s))
      in fold (rpc_scan_one env block_hash now_block) pending ([], s))"

section \<open>The per-address index\<close>

definition topic_address :: "hash \<Rightarrow> address option" where
  "topic_address topic =
     (let bytes = hash_bytes topic in
      if list_all (\<lambda>b. b = 0) (take 12 bytes) then
        (let a = addr_of_bytes (drop 12 bytes) in if a \<noteq> 0 then Some a else None)
      else None)"

definition affected_addresses :: "stored_tx \<Rightarrow> address list" where
  "affected_addresses tx =
     remdups_adj (sort ([sx_from tx] @ opt_list (sx_to tx)
       @ List.map_filter topic_address (concat (map lg_topics (sx_logs tx)))))"

text \<open>\<^verbatim>\<open>addr_index.entry(a).or_default()\<close>, pushed to unless the hash is already last.\<close>

definition index_push :: "hash \<Rightarrow> address \<Rightarrow> (address, hash list) fmap \<Rightarrow> (address, hash list) fmap" where
  "index_push h a m =
     (let entry = (case fmlookup m a of Some e \<Rightarrow> e | None \<Rightarrow> [])
      in if entry \<noteq> [] \<and> List.last entry = h then fmupd a entry m else fmupd a (entry @ [h]) m)"

definition index_tx :: "stored_tx \<Rightarrow> (address, hash list) fmap \<Rightarrow> (address, hash list) fmap" where
  "index_tx tx m = fold (index_push (sx_hash tx)) (affected_addresses tx) m"

fun op_target :: "Op \<Rightarrow> address option" where
  "op_target (Transfer to _) = Some to"
| "op_target (Refund party _) = Some party"
| "op_target (OpenStream to _ _) = Some to"
| "op_target (StopStream _) = None"
| "op_target (SetVar _ _) = None"
| "op_target (Abort _) = None"

definition effect_case_of :: "mem_state \<Rightarrow> PendingKind \<Rightarrow> exec_case_id option" where
  "effect_case_of s kind =
     (case kind of
        PSubmitEffect case_id _ \<Rightarrow> Some case_id
      | PInvokeContract cid _ \<Rightarrow>
          (case map ec_id (filter (\<lambda>c. ec_contract c = cid) (exec_cases s)) of
             [] \<Rightarrow> None
           | i # is \<Rightarrow> Some (fold max is i))
      | _ \<Rightarrow> None)"

definition contract_effect_addresses :: "mem_state \<Rightarrow> PendingKind \<Rightarrow> address list" where
  "contract_effect_addresses s kind =
     (case effect_case_of s kind of
        None \<Rightarrow> []
      | Some case_id \<Rightarrow>
          (case get_exec_case s case_id of
             None \<Rightarrow> []
           | Some c \<Rightarrow>
               (case ec_status c of
                  ExecCommitted effect \<Rightarrow>
                    remdups_adj (sort (contract_address (ec_contract c) # List.map_filter op_target (ef_ops effect)))
                | _ \<Rightarrow> [])))"

section \<open>The node's sweeps are the kernel's\<close>

lemma fold_snd:
  assumes "\<And>x l t. snd (f x (l, t)) = g x t"
  shows "snd (fold f xs a) = fold g xs (snd a)"
proof (induction xs arbitrary: a)
  case (Cons x xs)
  then show ?case using assms by (cases a) simp
qed simp

lemma rpc_block_entropy_eq: "rpc_block_entropy = block_entropy"
  by (simp add: fun_eq_iff rpc_block_entropy_def block_entropy_def)

lemma rpc_sweep_finalize_state: "snd (rpc_sweep_finalize k s blk secs) = sweep_finalize s blk secs"
proof -
  have "snd (rpc_finalize_one k blk secs x (l, t)) = snd (finalize_registration t x blk secs)" for x l t
    by (auto simp: rpc_finalize_one_def split: prod.splits sum.splits)
  then show ?thesis
    by (simp add: rpc_sweep_finalize_def sweep_finalize_def pending_humans_def
        fold_snd [where g = "\<lambda>x t. snd (finalize_registration t x blk secs)"])
qed

lemma rpc_sweep_scan_state: "snd (rpc_sweep_sybil_scan env s h blk) = sweep_sybil_scan env s h blk"
proof -
  have "snd (rpc_scan_one env h blk x (l, t)) = scan_one env h blk x t" for x l t
    by (simp add: rpc_scan_one_def scan_one_def Let_def rpc_block_entropy_eq
        split: prod.splits sum.splits option.splits)
  then show ?thesis
    by (simp add: rpc_sweep_sybil_scan_def sweep_sybil_scan_def pending_humans_def
        fold_snd [where g = "scan_one env h blk"])
qed

section \<open>Tokens and topics\<close>

lemma ucast_address [simp]: "ucast (ucast (a :: address) :: hash) = a"
  by (rule bit_word_eqI) (simp add: bit_simps)

lemma addr_topic_inject [simp]: "addr_topic a = addr_topic b \<longleftrightarrow> a = b"
  unfolding addr_topic_def by (metis ucast_address)

lemma addr_of_token_id_of: "addr_of_token_id (token_id_of a) = Some a"
proof -
  have "drop_bit 160 (ucast a :: hash) = 0"
    by (rule bit_word_eqI) (auto simp: bit_simps dest: bit_imp_le_length)
  then show ?thesis by (simp add: addr_of_token_id_def token_id_of_def)
qed

end
