(* ===== verification/Chain_Node.thy ===== *)
theory Chain_Node
  imports Receipts State_Root
begin

text \<open>
  The node's chain (\<^verbatim>\<open>struct Chain\<close> in \<^verbatim>\<open>crates/rpc/src/lib.rs\<close>): blocks and their hash, block execution,
  production and validation, and the mempool gate. The kernel's environment, the envelope and ABI
  decoders and the ECDSA library are fields of the node's environment. The parts behind the node's three
  locks are fields of one record: \<^verbatim>\<open>Inner\<close>, the ring of recent states and the store of fork blocks. An
  outer \<open>None\<close> is a panic: a failed \<^verbatim>\<open>expect\<close>, an index out of bounds, or a panic inside the contract
  engine. The broadcast of new heads and the published network status are not state the chain reads.
\<close>

section \<open>The environment and the proposer key\<close>

record node_env =
  ne_kernel :: kernel_env
  ne_decode_2718 :: "byte list \<Rightarrow> string + envelope"
  ne_abi :: hub_abi
  ne_recover_key :: "hash \<Rightarrow> byte list \<Rightarrow> u8 \<Rightarrow> byte list option"

abbreviation ne_keccak256 :: "node_env \<Rightarrow> keccak" where
  "ne_keccak256 env \<equiv> ke_keccak256 (ne_kernel env)"

text \<open>
  The signing key of the ECDSA library: its uncompressed public key, and the signature \<^verbatim>\<open>r || s\<close> with
  the recovery id it makes of a hash. \<open>ne_recover_key\<close> is the library's recovery: \<open>None\<close> when the
  recovery id or the signature is malformed or no key recovers.
\<close>

record proposer_key =
  pk_public_key :: "byte list"
  pk_sign_recoverable :: "hash \<Rightarrow> byte list \<times> u8"

definition evm_address :: "keccak \<Rightarrow> byte list \<Rightarrow> address" where
  "evm_address keccak256 pubkey = addr_of_bytes (drop 12 (hash_bytes (keccak256 (drop 1 pubkey))))"

definition sign_prehash :: "proposer_key \<Rightarrow> hash \<Rightarrow> byte list" where
  "sign_prehash key h = (let (rs, recid) = pk_sign_recoverable key h in rs @ [of_nat (27 + recid)])"

definition recover_proposer :: "node_env \<Rightarrow> hash \<Rightarrow> byte list \<Rightarrow> address option" where
  "recover_proposer env h sig =
     (if length sig \<noteq> 65 then None
      else
        let v = unat (sig ! 64) in
        if v < 27 then None
        else map_option (evm_address (ne_keccak256 env)) (ne_recover_key env h (take 64 sig) (v - 27)))"

section \<open>Blocks\<close>

definition FINALITY_DEPTH :: u64 where [const_defs]: "FINALITY_DEPTH = 6"
definition MAX_FORK_STORE :: usize where [const_defs]: "MAX_FORK_STORE = 256"
definition MEMPOOL_MAX_TXS :: usize where [const_defs]: "MEMPOOL_MAX_TXS = 4096"
definition MEMPOOL_MAX_PER_SENDER :: usize where [const_defs]: "MEMPOOL_MAX_PER_SENDER = 64"

record block =
  bk_number :: u64
  bk_hash :: hash
  bk_parent_hash :: hash
  bk_timestamp :: u64
  bk_view :: u32
  bk_txs_root :: hash
  bk_state_root :: hash
  bk_proposer :: address
  bk_proposer_sig :: "byte list"
  bk_txs :: "stored_tx list"

definition header_preimage :: "u64 \<Rightarrow> hash \<Rightarrow> u64 \<Rightarrow> u32 \<Rightarrow> hash \<Rightarrow> hash \<Rightarrow> address \<Rightarrow> byte list" where
  "header_preimage number parent_hash timestamp view txs_root root proposer =
     be_bytes 8 number @ hash_bytes parent_hash @ be_bytes 8 timestamp @ be_bytes 4 view
     @ hash_bytes txs_root @ hash_bytes root @ addr_bytes proposer"

definition compute_hash :: "keccak \<Rightarrow> u64 \<Rightarrow> hash \<Rightarrow> u64 \<Rightarrow> u32 \<Rightarrow> hash \<Rightarrow> hash \<Rightarrow> address \<Rightarrow> hash" where
  "compute_hash keccak256 number parent_hash timestamp view txs_root root proposer =
     keccak256 (header_preimage number parent_hash timestamp view txs_root root proposer)"

definition compute_txs_root :: "keccak \<Rightarrow> stored_tx list \<Rightarrow> hash" where
  "compute_txs_root keccak256 txs =
     keccak256 (be_bytes 8 (length txs) @ concat (map (hash_bytes \<circ> sx_hash) txs))"

datatype BlockError =
    NonContiguous u64 u64            \<comment> \<open>have, got\<close>
  | WrongParent
  | BadTimestamp
  | WrongProposer
  | BadBlockSignature
  | NoValidatorSet
  | ViewOutOfRange u32
  | UndecodableTx
  | StateRootMismatch hash hash      \<comment> \<open>expected, got\<close>

text \<open>
  The arguments of \<^verbatim>\<open>validate_and_apply_block\<close>: the header of a received block and its raw transactions;
  a retained fork block is these and the hash it is stored under.
\<close>

record wire_block =
  wb_number :: u64
  wb_parent_hash :: hash
  wb_timestamp :: u64
  wb_view :: u32
  wb_txs_root :: hash
  wb_state_root :: hash
  wb_proposer :: address
  wb_proposer_sig :: "byte list"
  wb_raw_txs :: "byte list list"

record fork_block_entry = wire_block +
  fb_hash :: hash

section \<open>The chain\<close>

record inner =
  in_state :: mem_state
  in_blocks :: "block list"
  in_blocks_by_hash :: "(hash, usize) fmap"
  in_txs :: "(hash, stored_tx) fmap"
  in_mempool :: "pending_tx list"
  in_addr_index :: "(address, hash list) fmap"
  in_raw_tx :: "(hash, byte list) fmap"

text \<open>The anchor keeps the state its snapshot bytes are serialised from.\<close>

record genesis_anchor =
  ga_state_root :: hash
  ga_snapshot :: mem_state

definition build_genesis_anchor :: "mem_state \<Rightarrow> genesis_anchor" where
  "build_genesis_anchor s = \<lparr>ga_state_root = state_root s, ga_snapshot = s\<rparr>"

record chain =
  ch_inner :: inner
  ch_chain_id :: u64
  ch_proposer_key :: "proposer_key option"
  ch_genesis_anchor :: "genesis_anchor option"
  ch_recent_states :: "(u64, mem_state) fmap"
  ch_fork_store :: "(hash, fork_block_entry) fmap"

definition chain_new :: "keccak \<Rightarrow> u64 \<Rightarrow> u64 \<Rightarrow> chain" where
  "chain_new keccak256 chain_id genesis_time =
     (let genesis_txs_root = compute_txs_root keccak256 [];
          genesis_hash = compute_hash keccak256 0 0 genesis_time 0 genesis_txs_root 0 0;
          genesis = \<lparr>bk_number = 0, bk_hash = genesis_hash, bk_parent_hash = 0, bk_timestamp = genesis_time,
                     bk_view = 0, bk_txs_root = genesis_txs_root, bk_state_root = 0, bk_proposer = 0,
                     bk_proposer_sig = [], bk_txs = []\<rparr>
      in \<lparr>ch_inner = \<lparr>in_state = mem_state_new, in_blocks = [genesis],
            in_blocks_by_hash = fmupd genesis_hash 0 fmempty, in_txs = fmempty, in_mempool = [],
            in_addr_index = fmempty, in_raw_tx = fmempty\<rparr>,
          ch_chain_id = chain_id, ch_proposer_key = None, ch_genesis_anchor = None,
          ch_recent_states = fmempty, ch_fork_store = fmempty\<rparr>)"

text \<open>\<^verbatim>\<open>g.blocks.last().expect("genesis present")\<close>.\<close>

definition latest_block :: "inner \<Rightarrow> block option" where
  "latest_block g = (if in_blocks g = [] then None else Some (List.last (in_blocks g)))"

definition tip :: "chain \<Rightarrow> (u64 \<times> hash) option" where
  "tip ch = map_option (\<lambda>b. (bk_number b, bk_hash b)) (latest_block (ch_inner ch))"

definition finalized_height :: "chain \<Rightarrow> u64 option" where
  "finalized_height ch = map_option (\<lambda>(n, _). n - FINALITY_DEPTH) (tip ch)"

definition knows_block :: "chain \<Rightarrow> hash \<Rightarrow> bool" where
  "knows_block ch h = (fmlookup (in_blocks_by_hash (ch_inner ch)) h \<noteq> None)"

definition block_at :: "chain \<Rightarrow> u64 \<Rightarrow> block option" where
  "block_at ch height =
     (if height < length (in_blocks (ch_inner ch)) then Some (in_blocks (ch_inner ch) ! height) else None)"

definition knows_tx :: "chain \<Rightarrow> hash \<Rightarrow> bool" where
  "knows_tx ch h \<longleftrightarrow>
     fmlookup (in_txs (ch_inner ch)) h \<noteq> None \<or> list_ex (\<lambda>p. pt_hash p = h) (in_mempool (ch_inner ch))"

definition raw_txs_of :: "inner \<Rightarrow> block \<Rightarrow> byte list list" where
  "raw_txs_of g b = List.map_filter (\<lambda>tx. fmlookup (in_raw_tx g) (sx_hash tx)) (bk_txs b)"

definition raw_txs_for_block :: "chain \<Rightarrow> block \<Rightarrow> byte list list" where
  "raw_txs_for_block ch b = raw_txs_of (ch_inner ch) b"

definition pending_raw_txs :: "chain \<Rightarrow> byte list list" where
  "pending_raw_txs ch =
     List.map_filter (\<lambda>p. fmlookup (in_raw_tx (ch_inner ch)) (pt_hash p)) (in_mempool (ch_inner ch))"

definition cache_raw_txs :: "keccak \<Rightarrow> byte list list \<Rightarrow> chain \<Rightarrow> chain" where
  "cache_raw_txs keccak256 raws ch =
     (let g = ch_inner ch
      in ch\<lparr>ch_inner := g\<lparr>in_raw_tx := fold (\<lambda>raw. fmupd (keccak256 raw) raw) raws (in_raw_tx g)\<rparr>\<rparr>)"

definition ensure_epoch_validators_seeded :: "chain \<Rightarrow> chain option" where
  "ensure_epoch_validators_seeded ch =
     (let g = ch_inner ch in
      Option.bind (latest_block g) (\<lambda>head.
        Some (if bk_number head = 0 \<and> ms_epoch_validators (in_state g) = []
              then ch\<lparr>ch_inner := g\<lparr>in_state := refresh_epoch_validators (in_state g) 0\<rparr>\<rparr>
              else ch)))"

definition effective_validator_set :: "mem_state \<Rightarrow> address option \<Rightarrow> address list" where
  "effective_validator_set s validator_override =
     (case validator_override of Some a \<Rightarrow> [a] | None \<Rightarrow> validator_set s)"

definition scheduled_proposer :: "mem_state \<Rightarrow> u64 \<Rightarrow> u32 \<Rightarrow> address option \<Rightarrow> address option" where
  "scheduled_proposer s height view validator_override =
     (let v = effective_validator_set s validator_override; n = length v
      in if n = 0 then None else Some (v ! proposer_index height view n))"

section \<open>Executing a block\<close>

definition pre_status_of :: "mem_state \<Rightarrow> pending_tx \<Rightarrow> (address \<times> HumanStatus option) option" where
  "pre_status_of s p =
     (case pt_kind p of
        PChallenge subject _ \<Rightarrow> Some (subject, map_option hu_status (get_human s subject))
      | PSubmitVerdict case_id _ \<Rightarrow>
          map_option (\<lambda>c. (cs_subject c, map_option hu_status (get_human s (cs_subject c)))) (get_case s case_id)
      | PSubmitZkPassportProof _ _ _ _ \<Rightarrow> Some (pt_from p, map_option hu_status (get_human s (pt_from p)))
      | _ \<Rightarrow> None)"

definition stored_of :: "block_ctx \<Rightarrow> nat \<Rightarrow> pending_tx \<Rightarrow> tx_log list \<Rightarrow> op_outcome \<Rightarrow> stored_tx" where
  "stored_of ctx i p logs outcome =
     \<lparr>sx_hash = pt_hash p, sx_from = pt_from p, sx_to = Some (pt_tx_to p), sx_value = pt_value p,
      sx_nonce = pt_nonce p, sx_block_number = bc_number ctx, sx_block_hash = bc_block_hash ctx,
      sx_tx_index = i, sx_input = pt_input p, sx_logs = logs, sx_gas_used = gas_for_kind (pt_kind p),
      sx_success = oo_success outcome,
      sx_revert_reason = (if oo_success outcome then None else oo_revert_reason outcome),
      sx_tx_type = pt_tx_type p, sx_max_fee_per_gas = pt_max_fee_per_gas p,
      sx_max_priority_fee_per_gas = pt_max_priority_fee_per_gas p\<rparr>"

definition exec_tx :: "kernel_env \<Rightarrow> block_ctx \<Rightarrow> nat \<Rightarrow> inner \<Rightarrow> pending_tx \<Rightarrow> (stored_tx option \<times> inner) option" where
  "exec_tx env ctx i g p =
     (let pre_status = pre_status_of (in_state g) p in
      case apply_tx env ctx (in_state g) (kernel_tx_from_pending p) of
        None \<Rightarrow> None
      | Some (None, s) \<Rightarrow> Some (None, g\<lparr>in_state := s\<rparr>)
      | Some (Some outcome, s) \<Rightarrow>
          let logs = (if oo_success outcome
                      then build_op_logs (ke_keccak256 env) s p (pt_kind p) (oo_result outcome) pre_status else []);
              tx = stored_of ctx i p logs outcome;
              index = index_tx tx (in_addr_index g);
              index = (if oo_success outcome
                       then fold (index_push (sx_hash tx)) (contract_effect_addresses s (pt_kind p)) index
                       else index)
          in Some (Some tx, g\<lparr>in_state := s, in_addr_index := index, in_txs := fmupd (pt_hash p) tx (in_txs g)\<rparr>))"

fun exec_txs ::
    "kernel_env \<Rightarrow> block_ctx \<Rightarrow> nat \<Rightarrow> inner \<Rightarrow> pending_tx list \<Rightarrow> (stored_tx list \<times> inner) option" where
  "exec_txs env ctx i g [] = Some ([], g)"
| "exec_txs env ctx i g (p # ps) =
     (case exec_tx env ctx i g p of
        None \<Rightarrow> None
      | Some (tx, g) \<Rightarrow> map_option (\<lambda>(stored, g). (opt_list tx @ stored, g)) (exec_txs env ctx (i + 1) g ps))"

text \<open>The sweeps at the end of a block, and the synthetic transaction that carries their logs.\<close>

definition exec_sweeps :: "kernel_env \<Rightarrow> block_ctx \<Rightarrow> stored_tx list \<Rightarrow> inner \<Rightarrow> stored_tx list \<times> inner" where
  "exec_sweeps env ctx stored g =
     (let (scan_logs, s) = rpc_sweep_sybil_scan env (in_state g) (bc_block_hash ctx) (bc_number ctx);
          (final_logs, s) = rpc_sweep_finalize (ke_keccak256 env) s (bc_number ctx) (bc_timestamp ctx);
          sweep_logs = scan_logs @ final_logs;
          g = g\<lparr>in_state := s\<rparr>
      in if sweep_logs = [] then (stored, g)
         else
           let sys_hash = ke_keccak256 env (hash_bytes (bc_block_hash ctx) @ ascii ''humanity-finalize-sweep'');
               tx = \<lparr>sx_hash = sys_hash, sx_from = HUMANITY_HUB, sx_to = Some HUMANITY_HUB, sx_value = 0,
                     sx_nonce = 0, sx_block_number = bc_number ctx, sx_block_hash = bc_block_hash ctx,
                     sx_tx_index = length stored, sx_input = [], sx_logs = sweep_logs, sx_gas_used = 0,
                     sx_success = True, sx_revert_reason = None, sx_tx_type = 0, sx_max_fee_per_gas = None,
                     sx_max_priority_fee_per_gas = None\<rparr>
           in (stored @ [tx],
               g\<lparr>in_addr_index := index_tx tx (in_addr_index g), in_txs := fmupd sys_hash tx (in_txs g)\<rparr>))"

text \<open>The refresh of the validator snapshot before a block, and the sealing of the anchor at block one.\<close>

definition open_epoch :: "u64 \<Rightarrow> mem_state \<Rightarrow> genesis_anchor option \<Rightarrow> mem_state \<times> genesis_anchor option" where
  "open_epoch number s anchor =
     (let (s, anchor) =
            (if number = 1 then
               (let s = refresh_epoch_validators s 0
                in (s, case anchor of None \<Rightarrow> Some (build_genesis_anchor s) | Some a \<Rightarrow> Some a))
             else (s, anchor));
          s = (if number mod EPOCH_BLOCKS = 0 then refresh_epoch_validators s number else s)
      in (s, anchor))"

text \<open>The ring of recent states: the state before block \<open>number\<close>, kept for the last seven heights.\<close>

definition remember_state :: "u64 \<Rightarrow> mem_state \<Rightarrow> (u64, mem_state) fmap \<Rightarrow> (u64, mem_state) fmap" where
  "remember_state number s rs =
     fmfilter (\<lambda>h. number - (FINALITY_DEPTH + 1) \<le> h) (fmupd (number - 1) s rs)"

text \<open>
  The author and signature of the header: those of the received block, or the node's own; \<open>h\<close> is the
  header hash as a function of the author.
\<close>

definition seal_header ::
    "keccak \<Rightarrow> proposer_key option \<Rightarrow> (address \<times> byte list) option \<Rightarrow> (address \<Rightarrow> hash) \<Rightarrow> address \<times> byte list \<times> hash" where
  "seal_header keccak256 key proposer_override h =
     (case proposer_override of
        Some (proposer, sig) \<Rightarrow> (proposer, sig, h proposer)
      | None \<Rightarrow>
          let proposer = (case key of Some k \<Rightarrow> evm_address keccak256 (pk_public_key k) | None \<Rightarrow> 0);
              final_hash = h proposer
          in (proposer, case key of Some k \<Rightarrow> sign_prehash k final_hash | None \<Rightarrow> [], final_hash))"

text \<open>Back-filling the hash, and appending the block.\<close>

definition append_block :: "block \<Rightarrow> inner \<Rightarrow> inner" where
  "append_block b g =
     g\<lparr>in_txs := fold (\<lambda>tx. fmupd (sx_hash tx) tx) (bk_txs b) (in_txs g),
       in_blocks := in_blocks g @ [b],
       in_blocks_by_hash := fmupd (bk_hash b) (length (in_blocks g)) (in_blocks_by_hash g)\<rparr>"

text \<open>The header over the final state; the transaction root covers the user transactions only.\<close>

definition build_block ::
    "keccak \<Rightarrow> block \<Rightarrow> u64 \<Rightarrow> u32 \<Rightarrow> nat \<Rightarrow> proposer_key option \<Rightarrow> (address \<times> byte list) option \<Rightarrow> stored_tx list
      \<Rightarrow> mem_state \<Rightarrow> block" where
  "build_block kec parent timestamp view user_tx_count key proposer_override stored s =
     (let number = bk_number parent + 1;
          txs_root = compute_txs_root kec (take (min user_tx_count (length stored)) stored);
          root = state_root s;
          (proposer, proposer_sig, final_hash) =
            seal_header kec key proposer_override
              (compute_hash kec number (bk_hash parent) timestamp view txs_root root)
      in \<lparr>bk_number = number, bk_hash = final_hash, bk_parent_hash = bk_hash parent,
          bk_timestamp = timestamp, bk_view = view, bk_txs_root = txs_root, bk_state_root = root,
          bk_proposer = proposer, bk_proposer_sig = proposer_sig,
          bk_txs = map (\<lambda>tx. tx\<lparr>sx_block_hash := final_hash\<rparr>) stored\<rparr>)"

definition execute_block ::
    "node_env \<Rightarrow> pending_tx list \<Rightarrow> u64 \<Rightarrow> u32 \<Rightarrow> (address \<times> byte list) option \<Rightarrow> chain \<Rightarrow> (block \<times> chain) option" where
  "execute_block env pending timestamp view proposer_override ch =
     (let g = ch_inner ch; kec = ne_keccak256 env in
      Option.bind (latest_block g) (\<lambda>parent.
        let number = bk_number parent + 1;
            recent = remember_state number (in_state g) (ch_recent_states ch);
            (s, anchor) = open_epoch number (in_state g) (ch_genesis_anchor ch);
            entropy_hash = compute_hash kec number (bk_hash parent) timestamp view 0 0 0;
            ctx = \<lparr>bc_timestamp = timestamp, bc_number = number, bc_block_hash = entropy_hash\<rparr>;
            user_tx_count = length pending
        in Option.bind (exec_txs (ne_kernel env) ctx 0 (g\<lparr>in_state := s\<rparr>) pending) (\<lambda>(stored, g).
          let (stored, g) = exec_sweeps (ne_kernel env) ctx stored g;
              b = build_block kec parent timestamp view user_tx_count (ch_proposer_key ch) proposer_override
                    stored (in_state g)
          in Some (b, ch\<lparr>ch_inner := append_block b g, ch_recent_states := recent, ch_genesis_anchor := anchor\<rparr>))))"

definition produce_block_at_view :: "node_env \<Rightarrow> u64 \<Rightarrow> u32 \<Rightarrow> chain \<Rightarrow> (block \<times> chain) option" where
  "produce_block_at_view env timestamp view ch =
     (let g = ch_inner ch
      in execute_block env (in_mempool g) timestamp view None (ch\<lparr>ch_inner := g\<lparr>in_mempool := []\<rparr>\<rparr>))"

definition produce_block :: "node_env \<Rightarrow> u64 \<Rightarrow> chain \<Rightarrow> (block \<times> chain) option" where
  "produce_block env timestamp = produce_block_at_view env timestamp 0"

section \<open>Validating a block\<close>

fun decode_all :: "node_env \<Rightarrow> u64 \<Rightarrow> byte list list \<Rightarrow> pending_tx list option" where
  "decode_all env chain_id [] = Some []"
| "decode_all env chain_id (raw # raws) =
     (case decode_pending_tx (ne_decode_2718 env) (ne_abi env) chain_id raw of
        Inr p \<Rightarrow> map_option (\<lambda>ps. p # ps) (decode_all env chain_id raws)
      | Inl _ \<Rightarrow> None)"

text \<open>The header checks that read no transaction, in their order; the accepted value is the header hash.\<close>

definition check_header :: "node_env \<Rightarrow> chain \<Rightarrow> block \<Rightarrow> wire_block \<Rightarrow> address option \<Rightarrow> BlockError + hash" where
  "check_header env ch head wb validator_override =
     (if wb_number wb \<noteq> bk_number head + 1 then Inl (NonContiguous (bk_number head) (wb_number wb))
      else if wb_parent_hash wb \<noteq> bk_hash head then Inl WrongParent
      else if wb_timestamp wb \<le> bk_timestamp head then Inl BadTimestamp
      else if wb_view wb \<ge> VIEW_MAX then Inl (ViewOutOfRange (wb_view wb))
      else (case scheduled_proposer (in_state (ch_inner ch)) (wb_number wb) (wb_view wb) validator_override of
         None \<Rightarrow> Inl NoValidatorSet
       | Some expected \<Rightarrow>
           if wb_proposer wb \<noteq> expected then Inl WrongProposer
           else
             let claimed_hash = compute_hash (ne_keccak256 env) (wb_number wb) (wb_parent_hash wb) (wb_timestamp wb)
                   (wb_view wb) (wb_txs_root wb) (wb_state_root wb) (wb_proposer wb)
             in if recover_proposer env claimed_hash (wb_proposer_sig wb) = Some (wb_proposer wb)
                then Inr claimed_hash else Inl BadBlockSignature))"

text \<open>A follower drops what has been mined and what is stale.\<close>

definition prune_mempool :: "block \<Rightarrow> inner \<Rightarrow> inner" where
  "prune_mempool b g =
     (let mined = map sx_hash (bk_txs b)
      in g\<lparr>in_mempool := filter (\<lambda>p.
           \<not> (pt_hash p \<in> set mined \<or>
              pt_nonce p < (case get (in_state g) (pt_from p) of Some acc \<Rightarrow> acc_nonce acc | None \<Rightarrow> 0)))
           (in_mempool g)\<rparr>)"

definition validate_and_apply_block ::
    "node_env \<Rightarrow> wire_block \<Rightarrow> address option \<Rightarrow> chain \<Rightarrow> ((BlockError + block) \<times> chain) option" where
  "validate_and_apply_block env wb validator_override ch =
     Option.bind (ensure_epoch_validators_seeded ch) (\<lambda>ch.
       Option.bind (latest_block (ch_inner ch)) (\<lambda>head.
         case check_header env ch head wb validator_override of
           Inl e \<Rightarrow> Some (Inl e, ch)
         | Inr claimed_hash \<Rightarrow>
             (case decode_all env (ch_chain_id ch) (wb_raw_txs wb) of
                None \<Rightarrow> Some (Inl UndecodableTx, ch)
              | Some pending \<Rightarrow>
                  let backup = ch_inner ch
                  in Option.bind (execute_block env pending (wb_timestamp wb) (wb_view wb)
                         (Some (wb_proposer wb, wb_proposer_sig wb)) ch) (\<lambda>(produced, ch).
                       if bk_state_root produced \<noteq> wb_state_root wb \<or> bk_txs_root produced \<noteq> wb_txs_root wb
                          \<or> bk_hash produced \<noteq> claimed_hash
                       then Some (Inl (StateRootMismatch (wb_state_root wb) (bk_state_root produced)),
                              ch\<lparr>ch_inner := backup\<rparr>)
                       else Some (Inr produced, ch\<lparr>ch_inner := prune_mempool produced (ch_inner ch)\<rparr>)))))"

section \<open>The mempool\<close>

definition pending_of :: "inner \<Rightarrow> address \<Rightarrow> pending_tx list" where
  "pending_of g a = filter (\<lambda>p. pt_from p = a) (in_mempool g)"

definition committed_debit :: "pending_tx list \<Rightarrow> u128" where
  "committed_debit ps = foldl (\<lambda>acc p. sat_add128 acc (spendable_debit (pt_value p) (pt_kind p))) 0 ps"

definition mempool_gate :: "inner \<Rightarrow> u64 \<Rightarrow> pending_tx \<Rightarrow> rpc_error option" where
  "mempool_gate g now p =
     (let acct = get_or_new (in_state g) (pt_from p);
          settled = acc_balance acct now;
          sender_pending = length (pending_of g (pt_from p));
          expected_nonce = (acc_nonce acct + sender_pending) mod 2 ^ 64;
          pending_committed = committed_debit (pending_of g (pt_from p));
          need = sat_add128 pending_committed (spendable_debit (pt_value p) (pt_kind p))
      in if length (in_mempool g) \<ge> MEMPOOL_MAX_TXS
         then Some (invalid_params (''mempool full: at global cap of '' @ decimal MEMPOOL_MAX_TXS @ '' txs''))
         else if sender_pending \<ge> MEMPOOL_MAX_PER_SENDER
         then Some (invalid_params (''mempool full for sender: at per-sender cap of ''
                @ decimal MEMPOOL_MAX_PER_SENDER @ '' txs''))
         else if pt_nonce p \<noteq> expected_nonce
         then Some (invalid_params (''nonce too '' @ (if pt_nonce p < expected_nonce then ''low'' else ''high'')
                @ '': expected '' @ decimal expected_nonce @ '', got '' @ decimal (pt_nonce p)))
         else if settled < need
         then Some (invalid_params (''insufficient ''
                @ (case pt_kind p of POpenStream _ _ _ \<Rightarrow> ''balance for deposit'' | _ \<Rightarrow> ''balance'')
                @ '': have '' @ decimal settled @ '', need '' @ decimal need
                @ (if pending_committed > 0
                   then '' (incl. '' @ decimal pending_committed @ '' already pending from this sender)'' else [])))
         else None)"

definition ingest_raw_tx :: "node_env \<Rightarrow> u64 \<Rightarrow> byte list \<Rightarrow> chain \<Rightarrow> (rpc_error + hash) \<times> chain" where
  "ingest_raw_tx env now raw ch =
     (case decode_pending_tx (ne_decode_2718 env) (ne_abi env) (ch_chain_id ch) raw of
        Inl e \<Rightarrow> (Inl e, ch)
      | Inr p \<Rightarrow>
          let g = ch_inner ch in
          (case mempool_gate g now p of
             Some e \<Rightarrow> (Inl e, ch)
           | None \<Rightarrow>
               (Inr (pt_hash p),
                ch\<lparr>ch_inner := g\<lparr>in_raw_tx := fmupd (pt_hash p) raw (in_raw_tx g),
                                   in_mempool := in_mempool g @ [p]\<rparr>\<rparr>)))"

end
