(* ===== verification/Fork_Choice.thy ===== *)
theory Fork_Choice
  imports Chain_Node
begin

text \<open>
  Fork choice and reorganisation (\<^verbatim>\<open>fork_choice_prefers\<close>, \<^verbatim>\<open>assemble_fork_branch\<close>,
  \<^verbatim>\<open>consider_competing_block\<close> and what they call in \<^verbatim>\<open>crates/rpc/src/lib.rs\<close>). A tip is compared by
  height, then lower view, then lower hash. A valid block off the canonical chain is retained in a bounded
  store; the best complete branch of retained blocks that beats the tip and does not reach below the
  finalised height is re-executed in place of the losing suffix.
\<close>

section \<open>Fork choice\<close>

type_synonym tip_key = "u64 \<times> u32 \<times> hash"

definition fork_choice_prefers :: "tip_key \<Rightarrow> tip_key \<Rightarrow> bool" where
  "fork_choice_prefers a b =
     (let (ah, av, ahash) = a; (bh, bv, bhash) = b in
      if ah > bh then True
      else if ah < bh then False
      else if av < bv then True
      else if av > bv then False
      else ahash < bhash)"

definition tip_key_of :: "fork_block_entry \<Rightarrow> tip_key" where
  "tip_key_of e = (wb_number e, wb_view e, fb_hash e)"

section \<open>Branches\<close>

text \<open>
  The walk from a tip to the canonical chain. \<open>guard\<close> is the number of rounds left: the source gives
  up after \<open>(FINALITY_DEPTH + 2) * 8\<close>. The inner result is \<open>None\<close> for a branch that is incomplete, has a gap
  or reaches below the finalised height.
\<close>

fun assemble_loop ::
    "nat \<Rightarrow> fork_block_entry \<Rightarrow> fork_block_entry list \<Rightarrow> (hash, fork_block_entry) fmap \<Rightarrow> inner \<Rightarrow> u64
      \<Rightarrow> (fork_block_entry list \<times> u64) option option" where
  "assemble_loop 0 cur acc fm g finalized = Some None"
| "assemble_loop (Suc guard) cur acc fm g finalized =
     (case fmlookup (in_blocks_by_hash g) (wb_parent_hash cur) of
        Some idx \<Rightarrow>
          if idx \<ge> length (in_blocks g) then None
          else
            let ca_number = bk_number (in_blocks g ! idx) in
            if wb_number cur \<noteq> ca_number + 1 then Some None
            else if ca_number < finalized then Some None
            else Some (Some (rev (acc @ [cur]), ca_number))
      | None \<Rightarrow>
          (case fmlookup fm (wb_parent_hash cur) of
             Some parent \<Rightarrow>
               if wb_number cur \<noteq> wb_number parent + 1 then Some None
               else assemble_loop guard parent (acc @ [cur]) fm g finalized
           | None \<Rightarrow> Some None))"

definition assemble_fork_branch ::
    "fork_block_entry \<Rightarrow> (hash, fork_block_entry) fmap \<Rightarrow> inner \<Rightarrow> u64 \<Rightarrow> (fork_block_entry list \<times> u64) option option" where
  "assemble_fork_branch t fm g finalized = assemble_loop ((FINALITY_DEPTH + 2) * 8) t [] fm g finalized"

record reorg_candidate =
  rc_branch :: "fork_block_entry list"
  rc_ca_height :: u64
  rc_tip :: tip_key

text \<open>One round of the search for the best branch, and the search in the order the entries come.\<close>

definition better_branch ::
    "(hash, fork_block_entry) fmap \<Rightarrow> inner \<Rightarrow> tip_key \<Rightarrow> u64 \<Rightarrow> fork_block_entry \<Rightarrow> reorg_candidate option
      \<Rightarrow> reorg_candidate option option" where
  "better_branch fm g current_tip finalized e best =
     (let key = tip_key_of e in
      if \<not> fork_choice_prefers key current_tip then Some best
      else
        (case assemble_fork_branch e fm g finalized of
           None \<Rightarrow> None
         | Some None \<Rightarrow> Some best
         | Some (Some (branch, ca_height)) \<Rightarrow>
             Some (if (case best of Some b \<Rightarrow> fork_choice_prefers key (rc_tip b) | None \<Rightarrow> True)
                   then Some \<lparr>rc_branch = branch, rc_ca_height = ca_height, rc_tip = key\<rparr>
                   else best)))"

fun best_branch ::
    "(hash, fork_block_entry) fmap \<Rightarrow> inner \<Rightarrow> tip_key \<Rightarrow> u64 \<Rightarrow> fork_block_entry list \<Rightarrow> reorg_candidate option
      \<Rightarrow> reorg_candidate option option" where
  "best_branch fm g current_tip finalized [] best = Some best"
| "best_branch fm g current_tip finalized (e # es) best =
     Option.bind (better_branch fm g current_tip finalized e best)
       (\<lambda>best. best_branch fm g current_tip finalized es best)"

section \<open>The store of fork blocks\<close>

definition evict_lowest :: "(hash, fork_block_entry) fmap \<Rightarrow> (hash, fork_block_entry) fmap" where
  "evict_lowest store =
     (if size (fmdom store) > MAX_FORK_STORE then
        let by_height = sort (map (\<lambda>h. (wb_number (the (fmlookup store h)), h)) (sorted_list_of_fset (fmdom store)));
            excess = size (fmdom store) - MAX_FORK_STORE
        in fold (\<lambda>x. fmdrop (snd x)) (take excess by_height) store
      else store)"

definition store_fork_block :: "fork_block_entry \<Rightarrow> u64 \<Rightarrow> (hash, fork_block_entry) fmap \<Rightarrow> (hash, fork_block_entry) fmap" where
  "store_fork_block entry finalized store =
     (let store = fmupd (fb_hash entry) entry store;
          store = fmfilter (\<lambda>h. wb_number (the (fmlookup store h)) > finalized) store
      in evict_lowest store)"

section \<open>Reorganisation\<close>

definition displaced_entry :: "inner \<Rightarrow> block \<Rightarrow> fork_block_entry" where
  "displaced_entry g b =
     \<lparr>wb_number = bk_number b, wb_parent_hash = bk_parent_hash b, wb_timestamp = bk_timestamp b,
      wb_view = bk_view b, wb_txs_root = bk_txs_root b, wb_state_root = bk_state_root b,
      wb_proposer = bk_proposer b, wb_proposer_sig = bk_proposer_sig b, wb_raw_txs = raw_txs_of g b,
      fb_hash = bk_hash b\<rparr>"

definition unindex_block :: "block \<Rightarrow> inner \<Rightarrow> inner" where
  "unindex_block b g =
     g\<lparr>in_blocks_by_hash := fmdrop (bk_hash b) (in_blocks_by_hash g),
       in_txs := fold (\<lambda>tx. fmdrop (sx_hash tx)) (bk_txs b) (in_txs g)\<rparr>"

definition truncate_chain :: "u64 \<Rightarrow> mem_state \<Rightarrow> inner \<Rightarrow> fork_block_entry list \<times> inner" where
  "truncate_chain ca_height ca_state g =
     (let cut = ca_height + 1;
          old_suffix = drop cut (in_blocks g);
          g = g\<lparr>in_blocks := take cut (in_blocks g)\<rparr>;
          displaced = map (displaced_entry g) old_suffix;
          g = fold unindex_block old_suffix g
      in (displaced, g\<lparr>in_state := ca_state\<rparr>))"

fun apply_branch ::
    "node_env \<Rightarrow> address option \<Rightarrow> fork_block_entry list \<Rightarrow> chain \<Rightarrow> (BlockError option \<times> chain) option" where
  "apply_branch env validator_override [] ch = Some (None, ch)"
| "apply_branch env validator_override (fb # fbs) ch =
     (case validate_and_apply_block env (wire_block.truncate fb) validator_override ch of
        None \<Rightarrow> None
      | Some (Inl e, ch) \<Rightarrow> Some (Some e, ch)
      | Some (Inr _, ch) \<Rightarrow>
          apply_branch env validator_override fbs (cache_raw_txs (ne_keccak256 env) (wb_raw_txs fb) ch))"

definition settle_store ::
    "fork_block_entry list \<Rightarrow> fork_block_entry list \<Rightarrow> u64 \<Rightarrow> (hash, fork_block_entry) fmap \<Rightarrow> (hash, fork_block_entry) fmap" where
  "settle_store branch displaced finalized store =
     (let store = fold (\<lambda>fb. fmdrop (fb_hash fb)) branch store;
          store = fold (\<lambda>d m. if wb_number d > finalized then fmupd (fb_hash d) d m else m) displaced store
      in fmfilter (\<lambda>h. wb_number (the (fmlookup store h)) > finalized) store)"

definition execute_reorg ::
    "node_env \<Rightarrow> fork_block_entry list \<Rightarrow> u64 \<Rightarrow> address option \<Rightarrow> chain \<Rightarrow> ((BlockError + block option) \<times> chain) option" where
  "execute_reorg env branch ca_height validator_override ch =
     (case fmlookup (ch_recent_states ch) ca_height of
        None \<Rightarrow> Some (Inr None, ch)
      | Some ca_state \<Rightarrow>
          let inner_backup = ch_inner ch;
              rs_backup = ch_recent_states ch;
              (displaced, g) = truncate_chain ca_height ca_state (ch_inner ch)
          in (case apply_branch env validator_override branch (ch\<lparr>ch_inner := g\<rparr>) of
                None \<Rightarrow> None
              | Some (Some e, ch) \<Rightarrow>
                  Some (Inl e, ch\<lparr>ch_inner := inner_backup, ch_recent_states := rs_backup\<rparr>)
              | Some (None, ch) \<Rightarrow>
                  Option.bind (latest_block (ch_inner ch)) (\<lambda>head.
                    Some (Inr (Some head),
                      ch\<lparr>ch_fork_store :=
                           settle_store branch displaced (bk_number head - FINALITY_DEPTH) (ch_fork_store ch)\<rparr>))))"

definition maybe_reorg_to_best_branch ::
    "node_env \<Rightarrow> tip_key \<Rightarrow> u64 \<Rightarrow> address option \<Rightarrow> chain \<Rightarrow> ((BlockError + block option) \<times> chain) option" where
  "maybe_reorg_to_best_branch env current_tip finalized validator_override ch =
     (let fm = ch_fork_store ch in
      if fmdom fm = {||} then Some (Inr None, ch)
      else Option.bind (best_branch fm (ch_inner ch) current_tip finalized (fm_values fm) None) (\<lambda>best.
        case best of
          None \<Rightarrow> Some (Inr None, ch)
        | Some c \<Rightarrow> execute_reorg env (rc_branch c) (rc_ca_height c) validator_override ch))"

definition consider_competing_block ::
    "node_env \<Rightarrow> wire_block \<Rightarrow> address option \<Rightarrow> chain \<Rightarrow> ((BlockError + block option) \<times> chain) option" where
  "consider_competing_block env wb validator_override ch =
     Option.bind (ensure_epoch_validators_seeded ch) (\<lambda>ch.
       if wb_view wb \<ge> VIEW_MAX then Some (Inl (ViewOutOfRange (wb_view wb)), ch)
       else
         let h = compute_hash (ne_keccak256 env) (wb_number wb) (wb_parent_hash wb) (wb_timestamp wb) (wb_view wb)
               (wb_txs_root wb) (wb_state_root wb) (wb_proposer wb)
         in if recover_proposer env h (wb_proposer_sig wb) \<noteq> Some (wb_proposer wb)
            then Some (Inl BadBlockSignature, ch)
            else Option.bind (latest_block (ch_inner ch)) (\<lambda>head.
              let finalized = bk_number head - FINALITY_DEPTH;
                  current_tip = (bk_number head, bk_view head, bk_hash head)
              in if knows_block ch h \<or> h = bk_hash head then Some (Inr None, ch)
                 else if wb_number wb \<le> finalized then Some (Inr None, ch)
                 else
                   let entry = wire_block.extend wb (fork_block_entry.fields h);
                       ch = ch\<lparr>ch_fork_store := store_fork_block entry finalized (ch_fork_store ch)\<rparr>
                   in maybe_reorg_to_best_branch env current_tip finalized validator_override ch))"

end
