(* ===== verification/Chain_Invariant.thy ===== *)
theory Chain_Invariant
  imports Fork_Choice
begin

text \<open>
  The invariant of the node's chain. The canonical blocks form a chain of numbered, hashed and linked
  headers; the state is the replay of those blocks from the genesis state, and so is every remembered
  state below the head; every retained fork block is stored under its own hash. The lemmas show that
  execution refines the shared kernel, and that production, validation and reorganisation keep the invariant.
\<close>

section \<open>Execution refines the kernel\<close>

definition inner_frame :: "inner \<Rightarrow> inner \<Rightarrow> bool" where
  "inner_frame g g' \<longleftrightarrow> in_blocks g' = in_blocks g \<and> in_blocks_by_hash g' = in_blocks_by_hash g
     \<and> in_mempool g' = in_mempool g \<and> in_raw_tx g' = in_raw_tx g"

lemma inner_frame_refl [simp]: "inner_frame g g"
  by (simp add: inner_frame_def)

lemma inner_frame_trans [trans]: "inner_frame g g' \<Longrightarrow> inner_frame g' g'' \<Longrightarrow> inner_frame g g''"
  by (simp add: inner_frame_def)

lemma exec_tx_cases:
  assumes "exec_tx env ctx i g p = Some (tx, g')"
  shows "inner_frame g g'"
    and "\<exists>out. apply_tx env ctx (in_state g) (kernel_tx_from_pending p) = Some (out, in_state g')
      \<and> (out = None \<longleftrightarrow> tx = None) \<and> (\<forall>x. tx = Some x \<longrightarrow> sx_hash x = pt_hash p)"
    and "in_state h = in_state g \<Longrightarrow> \<exists>h'. exec_tx env ctx i h p = Some (tx, h') \<and> in_state h' = in_state g'"
  using assms
  by (auto simp: exec_tx_def Let_def inner_frame_def stored_of_def split: option.splits)

lemma exec_txs_frame: "exec_txs env ctx i g ps = Some (stored, g') \<Longrightarrow> inner_frame g g'"
proof (induction ps arbitrary: i g stored)
  case (Cons p ps)
  from Cons.prems obtain tx g1 st where "exec_tx env ctx i g p = Some (tx, g1)"
      "exec_txs env ctx (i + 1) g1 ps = Some (st, g')"
    by (auto split: option.splits)
  then show ?case using Cons.IH exec_tx_cases(1) inner_frame_trans by blast
qed simp

lemma exec_txs_cong:
  assumes "exec_txs env ctx i g ps = Some (stored, g')" "in_state h = in_state g"
  shows "\<exists>h'. exec_txs env ctx i h ps = Some (stored, h') \<and> in_state h' = in_state g'"
  using assms
proof (induction ps arbitrary: i g h stored)
  case (Cons p ps)
  from Cons.prems obtain tx g1 st where 1: "exec_tx env ctx i g p = Some (tx, g1)"
      and 2: "exec_txs env ctx (i + 1) g1 ps = Some (st, g')" and "stored = opt_list tx @ st"
    by (auto split: option.splits)
  moreover from exec_tx_cases(3) [OF 1 Cons.prems(2)] obtain h1
    where "exec_tx env ctx i h p = Some (tx, h1)" "in_state h1 = in_state g1" by auto
  moreover then obtain h' where "exec_txs env ctx (i + 1) h1 ps = Some (st, h')" "in_state h' = in_state g'"
    using Cons.IH [OF 2] by auto
  ultimately show ?case by auto
qed auto

lemma exec_txs_kernel:
  "map_option (\<lambda>(stored, g'). in_state g') (exec_txs env ctx i g ps)
   = map_option snd (apply_txs env ctx (in_state g) (map kernel_tx_from_pending ps))"
proof (induction ps arbitrary: i g)
  case (Cons p ps)
  show ?case
  proof (cases "exec_tx env ctx i g p")
    case None
    then show ?thesis by (auto simp: exec_tx_def Let_def split: option.splits prod.splits)
  next
    case (Some r)
    then obtain tx g1 where r: "exec_tx env ctx i g p = Some (tx, g1)" by (cases r) auto
    from exec_tx_cases(2) [OF this] obtain out
      where "apply_tx env ctx (in_state g) (kernel_tx_from_pending p) = Some (out, in_state g1)" by blast
    with r show ?thesis using Cons.IH [of "i + 1" g1]
      by (simp add: option.map_comp comp_def case_prod_beta)
  qed
qed simp

lemma exec_sweeps_kernel:
  assumes "exec_sweeps env ctx stored g = (stored', g')"
  shows "in_state g' = run_sweeps env ctx (in_state g)" "inner_frame g g'"
    "stored' = stored \<or> (\<exists>tx. stored' = stored @ [tx])"
    and "in_state h = in_state g \<Longrightarrow> \<exists>h'. exec_sweeps env ctx stored h = (stored', h') \<and> in_state h' = in_state g'"
proof -
  let ?s = "snd (rpc_sweep_sybil_scan env (in_state g) (bc_block_hash ctx) (bc_number ctx))"
  have "in_state g' = snd (rpc_sweep_finalize (ke_keccak256 env) ?s (bc_number ctx) (bc_timestamp ctx))"
    using assms by (auto simp: exec_sweeps_def Let_def split: prod.splits if_splits)
  then show "in_state g' = run_sweeps env ctx (in_state g)"
    by (simp add: run_sweeps_def rpc_sweep_finalize_state rpc_sweep_scan_state)
qed (insert assms, auto simp: exec_sweeps_def Let_def inner_frame_def split: prod.splits if_splits)

section \<open>One block as a state transition\<close>

definition block_ctx_of :: "keccak \<Rightarrow> block \<Rightarrow> u64 \<Rightarrow> u32 \<Rightarrow> block_ctx" where
  "block_ctx_of kec parent timestamp view =
     \<lparr>bc_timestamp = timestamp, bc_number = bk_number parent + 1,
      bc_block_hash = compute_hash kec (bk_number parent + 1) (bk_hash parent) timestamp view 0 0 0\<rparr>"

definition replay_block :: "kernel_env \<Rightarrow> block \<Rightarrow> u64 \<Rightarrow> u32 \<Rightarrow> kernel_tx list \<Rightarrow> mem_state \<Rightarrow> mem_state option" where
  "replay_block env parent timestamp view txs s =
     map_option snd (apply_ops env (block_ctx_of (ke_keccak256 env) parent timestamp view)
       (fst (open_epoch (bk_number parent + 1) s None)) txs)"

lemma open_epoch_state: "fst (open_epoch n s a) = fst (open_epoch n s None)"
  by (simp add: open_epoch_def Let_def)

definition header_hash :: "keccak \<Rightarrow> 'a wire_block_scheme \<Rightarrow> hash" where
  "header_hash kec wb = compute_hash kec (wb_number wb) (wb_parent_hash wb) (wb_timestamp wb) (wb_view wb)
     (wb_txs_root wb) (wb_state_root wb) (wb_proposer wb)"

definition block_header_hash :: "keccak \<Rightarrow> block \<Rightarrow> hash" where
  "block_header_hash kec b = compute_hash kec (bk_number b) (bk_parent_hash b) (bk_timestamp b) (bk_view b)
     (bk_txs_root b) (bk_state_root b) (bk_proposer b)"

lemma build_block_fields:
  fixes kec parent ts view n key po stored s
  defines "b \<equiv> build_block kec parent ts view n key po stored s"
  shows "bk_number b = bk_number parent + 1" "bk_parent_hash b = bk_hash parent" "bk_timestamp b = ts" "bk_view b = view"
    "bk_state_root b = state_root s" "bk_hash b = block_header_hash kec b"
    "bk_txs_root b = compute_txs_root kec (take n stored)"
    "map sx_hash (bk_txs b) = map sx_hash stored"
  by (simp_all add: b_def build_block_def Let_def case_prod_beta block_header_hash_def seal_header_def comp_def
      min_def split: option.split)

lemma execute_block_parts:
  fixes env ch parent ts view
  defines "ctx \<equiv> block_ctx_of (ne_keccak256 env) parent ts view"
  assumes "execute_block env pending ts view po ch = Some (b, ch')" "latest_block (ch_inner ch) = Some parent"
  obtains stored g1 stored' g2 where
    "exec_txs (ne_kernel env) ctx 0
       ((ch_inner ch)\<lparr>in_state := fst (open_epoch (bk_number parent + 1) (in_state (ch_inner ch)) None)\<rparr>) pending
     = Some (stored, g1)"
    "exec_sweeps (ne_kernel env) ctx stored g1 = (stored', g2)"
    "b = build_block (ne_keccak256 env) parent ts view (length pending) (ch_proposer_key ch) po stored' (in_state g2)"
    "ch' = ch\<lparr>ch_inner := append_block b g2,
       ch_recent_states := remember_state (bk_number parent + 1) (in_state (ch_inner ch)) (ch_recent_states ch),
       ch_genesis_anchor := snd (open_epoch (bk_number parent + 1) (in_state (ch_inner ch)) (ch_genesis_anchor ch))\<rparr>"
proof -
  let ?e = "open_epoch (bk_number parent + 1) (in_state (ch_inner ch)) (ch_genesis_anchor ch)"
  from assms(2,3) obtain st where st: "exec_txs (ne_kernel env) ctx 0 ((ch_inner ch)\<lparr>in_state := fst ?e\<rparr>) pending = Some st"
    by (cases ?e) (auto simp: execute_block_def Let_def ctx_def block_ctx_of_def bind_eq_Some_conv)
  then show ?thesis
    using assms(2,3) that [of "fst st" "snd st"] open_epoch_state [of _ _ "ch_genesis_anchor ch"]
    by (cases ?e; cases st; cases "exec_sweeps (ne_kernel env) ctx (fst st) (snd st)")
       (simp add: execute_block_def Let_def ctx_def block_ctx_of_def)
qed

lemma execute_block_cases:
  assumes "execute_block env pending ts view po ch = Some (b, ch')" "latest_block (ch_inner ch) = Some parent"
  shows "replay_block (ne_kernel env) parent ts view (map kernel_tx_from_pending pending) (in_state (ch_inner ch))
      = Some (in_state (ch_inner ch'))" (is ?replay)
    and "bk_number b = bk_number parent + 1" "bk_parent_hash b = bk_hash parent" "bk_timestamp b = ts" "bk_view b = view"
    and "bk_state_root b = state_root (in_state (ch_inner ch'))"
    and "bk_hash b = block_header_hash (ne_keccak256 env) b"
    and "in_blocks (ch_inner ch') = in_blocks (ch_inner ch) @ [b]"
    and "in_blocks_by_hash (ch_inner ch') = fmupd (bk_hash b) (length (in_blocks (ch_inner ch))) (in_blocks_by_hash (ch_inner ch))"
    and "in_mempool (ch_inner ch') = in_mempool (ch_inner ch)" "in_raw_tx (ch_inner ch') = in_raw_tx (ch_inner ch)"
    and "ch_recent_states ch' = remember_state (bk_number parent + 1) (in_state (ch_inner ch)) (ch_recent_states ch)"
    and "ch_fork_store ch' = ch_fork_store ch" "ch_chain_id ch' = ch_chain_id ch" "ch_proposer_key ch' = ch_proposer_key ch"
proof -
  let ?g = "(ch_inner ch)\<lparr>in_state := fst (open_epoch (bk_number parent + 1) (in_state (ch_inner ch)) None)\<rparr>"
  let ?ctx = "block_ctx_of (ne_keccak256 env) parent ts view"
  obtain stored g1 stored' g2 where
    txs: "exec_txs (ne_kernel env) ?ctx 0 ?g pending = Some (stored, g1)" and
    sweeps: "exec_sweeps (ne_kernel env) ?ctx stored g1 = (stored', g2)" and
    b: "b = build_block (ne_keccak256 env) parent ts view (length pending) (ch_proposer_key ch) po stored' (in_state g2)" and
    ch': "ch' = ch\<lparr>ch_inner := append_block b g2,
       ch_recent_states := remember_state (bk_number parent + 1) (in_state (ch_inner ch)) (ch_recent_states ch),
       ch_genesis_anchor := snd (open_epoch (bk_number parent + 1) (in_state (ch_inner ch)) (ch_genesis_anchor ch))\<rparr>"
    by (rule execute_block_parts [OF assms])
  note fields = build_block_fields [of "ne_keccak256 env" parent ts view "length pending" "ch_proposer_key ch" po
      stored' "in_state g2", folded b]
  have frame: "inner_frame ?g g2"
    using exec_txs_frame [OF txs] exec_sweeps_kernel(2) [OF sweeps] by (rule inner_frame_trans)
  have "map_option snd (apply_txs (ne_kernel env) ?ctx (in_state ?g) (map kernel_tx_from_pending pending)) = Some (in_state g1)"
    using exec_txs_kernel [of "ne_kernel env" ?ctx 0 ?g pending] txs by simp
  then show ?replay
    using exec_sweeps_kernel(1) [OF sweeps] ch' by (auto simp: replay_block_def apply_ops_def append_block_def)
  show "bk_number b = bk_number parent + 1" "bk_parent_hash b = bk_hash parent" "bk_timestamp b = ts" "bk_view b = view"
    "bk_hash b = block_header_hash (ne_keccak256 env) b" by (fact fields)+
  show "bk_state_root b = state_root (in_state (ch_inner ch'))" using fields(5) ch' by (simp add: append_block_def)
  show "in_blocks (ch_inner ch') = in_blocks (ch_inner ch) @ [b]"
    "in_blocks_by_hash (ch_inner ch') = fmupd (bk_hash b) (length (in_blocks (ch_inner ch))) (in_blocks_by_hash (ch_inner ch))"
    "in_mempool (ch_inner ch') = in_mempool (ch_inner ch)" "in_raw_tx (ch_inner ch') = in_raw_tx (ch_inner ch)"
    "ch_recent_states ch' = remember_state (bk_number parent + 1) (in_state (ch_inner ch)) (ch_recent_states ch)"
    "ch_fork_store ch' = ch_fork_store ch" "ch_chain_id ch' = ch_chain_id ch" "ch_proposer_key ch' = ch_proposer_key ch"
    using ch' frame by (simp_all add: inner_frame_def append_block_def)
qed

section \<open>The invariant\<close>

definition linked :: "keccak \<Rightarrow> block list \<Rightarrow> bool" where
  "linked kec bs \<longleftrightarrow> bs \<noteq> []
     \<and> (\<forall>i < length bs. bk_number (bs ! i) = i \<and> bk_hash (bs ! i) = block_header_hash kec (bs ! i))
     \<and> (\<forall>i. Suc i < length bs \<longrightarrow> bk_parent_hash (bs ! Suc i) = bk_hash (bs ! i))"

definition indexed :: "inner \<Rightarrow> bool" where
  "indexed g \<longleftrightarrow> (\<forall>h i. fmlookup (in_blocks_by_hash g) h = Some i \<longrightarrow>
     i < length (in_blocks g) \<and> bk_hash (in_blocks g ! i) = h)"

definition rooted :: "inner \<Rightarrow> bool" where
  "rooted g \<longleftrightarrow> (bk_number (List.last (in_blocks g)) \<noteq> 0 \<longrightarrow>
     bk_state_root (List.last (in_blocks g)) = state_root (in_state g))"

definition store_ok :: "keccak \<Rightarrow> (hash, fork_block_entry) fmap \<Rightarrow> bool" where
  "store_ok kec m \<longleftrightarrow> (\<forall>h e. fmlookup m h = Some e \<longrightarrow> fb_hash e = h \<and> header_hash kec e = h)"

definition inner_ok :: "keccak \<Rightarrow> inner \<Rightarrow> bool" where
  "inner_ok kec g \<longleftrightarrow> linked kec (in_blocks g) \<and> indexed g \<and> rooted g"

definition node_ok :: "node_env \<Rightarrow> chain \<Rightarrow> bool" where
  "node_ok env ch \<longleftrightarrow> inner_ok (ne_keccak256 env) (ch_inner ch)
     \<and> store_ok (ne_keccak256 env) (ch_fork_store ch) \<and> size (fmdom (ch_fork_store ch)) \<le> MAX_FORK_STORE"

lemma latest_block_linked:
  assumes "linked kec (in_blocks g)"
  shows "latest_block g = Some (List.last (in_blocks g))" "bk_number (List.last (in_blocks g)) = length (in_blocks g) - 1"
  using assms by (auto simp: latest_block_def linked_def last_conv_nth)

lemma linked_snoc:
  assumes "linked kec bs" "bk_number b = length bs" "bk_parent_hash b = bk_hash (List.last bs)" "bk_hash b = block_header_hash kec b"
  shows "linked kec (bs @ [b])"
proof -
  have "i = length bs - Suc 0" if "Suc i = length bs" for i using that by simp
  then show ?thesis using assms by (auto simp: linked_def nth_append last_conv_nth less_Suc_eq)
qed

lemma linked_take: "linked kec bs \<Longrightarrow> linked kec (take (Suc n) bs)"
  by (auto simp: linked_def)

lemma inner_ok_extend:
  assumes "inner_ok kec g" "in_blocks g' = in_blocks g @ [b]"
    "in_blocks_by_hash g' = fmupd (bk_hash b) (length (in_blocks g)) (in_blocks_by_hash g)"
    "bk_number b = length (in_blocks g)" "bk_parent_hash b = bk_hash (List.last (in_blocks g))"
    "bk_hash b = block_header_hash kec b" "bk_state_root b = state_root (in_state g')"
  shows "inner_ok kec g'"
  using assms linked_snoc [of kec "in_blocks g" b]
  by (auto simp: inner_ok_def indexed_def rooted_def nth_append intro: less_SucI split: if_splits)

lemma inner_ok_cong:
  assumes "in_blocks g' = in_blocks g" "in_blocks_by_hash g' = in_blocks_by_hash g" "in_state g' = in_state g"
  shows "inner_ok kec g' = inner_ok kec g"
  using assms by (simp add: inner_ok_def indexed_def rooted_def)

lemma chain_new_ok: "node_ok env (ch\<lparr>ch_inner := (ch_inner ch)\<lparr>in_state := s\<rparr>\<rparr>)" if "ch = chain_new (ne_keccak256 env) cid t"
  by (simp add: that node_ok_def inner_ok_def linked_def indexed_def rooted_def store_ok_def chain_new_def Let_def
      block_header_hash_def size_fset_overloaded_def size_fset_def)

lemma ensure_seeded:
  assumes "ensure_epoch_validators_seeded ch = Some ch'"
  shows "in_blocks (ch_inner ch') = in_blocks (ch_inner ch)"
    "in_blocks_by_hash (ch_inner ch') = in_blocks_by_hash (ch_inner ch)"
    "in_mempool (ch_inner ch') = in_mempool (ch_inner ch)" "in_raw_tx (ch_inner ch') = in_raw_tx (ch_inner ch)"
    "ch_fork_store ch' = ch_fork_store ch" "ch_recent_states ch' = ch_recent_states ch"
    "ch_chain_id ch' = ch_chain_id ch" "ch_proposer_key ch' = ch_proposer_key ch"
    and "bk_number (List.last (in_blocks (ch_inner ch))) \<noteq> 0 \<Longrightarrow> ch' = ch"
    and "node_ok env ch \<Longrightarrow> node_ok env ch'"
  using assms
  by (auto simp: ensure_epoch_validators_seeded_def Let_def latest_block_def node_ok_def inner_ok_def indexed_def
      rooted_def split: if_splits)

lemma ensure_seeded_total: "node_ok env ch \<Longrightarrow> \<exists>ch'. ensure_epoch_validators_seeded ch = Some ch'"
  using latest_block_linked(1) [of "ne_keccak256 env" "ch_inner ch"]
  by (simp add: ensure_epoch_validators_seeded_def Let_def node_ok_def inner_ok_def)

lemma execute_block_ok:
  assumes "node_ok env ch" "execute_block env pending ts view po ch = Some (b, ch')"
  shows "node_ok env ch'"
proof -
  let ?g = "ch_inner ch"
  have lk: "linked (ne_keccak256 env) (in_blocks ?g)" and len: "in_blocks ?g \<noteq> []"
    using assms(1) by (auto simp: node_ok_def inner_ok_def linked_def)
  note head = latest_block_linked [OF lk]
  note e = execute_block_cases [OF assms(2) head(1)]
  have "inner_ok (ne_keccak256 env) (ch_inner ch')"
    by (rule inner_ok_extend [OF _ e(8,9) _ e(3,7,6)]) (use assms(1) e(2) head(2) len in \<open>simp_all add: node_ok_def\<close>)
  then show ?thesis using assms(1) e(13) by (simp add: node_ok_def)
qed

section \<open>Validation\<close>

lemma check_header_accepts:
  "check_header env ch head wb ov = Inr h \<longleftrightarrow>
     wb_number wb = bk_number head + 1 \<and> wb_parent_hash wb = bk_hash head \<and> bk_timestamp head < wb_timestamp wb
     \<and> wb_view wb < VIEW_MAX
     \<and> scheduled_proposer (in_state (ch_inner ch)) (wb_number wb) (wb_view wb) ov = Some (wb_proposer wb)
     \<and> h = header_hash (ne_keccak256 env) wb \<and> recover_proposer env h (wb_proposer_sig wb) = Some (wb_proposer wb)"
  by (auto simp: check_header_def header_hash_def Let_def not_le split: option.split)

text \<open>A validated block is either rejected, with the node's chain as it was, or appended as its header says.\<close>

lemma validate_cases:
  assumes "validate_and_apply_block env wb ov ch = Some (r, ch')"
  obtains (rejected) ch0 e where "ensure_epoch_validators_seeded ch = Some ch0" "r = Inl e"
      "ch_inner ch' = ch_inner ch0" "ch_fork_store ch' = ch_fork_store ch"
      "ch_chain_id ch' = ch_chain_id ch" "ch_proposer_key ch' = ch_proposer_key ch"
      "ch_recent_states ch' = ch_recent_states ch
       \<or> (\<exists>head. latest_block (ch_inner ch) = Some head \<and>
            ch_recent_states ch' = remember_state (bk_number head + 1) (in_state (ch_inner ch0)) (ch_recent_states ch))"
  | (applied) ch0 head b ch1 pending where "ensure_epoch_validators_seeded ch = Some ch0" "r = Inr b"
      "latest_block (ch_inner ch) = Some head"
      "check_header env ch0 head wb ov = Inr (bk_hash b)"
      "decode_all env (ch_chain_id ch) (wb_raw_txs wb) = Some pending"
      "execute_block env pending (wb_timestamp wb) (wb_view wb) (Some (wb_proposer wb, wb_proposer_sig wb)) ch0 = Some (b, ch1)"
      "bk_state_root b = wb_state_root wb" "bk_txs_root b = wb_txs_root wb"
      "ch' = ch1\<lparr>ch_inner := prune_mempool b (ch_inner ch1)\<rparr>"
proof -
  from assms obtain ch0 head where ch0: "ensure_epoch_validators_seeded ch = Some ch0"
    and head: "latest_block (ch_inner ch0) = Some head"
    by (auto simp: validate_and_apply_block_def bind_eq_Some_conv)
  note seeded = ensure_seeded [OF ch0]
  have head': "latest_block (ch_inner ch) = Some head" using head seeded(1) by (simp add: latest_block_def split: if_splits)
  show ?thesis
  proof (cases "check_header env ch0 head wb ov")
    case (Inl e)
    then show ?thesis using assms ch0 head seeded by (intro rejected [of ch0 e]) (simp_all add: validate_and_apply_block_def)
  next
    case (Inr h)
    note chk = this
    show ?thesis
    proof (cases "decode_all env (ch_chain_id ch) (wb_raw_txs wb)")
      case None
      then show ?thesis using assms ch0 head chk seeded
        by (intro rejected [of ch0 UndecodableTx]) (simp_all add: validate_and_apply_block_def)
    next
      case (Some pending)
      from assms ch0 head chk Some seeded(7) obtain b ch1 where
        ex: "execute_block env pending (wb_timestamp wb) (wb_view wb) (Some (wb_proposer wb, wb_proposer_sig wb)) ch0
          = Some (b, ch1)"
        by (auto simp: validate_and_apply_block_def bind_eq_Some_conv)
      note e = execute_block_cases [OF ex head]
      show ?thesis
      proof (cases "bk_state_root b \<noteq> wb_state_root wb \<or> bk_txs_root b \<noteq> wb_txs_root wb \<or> bk_hash b \<noteq> h")
        case True
        then show ?thesis using assms ch0 head head' chk Some seeded ex e
          by (intro rejected [of ch0 "StateRootMismatch (wb_state_root wb) (bk_state_root b)"])
             (auto simp: validate_and_apply_block_def)
      next
        case False
        then show ?thesis using assms ch0 head head' chk Some seeded(7) ex
          by (intro applied [of ch0 b head pending ch1]) (simp_all add: validate_and_apply_block_def)
      qed
    qed
  qed
qed

end
