(* ===== verification/Reorg_Invariant.thy ===== *)
theory Reorg_Invariant
  imports Chain_Invariant
begin

text \<open>
  What reorganisation keeps. A branch the walk returns is a gap-free run of retained blocks on a canonical
  block that is not below the finalised height; the search returns a maximal one; re-executing it
  extends the truncated chain by exactly its headers; and the store of fork blocks never outgrows its cap,
  because a winning branch is at least as long as the suffix it displaces.
\<close>

section \<open>Steps that keep the chain\<close>

lemma prune_mempool_inner [simp]:
  "in_blocks (prune_mempool b g) = in_blocks g" "in_blocks_by_hash (prune_mempool b g) = in_blocks_by_hash g"
  "in_state (prune_mempool b g) = in_state g" "in_raw_tx (prune_mempool b g) = in_raw_tx g"
  by (simp_all add: prune_mempool_def Let_def)

lemma cache_raw_txs_chain [simp]:
  "in_blocks (ch_inner (cache_raw_txs k raws ch)) = in_blocks (ch_inner ch)"
  "in_blocks_by_hash (ch_inner (cache_raw_txs k raws ch)) = in_blocks_by_hash (ch_inner ch)"
  "in_state (ch_inner (cache_raw_txs k raws ch)) = in_state (ch_inner ch)"
  "in_mempool (ch_inner (cache_raw_txs k raws ch)) = in_mempool (ch_inner ch)"
  "ch_fork_store (cache_raw_txs k raws ch) = ch_fork_store ch"
  "ch_recent_states (cache_raw_txs k raws ch) = ch_recent_states ch"
  "ch_chain_id (cache_raw_txs k raws ch) = ch_chain_id ch"
  "ch_proposer_key (cache_raw_txs k raws ch) = ch_proposer_key ch"
  by (simp_all add: cache_raw_txs_def Let_def)

lemma node_ok_cong:
  assumes "inner_ok (ne_keccak256 env) (ch_inner ch') = inner_ok (ne_keccak256 env) (ch_inner ch)"
    "ch_fork_store ch' = ch_fork_store ch"
  shows "node_ok env ch' = node_ok env ch"
  using assms by (simp add: node_ok_def)

lemma cache_raw_txs_ok [simp]: "node_ok env (cache_raw_txs k raws ch) = node_ok env ch"
  by (rule node_ok_cong, rule inner_ok_cong) simp_all

definition header_of :: "'a wire_block_scheme \<Rightarrow> block \<Rightarrow> bool" where
  "header_of wb b \<longleftrightarrow> bk_number b = wb_number wb \<and> bk_parent_hash b = wb_parent_hash wb
     \<and> bk_timestamp b = wb_timestamp wb \<and> bk_view b = wb_view wb \<and> bk_txs_root b = wb_txs_root wb
     \<and> bk_state_root b = wb_state_root wb"

lemma validate_ok:
  assumes ok: "node_ok env ch" and r: "validate_and_apply_block env wb ov ch = Some (r, ch')"
  shows "node_ok env ch'" "ch_fork_store ch' = ch_fork_store ch"
    and "case r of Inl e \<Rightarrow> in_blocks (ch_inner ch') = in_blocks (ch_inner ch)
      | Inr b \<Rightarrow> in_blocks (ch_inner ch') = in_blocks (ch_inner ch) @ [b] \<and> header_of wb b
          \<and> bk_hash b = header_hash (ne_keccak256 env) wb"
proof -
  have lk: "linked (ne_keccak256 env) (in_blocks (ch_inner ch))" using ok by (simp add: node_ok_def inner_ok_def)
  have all: "node_ok env ch' \<and> ch_fork_store ch' = ch_fork_store ch
    \<and> (case r of Inl e \<Rightarrow> in_blocks (ch_inner ch') = in_blocks (ch_inner ch)
      | Inr b \<Rightarrow> in_blocks (ch_inner ch') = in_blocks (ch_inner ch) @ [b] \<and> header_of wb b
          \<and> bk_hash b = header_hash (ne_keccak256 env) wb)"
    using r
  proof (cases rule: validate_cases)
    case (rejected ch0 e)
    note seeded = ensure_seeded [OF rejected(1)]
    then show ?thesis using ok rejected by (simp add: node_ok_def)
  next
    case (applied ch0 head b ch1 pending)
    note seeded = ensure_seeded [OF applied(1)]
    have head: "latest_block (ch_inner ch0) = Some head"
      using applied(3) seeded(1) by (simp add: latest_block_def split: if_splits)
    note e = execute_block_cases [OF applied(6) head]
    have "node_ok env ch1" by (rule execute_block_ok [OF seeded(10) [OF ok] applied(6)])
    then have "node_ok env ch'"
      using node_ok_cong [of env ch' ch1] inner_ok_cong [of "ch_inner ch'" "ch_inner ch1"] applied(9) by simp
    then show ?thesis using applied e seeded by (simp add: check_header_accepts header_of_def)
  qed
  show "node_ok env ch'" "ch_fork_store ch' = ch_fork_store ch" using all by auto
  show "case r of Inl e \<Rightarrow> in_blocks (ch_inner ch') = in_blocks (ch_inner ch)
      | Inr b \<Rightarrow> in_blocks (ch_inner ch') = in_blocks (ch_inner ch) @ [b] \<and> header_of wb b
          \<and> bk_hash b = header_hash (ne_keccak256 env) wb" using all by auto
qed

section \<open>Truncation and re-execution\<close>

lemma unindex_fold:
  "in_blocks (fold unindex_block bs g) = in_blocks g"
  "fmlookup (in_blocks_by_hash (fold unindex_block bs g)) h
     = (if h \<in> bk_hash ` set bs then None else fmlookup (in_blocks_by_hash g) h)"
  by (induction bs arbitrary: g) (auto simp: unindex_block_def)

lemma truncate_chain_fields:
  assumes "truncate_chain ca s g = (displaced, g')"
  shows "in_blocks g' = take (Suc ca) (in_blocks g)" "in_state g' = s"
    "displaced = map (displaced_entry (g\<lparr>in_blocks := take (Suc ca) (in_blocks g)\<rparr>)) (drop (Suc ca) (in_blocks g))"
    "fmlookup (in_blocks_by_hash g') h
       = (if h \<in> bk_hash ` set (drop (Suc ca) (in_blocks g)) then None else fmlookup (in_blocks_by_hash g) h)"
  using assms by (auto simp: truncate_chain_def Let_def unindex_fold)

lemma truncate_linked:
  assumes "truncate_chain ca s g = (displaced, g')" "linked kec (in_blocks g)" "indexed g"
  shows "linked kec (in_blocks g')" "indexed g'"
proof -
  note t = truncate_chain_fields [OF assms(1)]
  show "linked kec (in_blocks g')" using linked_take [OF assms(2)] t(1) by simp
  have "i < Suc ca" if "fmlookup (in_blocks_by_hash g) h = Some i" "h \<notin> bk_hash ` set (drop (Suc ca) (in_blocks g))" for h i
  proof (rule ccontr)
    assume "\<not> i < Suc ca"
    moreover have "i < length (in_blocks g)" "bk_hash (in_blocks g ! i) = h" using that(1) assms(3) by (auto simp: indexed_def)
    ultimately have "in_blocks g ! i \<in> set (drop (Suc ca) (in_blocks g))"
      by (auto simp: in_set_conv_nth intro!: exI [of _ "i - Suc ca"])
    then show False using that(2) \<open>bk_hash (in_blocks g ! i) = h\<close> by auto
  qed
  then show "indexed g'" using assms(3) t(1,4) by (auto simp: indexed_def split: if_splits)
qed

text \<open>Everything of the invariant but the root of the head, which a truncation breaks until the first block is re-applied.\<close>

lemma validate_linked:
  assumes ok: "linked (ne_keccak256 env) (in_blocks (ch_inner ch))" "indexed (ch_inner ch)"
    and r: "validate_and_apply_block env wb ov ch = Some (Inr b, ch')"
  shows "inner_ok (ne_keccak256 env) (ch_inner ch')" "ch_fork_store ch' = ch_fork_store ch"
    "in_blocks (ch_inner ch') = in_blocks (ch_inner ch) @ [b]" "header_of wb b" "bk_hash b = header_hash (ne_keccak256 env) wb"
proof -
  from r obtain ch0 head ch1 pending where a: "ensure_epoch_validators_seeded ch = Some ch0"
      "latest_block (ch_inner ch) = Some head" "check_header env ch0 head wb ov = Inr (bk_hash b)"
      "execute_block env pending (wb_timestamp wb) (wb_view wb) (Some (wb_proposer wb, wb_proposer_sig wb)) ch0 = Some (b, ch1)"
      "bk_state_root b = wb_state_root wb" "bk_txs_root b = wb_txs_root wb"
      "ch' = ch1\<lparr>ch_inner := prune_mempool b (ch_inner ch1)\<rparr>"
    by (cases rule: validate_cases) auto
  note seeded = ensure_seeded [OF a(1)]
  have ok0: "linked (ne_keccak256 env) (in_blocks (ch_inner ch0))" using ok(1) seeded(1) by simp
  note head = latest_block_linked [OF ok0]
  note e = execute_block_cases [OF a(4) head(1)]
  have len: "in_blocks (ch_inner ch0) \<noteq> []" using ok0 by (simp add: linked_def)
  have idx: "indexed (ch_inner ch0)" using ok(2) seeded(1,2) by (simp add: indexed_def)
  show "in_blocks (ch_inner ch') = in_blocks (ch_inner ch) @ [b]" "ch_fork_store ch' = ch_fork_store ch"
    using a(7) e(8,13) seeded by simp_all
  show "header_of wb b" "bk_hash b = header_hash (ne_keccak256 env) wb"
    using a e(2-5) head(1) seeded(1) by (auto simp: header_of_def check_header_accepts latest_block_def split: if_splits)
  have "linked (ne_keccak256 env) (in_blocks (ch_inner ch1))"
    unfolding e(8) by (rule linked_snoc [OF ok0 _ e(3,7)]) (use e(2) head(2) len in simp)
  moreover have "indexed (ch_inner ch1)"
    using idx e(8,9) by (auto simp: indexed_def nth_append intro: less_SucI)
  moreover have "rooted (ch_inner ch1)" using e(6,8) by (simp add: rooted_def)
  ultimately show "inner_ok (ne_keccak256 env) (ch_inner ch')"
    using inner_ok_cong [of "ch_inner ch'" "ch_inner ch1" "ne_keccak256 env"] a(7) by (simp add: inner_ok_def)
qed

lemma header_hash_truncate: "header_hash kec (wire_block.truncate fb) = header_hash kec fb" "header_of (wire_block.truncate fb) = header_of fb"
  by (simp_all add: header_hash_def header_of_def fun_eq_iff wire_block.truncate_def)

lemma apply_branch_blocks:
  assumes "linked (ne_keccak256 env) (in_blocks (ch_inner ch))" "indexed (ch_inner ch)"
    "apply_branch env ov fbs ch = Some (None, ch')"
  shows "ch_fork_store ch' = ch_fork_store ch"
    and "fbs \<noteq> [] \<Longrightarrow> inner_ok (ne_keccak256 env) (ch_inner ch')"
    and "\<exists>bs. in_blocks (ch_inner ch') = in_blocks (ch_inner ch) @ bs
      \<and> list_all2 (\<lambda>fb b. header_of fb b \<and> bk_hash b = header_hash (ne_keccak256 env) fb) fbs bs"
proof -
  have "ch_fork_store ch' = ch_fork_store ch \<and> (fbs \<noteq> [] \<longrightarrow> inner_ok (ne_keccak256 env) (ch_inner ch'))
    \<and> (\<exists>bs. in_blocks (ch_inner ch') = in_blocks (ch_inner ch) @ bs
      \<and> list_all2 (\<lambda>fb b. header_of fb b \<and> bk_hash b = header_hash (ne_keccak256 env) fb) fbs bs)"
    using assms
  proof (induction fbs arbitrary: ch)
    case (Cons fb fbs)
    from Cons.prems(3) obtain b ch1 where v: "validate_and_apply_block env (wire_block.truncate fb) ov ch = Some (Inr b, ch1)"
      and rest: "apply_branch env ov fbs (cache_raw_txs (ne_keccak256 env) (wb_raw_txs fb) ch1) = Some (None, ch')"
      by (auto split: option.splits sum.splits)
    let ?ch2 = "cache_raw_txs (ne_keccak256 env) (wb_raw_txs fb) ch1"
    note 1 = validate_linked [OF Cons.prems(1,2) v, unfolded header_hash_truncate]
    have ok2: "inner_ok (ne_keccak256 env) (ch_inner ?ch2)" using 1(1) inner_ok_cong [of "ch_inner ?ch2" "ch_inner ch1"] by simp
    then have IH: "ch_fork_store ch' = ch_fork_store ?ch2 \<and> (fbs \<noteq> [] \<longrightarrow> inner_ok (ne_keccak256 env) (ch_inner ch'))
      \<and> (\<exists>bs. in_blocks (ch_inner ch') = in_blocks (ch_inner ?ch2) @ bs
        \<and> list_all2 (\<lambda>fb b. header_of fb b \<and> bk_hash b = header_hash (ne_keccak256 env) fb) fbs bs)"
      using Cons.IH [OF _ _ rest] by (simp add: inner_ok_def)
    then obtain bs where "in_blocks (ch_inner ch') = in_blocks (ch_inner ?ch2) @ bs"
      "list_all2 (\<lambda>fb b. header_of fb b \<and> bk_hash b = header_hash (ne_keccak256 env) fb) fbs bs" by auto
    moreover have "inner_ok (ne_keccak256 env) (ch_inner ch')"
      using IH ok2 rest by (cases fbs) auto
    ultimately show ?case using 1 IH by (auto intro!: exI [of _ "b # bs"])
  qed auto
  then show "ch_fork_store ch' = ch_fork_store ch" "fbs \<noteq> [] \<Longrightarrow> inner_ok (ne_keccak256 env) (ch_inner ch')"
    "\<exists>bs. in_blocks (ch_inner ch') = in_blocks (ch_inner ch) @ bs
      \<and> list_all2 (\<lambda>fb b. header_of fb b \<and> bk_hash b = header_hash (ne_keccak256 env) fb) fbs bs" by auto
qed

section \<open>Fork choice is a strict total order\<close>

lemma prefers_irrefl: "\<not> fork_choice_prefers a a"
  by (simp add: fork_choice_prefers_def split: prod.split)

lemma prefers_trans: "fork_choice_prefers a b \<Longrightarrow> fork_choice_prefers b c \<Longrightarrow> fork_choice_prefers a c"
  by (auto simp: fork_choice_prefers_def split: prod.splits if_splits)

lemma prefers_total: "a = b \<or> fork_choice_prefers a b \<or> fork_choice_prefers b a"
  by (auto simp: fork_choice_prefers_def split: prod.splits if_splits)

lemma prefers_height: "fork_choice_prefers a b \<Longrightarrow> fst b \<le> fst a" "fst b < fst a \<Longrightarrow> fork_choice_prefers a b"
  by (auto simp: fork_choice_prefers_def split: prod.splits if_splits)

section \<open>Branches\<close>

text \<open>Consecutive retained blocks, each naming the one before as its parent.\<close>

fun fork_run :: "(hash, fork_block_entry) fmap \<Rightarrow> fork_block_entry list \<Rightarrow> bool" where
  "fork_run fm (e # f # es) \<longleftrightarrow>
     wb_number f = wb_number e + 1 \<and> fmlookup fm (wb_parent_hash f) = Some e \<and> fork_run fm (f # es)"
| "fork_run fm _ \<longleftrightarrow> True"

definition on_chain :: "inner \<Rightarrow> fork_block_entry \<Rightarrow> u64 \<Rightarrow> bool" where
  "on_chain g e ca \<longleftrightarrow> wb_number e = ca + 1 \<and>
     (\<exists>idx < length (in_blocks g). fmlookup (in_blocks_by_hash g) (wb_parent_hash e) = Some idx
        \<and> bk_number (in_blocks g ! idx) = ca)"

lemma assemble_loop_sound:
  assumes "assemble_loop n cur acc fm g fin = Some (Some (br, ca))" "fork_run fm (cur # rev acc)"
  shows "br \<noteq> []" "fork_run fm br" "List.last br = List.last (cur # rev acc)" "on_chain g (hd br) ca" "fin \<le> ca"
proof -
  have "br \<noteq> [] \<and> fork_run fm br \<and> List.last br = List.last (cur # rev acc) \<and> on_chain g (hd br) ca \<and> fin \<le> ca"
    using assms
  proof (induction n arbitrary: cur acc)
    case (Suc n)
    show ?case
    proof (cases "fmlookup (in_blocks_by_hash g) (wb_parent_hash cur)")
      case None
      with Suc.prems(1) obtain p where "fmlookup fm (wb_parent_hash cur) = Some p" "wb_number cur = wb_number p + 1"
          "assemble_loop n p (acc @ [cur]) fm g fin = Some (Some (br, ca))"
        by (auto split: option.splits if_splits)
      then show ?thesis using Suc.IH [of p "acc @ [cur]"] Suc.prems(2) by auto
    next
      case (Some idx)
      with Suc.prems show ?thesis by (auto simp: Let_def on_chain_def split: if_splits)
    qed
  qed simp
  then show "br \<noteq> []" "fork_run fm br" "List.last br = List.last (cur # rev acc)" "on_chain g (hd br) ca" "fin \<le> ca"
    by auto
qed

lemmas assemble_sound = assemble_loop_sound [where acc = "[]", simplified]

lemma assemble_total: "indexed g \<Longrightarrow> \<exists>r. assemble_loop n cur acc fm g fin = Some r"
  by (induction n arbitrary: cur acc) (force simp: Let_def indexed_def split: option.splits)+

lemma fork_run_numbers:
  "fork_run fm br \<Longrightarrow> i < length br \<Longrightarrow> wb_number (br ! i) = wb_number (hd br) + i"
proof (induction fm br arbitrary: i rule: fork_run.induct)
  case (1 fm e f es)
  then show ?case by (cases i) auto
qed (auto simp: less_Suc_eq)

lemma fork_run_members: "fork_run fm br \<Longrightarrow> e \<in> set (butlast br) \<Longrightarrow> \<exists>h. fmlookup fm h = Some e"
  by (induction fm br rule: fork_run.induct) auto

lemma fork_run_distinct:
  assumes "fork_run fm br"
  shows "distinct br"
  unfolding distinct_conv_nth using fork_run_numbers [OF assms] by (metis add_left_cancel)

section \<open>The best branch\<close>

definition candidate ::
    "(hash, fork_block_entry) fmap \<Rightarrow> inner \<Rightarrow> tip_key \<Rightarrow> u64 \<Rightarrow> fork_block_entry \<Rightarrow> reorg_candidate option" where
  "candidate fm g kt fin e =
     (if \<not> fork_choice_prefers (tip_key_of e) kt then None
      else case assemble_fork_branch e fm g fin of
             Some (Some (branch, ca)) \<Rightarrow> Some \<lparr>rc_branch = branch, rc_ca_height = ca, rc_tip = tip_key_of e\<rparr>
           | _ \<Rightarrow> None)"

definition pick :: "reorg_candidate \<Rightarrow> reorg_candidate option \<Rightarrow> reorg_candidate option" where
  "pick c best = (case best of None \<Rightarrow> Some c | Some b \<Rightarrow> if fork_choice_prefers (rc_tip c) (rc_tip b) then Some c else Some b)"

lemma best_branch_pick:
  assumes "indexed g"
  shows "best_branch fm g kt fin es best = Some (fold pick (List.map_filter (candidate fm g kt fin) es) best)"
proof (induction es arbitrary: best)
  case (Cons e es)
  obtain r where "assemble_fork_branch e fm g fin = Some r"
    unfolding assemble_fork_branch_def using assemble_total [OF assms] by blast
  then show ?case
    using Cons.IH
    by (auto simp: better_branch_def candidate_def pick_def Let_def map_filter_simps split: option.splits)
qed (simp add: map_filter_simps)

definition best_of :: "reorg_candidate set \<Rightarrow> reorg_candidate \<Rightarrow> bool" where
  "best_of cs c \<longleftrightarrow> c \<in> cs \<and> (\<forall>d \<in> cs. rc_tip d = rc_tip c \<or> fork_choice_prefers (rc_tip c) (rc_tip d))"

lemma fold_pick_best:
  "(fold pick cs best = None \<longleftrightarrow> cs = [] \<and> best = None)
   \<and> (\<forall>c. fold pick cs best = Some c \<longrightarrow> best_of (set cs \<union> set_option best) c)"
proof (induction cs arbitrary: best)
  case (Cons d cs)
  have "pick d best \<noteq> None" by (simp add: pick_def split: option.split)
  then obtain b where b: "pick d best = Some b" by auto
  have near: "best_of (insert d (set_option best)) b"
    using b prefers_total [of "rc_tip d" "rc_tip b"] by (auto simp: best_of_def pick_def split: option.splits if_splits)
  show ?case
    using Cons.IH [of "pick d best"] b near unfolding best_of_def by (auto dest: prefers_trans)
qed (simp add: best_of_def)

lemma best_of_unique:
  assumes "best_of cs c" "best_of cs d" "inj_on rc_tip cs"
  shows "c = d"
  using assms prefers_irrefl prefers_trans unfolding best_of_def inj_on_def by metis

lemma best_branch_best:
  assumes "indexed g" "best_branch fm g kt fin es None = Some r"
  shows "case r of
      None \<Rightarrow> \<forall>e \<in> set es. candidate fm g kt fin e = None
    | Some c \<Rightarrow> best_of {c. \<exists>e \<in> set es. candidate fm g kt fin e = Some c} c"
proof -
  let ?cs = "List.map_filter (candidate fm g kt fin) es"
  have set: "set ?cs = {c. \<exists>e \<in> set es. candidate fm g kt fin e = Some c}"
    by (induction es) (auto simp: map_filter_simps split: option.splits)
  have r: "r = fold pick ?cs None" using assms best_branch_pick by simp
  show ?thesis
  proof (cases r)
    case None
    then have "?cs = []" using fold_pick_best [of ?cs None] r by simp
    then have "{c. \<exists>e \<in> set es. candidate fm g kt fin e = Some c} = {}" using set by simp
    then have "candidate fm g kt fin e = None" if "e \<in> set es" for e using that by (cases "candidate fm g kt fin e") auto
    then show ?thesis using None by simp
  next
    case (Some c)
    then show ?thesis using fold_pick_best [of ?cs None] r set by simp
  qed
qed

lemma candidate_inj:
  assumes "store_ok kec fm" "\<forall>e \<in> E. \<exists>h. fmlookup fm h = Some e"
  shows "inj_on rc_tip {c. \<exists>e \<in> E. candidate fm g kt fin e = Some c}"
proof (rule inj_onI, clarify)
  fix c d e f
  assume a: "rc_tip c = rc_tip d" "e \<in> E" "f \<in> E" "candidate fm g kt fin e = Some c" "candidate fm g kt fin f = Some d"
  then have "fb_hash e = fb_hash f"
    by (auto simp: candidate_def tip_key_of_def split: if_splits option.splits)
  then have "e = f" using assms a(2,3) by (metis store_ok_def option.inject)
  then show "c = d" using a by simp
qed

text \<open>The order in which the store is read does not matter.\<close>

lemma best_branch_order:
  assumes "store_ok kec fm" "indexed g" "set es = {e. \<exists>h. fmlookup fm h = Some e}"
  shows "best_branch fm g kt fin es None = best_branch fm g kt fin (fm_values fm) None"
proof -
  let ?cs = "{c. \<exists>e \<in> set es. candidate fm g kt fin e = Some c}"
  have same: "set (fm_values fm) = set es" using assms(3) by (simp add: set_fm_values)
  have inj: "inj_on rc_tip ?cs" by (rule candidate_inj [OF assms(1)]) (use assms(3) in auto)
  obtain r q where rq: "best_branch fm g kt fin es None = Some r" "best_branch fm g kt fin (fm_values fm) None = Some q"
    using best_branch_pick [OF assms(2)] by simp
  note R = best_branch_best [OF assms(2) rq(1)] and Q = best_branch_best [OF assms(2) rq(2), unfolded same]
  have "r = q"
  proof (cases r; cases q)
    fix c d assume "r = Some c" "q = Some d"
    then show ?thesis using R Q best_of_unique [OF _ _ inj] by simp
  qed (use R Q in \<open>auto simp: best_of_def\<close>)
  then show ?thesis using rq by simp
qed

section \<open>The store never outgrows its cap\<close>

lemma size_fmdom: "size (fmdom m) = card (fset (fmdom m))"
  by simp

lemma fold_fmdrop_dom: "fset (fmdom (fold (\<lambda>x. fmdrop (f x)) xs m)) = fset (fmdom m) - f ` set xs"
  by (induction xs arbitrary: m) auto

lemma fold_fmdrop_lookup: "fmlookup (fold (\<lambda>x. fmdrop (f x)) xs m) h = (if h \<in> f ` set xs then None else fmlookup m h)"
  by (induction xs arbitrary: m) auto

lemma evict_lowest_size: "size (fmdom (evict_lowest m)) \<le> MAX_FORK_STORE"
proof -
  let ?D = "fset (fmdom m)" and ?L = "sorted_list_of_fset (fmdom m)"
  let ?xs = "sort (map (\<lambda>h. (wb_number (the (fmlookup m h)), h)) ?L)"
  let ?ys = "take (card ?D - MAX_FORK_STORE) ?xs"
  have ms: "mset (map snd ?xs) = mset ?L" by (simp add: image_mset.compositionality comp_def)
  have snds: "distinct (map snd ?xs)" using mset_eq_imp_distinct_iff [OF ms] by simp
  have setD: "snd ` set ?xs = ?D" using mset_eq_setD [OF ms] by simp
  have len: "length ?xs = card ?D" using distinct_card [OF snds] setD by simp
  have "distinct (map snd ?ys)" using distinct_take [OF snds] by (simp only: take_map)
  from distinct_card [OF this] have "card (snd ` set ?ys) = length ?ys" by (simp only: set_map length_map)
  moreover have "snd ` set ?ys \<subseteq> ?D" unfolding setD [symmetric] by (intro image_mono set_take_subset)
  ultimately have "card (?D - snd ` set ?ys) = card ?D - (card ?D - MAX_FORK_STORE)"
    using len by (simp add: card_Diff_subset)
  then show ?thesis by (simp add: evict_lowest_def Let_def fold_fmdrop_dom)
qed

lemma evict_lowest_sub: "fmlookup (evict_lowest m) h = Some e \<Longrightarrow> fmlookup m h = Some e"
  by (simp add: evict_lowest_def Let_def fold_fmdrop_lookup split: if_splits)

lemma store_fork_block_ok:
  assumes "store_ok kec m" "fb_hash e = header_hash kec e"
  shows "store_ok kec (store_fork_block e fin m)" "size (fmdom (store_fork_block e fin m)) \<le> MAX_FORK_STORE"
proof -
  show "size (fmdom (store_fork_block e fin m)) \<le> MAX_FORK_STORE"
    unfolding store_fork_block_def Let_def by (rule evict_lowest_size)
  have "fmlookup m h = Some x \<or> (h = fb_hash e \<and> x = e)" if "fmlookup (store_fork_block e fin m) h = Some x" for h x
    using evict_lowest_sub [OF that [unfolded store_fork_block_def Let_def]] by (auto split: if_splits)
  then show "store_ok kec (store_fork_block e fin m)" using assms unfolding store_ok_def by metis
qed

lemma fold_displaced:
  fixes P :: "fork_block_entry \<Rightarrow> bool"
  defines "ins \<equiv> \<lambda>d m. if P d then fmupd (fb_hash d) d m else m"
  shows "fmlookup (fold ins ds m) h = Some x \<Longrightarrow> fmlookup m h = Some x \<or> (x \<in> set ds \<and> fb_hash x = h)"
    and "fset (fmdom (fold ins ds m)) \<subseteq> fset (fmdom m) \<union> fb_hash ` set ds"
proof -
  show "fmlookup (fold ins ds m) h = Some x \<Longrightarrow> fmlookup m h = Some x \<or> (x \<in> set ds \<and> fb_hash x = h)"
  proof (induction ds arbitrary: m)
    case (Cons d ds)
    from Cons.IH [of "ins d m"] Cons.prems show ?case by (auto simp: ins_def split: if_splits)
  qed simp
  show "fset (fmdom (fold ins ds m)) \<subseteq> fset (fmdom m) \<union> fb_hash ` set ds"
  proof (induction ds arbitrary: m)
    case (Cons d ds)
    from Cons.IH [of "ins d m"] show ?case by (auto simp: ins_def split: if_splits)
  qed simp
qed

lemma settle_store_ok:
  assumes m: "store_ok kec m" "size (fmdom m) \<le> MAX_FORK_STORE"
    and br: "distinct br" "\<forall>e \<in> set br. \<exists>h. fmlookup m h = Some e"
    and ds: "\<forall>d \<in> set ds. fb_hash d = header_hash kec d" "length ds \<le> length br"
  shows "store_ok kec (settle_store br ds fin m)" "size (fmdom (settle_store br ds fin m)) \<le> MAX_FORK_STORE"
proof -
  let ?m1 = "fold (\<lambda>fb. fmdrop (fb_hash fb)) br m"
  let ?m2 = "fold (\<lambda>d m. if wb_number d > fin then fmupd (fb_hash d) d m else m) ds ?m1"
  have look: "fmlookup m h = Some x \<or> (x \<in> set ds \<and> fb_hash x = h)" if "fmlookup (settle_store br ds fin m) h = Some x" for h x
    using that fold_displaced(1) [of "\<lambda>d. wb_number d > fin" ds ?m1 h x]
    by (auto simp: settle_store_def Let_def fold_fmdrop_lookup split: if_splits)
  then show "store_ok kec (settle_store br ds fin m)" using m(1) ds(1) unfolding store_ok_def by metis
  have keys: "\<forall>e \<in> set br. fmlookup m (fb_hash e) = Some e" using br(2) m(1) unfolding store_ok_def by metis
  then have "inj_on fb_hash (set br)" by (metis inj_onI option.inject)
  then have cb: "card (fb_hash ` set br) = length br" using br(1) by (simp add: card_image distinct_card)
  have sub: "fb_hash ` set br \<subseteq> fset (fmdom m)" using keys by (auto intro: fmdomI)
  have "fset (fmdom (settle_store br ds fin m)) \<subseteq> fset (fmdom ?m2)"
    by (auto simp: settle_store_def Let_def)
  also have "\<dots> \<subseteq> (fset (fmdom m) - fb_hash ` set br) \<union> fb_hash ` set ds"
    using fold_displaced(2) [of "\<lambda>d. wb_number d > fin" ds ?m1] by (simp only: fold_fmdrop_dom)
  finally have "card (fset (fmdom (settle_store br ds fin m))) \<le> card ((fset (fmdom m) - fb_hash ` set br) \<union> fb_hash ` set ds)"
    by (intro card_mono) auto
  also have "\<dots> \<le> card (fset (fmdom m) - fb_hash ` set br) + card (fb_hash ` set ds)" by (rule card_Un_le)
  also have "\<dots> \<le> (card (fset (fmdom m)) - length br) + length ds"
    using sub cb card_image_le [of "set ds" fb_hash] card_length [of ds] by (simp add: card_Diff_subset)
  also have "\<dots> \<le> MAX_FORK_STORE" using m(2) ds(2) card_mono [OF _ sub] cb by simp
  finally show "size (fmdom (settle_store br ds fin m)) \<le> MAX_FORK_STORE" by simp
qed

section \<open>A reorganisation\<close>

lemma validate_store:
  assumes "validate_and_apply_block env wb ov ch = Some (r, ch')"
  shows "ch_fork_store ch' = ch_fork_store ch"
  using assms
proof (cases rule: validate_cases)
  case (applied ch0 head b ch1 pending)
  note seeded = ensure_seeded [OF applied(1)]
  have "latest_block (ch_inner ch0) = Some head"
    using applied(3) seeded(1) by (simp add: latest_block_def split: if_splits)
  then show ?thesis using execute_block_cases(13) [OF applied(6)] applied(9) seeded(5) by simp
qed

lemma apply_branch_store: "apply_branch env ov fbs ch = Some (r, ch') \<Longrightarrow> ch_fork_store ch' = ch_fork_store ch"
proof (induction fbs arbitrary: ch)
  case (Cons fb fbs)
  then show ?case using validate_store [of env "wire_block.truncate fb" ov ch] Cons.IH
    by (fastforce split: option.splits sum.splits)
qed simp

definition head_key :: "inner \<Rightarrow> tip_key" where
  "head_key g = (let b = List.last (in_blocks g) in (bk_number b, bk_view b, bk_hash b))"

lemma displaced_hashes:
  assumes "linked kec (in_blocks g)" "d \<in> set (map (displaced_entry g') (drop n (in_blocks g)))"
  shows "fb_hash d = header_hash kec d"
proof -
  from assms(2) obtain b where "b \<in> set (in_blocks g)" "d = displaced_entry g' b" by (auto dest: in_set_dropD)
  then show ?thesis using assms(1)
    by (auto simp: displaced_entry_def header_hash_def linked_def block_header_hash_def in_set_conv_nth)
qed

lemma execute_reorg_ok:
  assumes ok: "node_ok env ch"
    and br: "br \<noteq> []" "fork_run (ch_fork_store ch) br" "on_chain (ch_inner ch) (hd br) ca"
      "fmlookup (ch_fork_store ch) (fb_hash (List.last br)) = Some (List.last br)"
      "fork_choice_prefers (tip_key_of (List.last br)) (head_key (ch_inner ch))"
    and r: "execute_reorg env br ca ov ch = Some (r, ch')"
  shows "node_ok env ch'"
    and "case r of
        Inr (Some b) \<Rightarrow> b = List.last (in_blocks (ch_inner ch'))
          \<and> head_key (ch_inner ch') = tip_key_of (List.last br)
          \<and> ca < length (in_blocks (ch_inner ch))
          \<and> take (Suc ca) (in_blocks (ch_inner ch')) = take (Suc ca) (in_blocks (ch_inner ch))
      | _ \<Rightarrow> ch_inner ch' = ch_inner ch \<and> ch_recent_states ch' = ch_recent_states ch \<and> ch_fork_store ch' = ch_fork_store ch"
proof -
  let ?kec = "ne_keccak256 env" and ?g = "ch_inner ch"
  have lk: "linked ?kec (in_blocks ?g)" and idx: "indexed ?g" and st: "store_ok ?kec (ch_fork_store ch)"
      and sz: "size (fmdom (ch_fork_store ch)) \<le> MAX_FORK_STORE"
    using ok by (simp_all add: node_ok_def inner_ok_def)
  have ca: "ca < length (in_blocks ?g)" "wb_number (hd br) = Suc ca"
    using br(3) lk by (auto simp: on_chain_def linked_def)
  have mem: "\<exists>h. fmlookup (ch_fork_store ch) h = Some e" if "e \<in> set br" for e
    using that br(1,4) fork_run_members [OF br(2)] append_butlast_last_id [OF br(1)]
    by (metis (no_types, lifting) Un_iff set_append set_ConsD empty_set list.set(1) empty_iff)
  have num: "wb_number (List.last br) = ca + length br"
    using fork_run_numbers [OF br(2), of "length br - 1"] br(1) ca(2) by (cases br) (auto simp: last_conv_nth)
  have head: "fst (head_key ?g) = length (in_blocks ?g) - 1"
    using latest_block_linked(2) [OF lk] by (simp add: head_key_def Let_def)
  have len: "length (drop (Suc ca) (in_blocks ?g)) \<le> length br"
    using prefers_height(1) [OF br(5)] head num by (simp add: tip_key_of_def)
  obtain ds g where t: "truncate_chain ca (the (fmlookup (ch_recent_states ch) ca)) ?g = (ds, g)" by fastforce
  note tf = truncate_chain_fields [OF t] and tl = truncate_linked [OF t lk idx]
  consider (kept) "\<forall>b. r \<noteq> Inr (Some b)" "ch_inner ch' = ?g" "ch_recent_states ch' = ch_recent_states ch" "ch_fork_store ch' = ch_fork_store ch"
    | (won) ch1 head where "apply_branch env ov br (ch\<lparr>ch_inner := g\<rparr>) = Some (None, ch1)"
        "latest_block (ch_inner ch1) = Some head" "r = Inr (Some head)"
        "ch' = ch1\<lparr>ch_fork_store := settle_store br ds (bk_number head - FINALITY_DEPTH) (ch_fork_store ch1)\<rparr>"
    using r t apply_branch_store [of env ov br "ch\<lparr>ch_inner := g\<rparr>"]
    by (fastforce simp: execute_reorg_def Let_def bind_eq_Some_conv split: option.splits)
  then have "node_ok env ch' \<and> (case r of
        Inr (Some b) \<Rightarrow> b = List.last (in_blocks (ch_inner ch'))
          \<and> head_key (ch_inner ch') = tip_key_of (List.last br)
          \<and> ca < length (in_blocks (ch_inner ch))
          \<and> take (Suc ca) (in_blocks (ch_inner ch')) = take (Suc ca) (in_blocks (ch_inner ch))
      | _ \<Rightarrow> ch_inner ch' = ch_inner ch \<and> ch_recent_states ch' = ch_recent_states ch \<and> ch_fork_store ch' = ch_fork_store ch)"
  proof cases
    case kept
    then show ?thesis using ok by (auto simp: node_ok_def split: sum.split option.split)
  next
    case (won ch1 head)
    have lk': "linked ?kec (in_blocks (ch_inner (ch\<lparr>ch_inner := g\<rparr>)))" "indexed (ch_inner (ch\<lparr>ch_inner := g\<rparr>))"
      using tl by simp_all
    note ab = apply_branch_blocks [OF lk' won(1)]
    then obtain bs where bs: "in_blocks (ch_inner ch1) = in_blocks g @ bs"
        "list_all2 (\<lambda>fb b. header_of fb b \<and> bk_hash b = header_hash ?kec fb) br bs" by auto
    have ne: "bs \<noteq> []" using bs(2) br(1) by auto
    have lens: "length bs = length br" using list_all2_lengthD [OF bs(2)] by simp
    have "List.last (in_blocks (ch_inner ch1)) = List.last bs" using bs(1) ne by simp
    then have last: "List.last (in_blocks (ch_inner ch1)) = bs ! (length br - 1)" "length bs = length br"
      using ne lens by (simp_all add: last_conv_nth)
    have "header_of (List.last br) (List.last (in_blocks (ch_inner ch1)))
        \<and> bk_hash (List.last (in_blocks (ch_inner ch1))) = header_hash ?kec (List.last br)"
      using list_all2_nthD [OF bs(2), of "length br - 1"] br(1) last by (simp add: last_conv_nth)
    moreover have "header_hash ?kec (List.last br) = fb_hash (List.last br)" using st br(4) unfolding store_ok_def by blast
    ultimately have key: "head_key (ch_inner ch1) = tip_key_of (List.last br)"
      by (simp add: head_key_def tip_key_of_def header_of_def)
    have "store_ok ?kec (ch_fork_store ch') \<and> size (fmdom (ch_fork_store ch')) \<le> MAX_FORK_STORE"
      using settle_store_ok [OF st sz fork_run_distinct [OF br(2)], of ds "bk_number head - FINALITY_DEPTH"]
        mem displaced_hashes [OF lk] len won(4) ab(1) tf(3) by simp
    moreover have "inner_ok ?kec (ch_inner ch')" using ab(2) br(1) won(4) by simp
    moreover have "head = List.last (in_blocks (ch_inner ch1))"
      using won(2) by (simp add: latest_block_def split: if_splits)
    ultimately show ?thesis using won key ca(1) bs(1) tf(1) by (simp add: node_ok_def)
  qed
  then show "node_ok env ch'" and "case r of
        Inr (Some b) \<Rightarrow> b = List.last (in_blocks (ch_inner ch'))
          \<and> head_key (ch_inner ch') = tip_key_of (List.last br)
          \<and> ca < length (in_blocks (ch_inner ch))
          \<and> take (Suc ca) (in_blocks (ch_inner ch')) = take (Suc ca) (in_blocks (ch_inner ch))
      | _ \<Rightarrow> ch_inner ch' = ch_inner ch \<and> ch_recent_states ch' = ch_recent_states ch \<and> ch_fork_store ch' = ch_fork_store ch"
    by blast+
qed

lemma best_branch_found:
  assumes ok: "node_ok env ch"
    and best: "best_branch (ch_fork_store ch) (ch_inner ch) kt fin (fm_values (ch_fork_store ch)) None = Some (Some c)"
  shows "rc_branch c \<noteq> []" "fork_run (ch_fork_store ch) (rc_branch c)" "on_chain (ch_inner ch) (hd (rc_branch c)) (rc_ca_height c)"
    "fmlookup (ch_fork_store ch) (fb_hash (List.last (rc_branch c))) = Some (List.last (rc_branch c))"
    "rc_tip c = tip_key_of (List.last (rc_branch c))" "fork_choice_prefers (rc_tip c) kt" "fin \<le> rc_ca_height c"
proof -
  have idx: "indexed (ch_inner ch)" and st: "store_ok (ne_keccak256 env) (ch_fork_store ch)"
    using ok by (simp_all add: node_ok_def inner_ok_def)
  from best_branch_best [OF idx best] obtain e where e: "e \<in> set (fm_values (ch_fork_store ch))"
      "candidate (ch_fork_store ch) (ch_inner ch) kt fin e = Some c"
    by (auto simp: best_of_def)
  then have a: "assemble_fork_branch e (ch_fork_store ch) (ch_inner ch) fin = Some (Some (rc_branch c, rc_ca_height c))"
    and key: "rc_tip c = tip_key_of e" "fork_choice_prefers (rc_tip c) kt"
    by (auto simp: candidate_def split: if_splits option.splits)
  note s = assemble_sound [OF a [unfolded assemble_fork_branch_def]]
  show "rc_branch c \<noteq> []" "fork_run (ch_fork_store ch) (rc_branch c)" "on_chain (ch_inner ch) (hd (rc_branch c)) (rc_ca_height c)"
    "fin \<le> rc_ca_height c" "rc_tip c = tip_key_of (List.last (rc_branch c))" "fork_choice_prefers (rc_tip c) kt"
    using s key by simp_all
  from e(1) obtain h where "fmlookup (ch_fork_store ch) h = Some e" by (auto simp: set_fm_values)
  then show "fmlookup (ch_fork_store ch) (fb_hash (List.last (rc_branch c))) = Some (List.last (rc_branch c))"
    using st s(3) by (auto simp: store_ok_def)
qed

text \<open>
  What considering a competing block can do: nothing to the chain, or replace its suffix above the finalised
  height by a branch whose tip is preferred.
\<close>

definition reorganised :: "inner \<Rightarrow> inner \<Rightarrow> bool" where
  "reorganised g g' \<longleftrightarrow> fork_choice_prefers (head_key g') (head_key g)
     \<and> (let fin = fst (head_key g) - FINALITY_DEPTH
        in take (Suc fin) (in_blocks g') = take (Suc fin) (in_blocks g))"

lemma maybe_reorg_ok:
  assumes ok: "node_ok env ch"
    and r: "maybe_reorg_to_best_branch env (head_key (ch_inner ch)) (fst (head_key (ch_inner ch)) - FINALITY_DEPTH) ov ch = Some (r, ch')"
  shows "node_ok env ch'"
    and "case r of Inr (Some b) \<Rightarrow> b = List.last (in_blocks (ch_inner ch')) \<and> reorganised (ch_inner ch) (ch_inner ch')
      | _ \<Rightarrow> ch_inner ch' = ch_inner ch \<and> ch_recent_states ch' = ch_recent_states ch \<and> ch_fork_store ch' = ch_fork_store ch"
proof -
  let ?g = "ch_inner ch" and ?k = "head_key (ch_inner ch)"
  let ?fin = "fst ?k - FINALITY_DEPTH"
  have "node_ok env ch' \<and> (case r of Inr (Some b) \<Rightarrow> b = List.last (in_blocks (ch_inner ch')) \<and> reorganised (ch_inner ch) (ch_inner ch')
      | _ \<Rightarrow> ch_inner ch' = ch_inner ch \<and> ch_recent_states ch' = ch_recent_states ch \<and> ch_fork_store ch' = ch_fork_store ch)"
  proof (cases "\<exists>c. fmdom (ch_fork_store ch) \<noteq> {||}
      \<and> best_branch (ch_fork_store ch) ?g ?k ?fin (fm_values (ch_fork_store ch)) None = Some (Some c)")
    case True
    then obtain c where c: "best_branch (ch_fork_store ch) ?g ?k ?fin (fm_values (ch_fork_store ch)) None = Some (Some c)"
        "fmdom (ch_fork_store ch) \<noteq> {||}" by auto
    note f = best_branch_found [OF ok c(1)]
    have x: "execute_reorg env (rc_branch c) (rc_ca_height c) ov ch = Some (r, ch')"
      using r c by (simp add: maybe_reorg_to_best_branch_def Let_def)
    have pref: "fork_choice_prefers (tip_key_of (List.last (rc_branch c))) ?k" using f(5,6) by simp
    note e = execute_reorg_ok [OF ok f(1-4) pref x]
    have "take (Suc ?fin) (in_blocks (ch_inner ch')) = take (Suc ?fin) (in_blocks ?g)"
      if "take (Suc (rc_ca_height c)) (in_blocks (ch_inner ch')) = take (Suc (rc_ca_height c)) (in_blocks ?g)"
    proof -
      have "Suc ?fin = min (Suc ?fin) (Suc (rc_ca_height c))" using f(7) by simp
      then show ?thesis using that by (metis take_take)
    qed
    then show ?thesis using e pref by (auto simp: reorganised_def Let_def split: sum.splits option.splits)
  next
    case False
    then have "r = Inr None \<and> ch' = ch"
      using r by (auto simp: maybe_reorg_to_best_branch_def Let_def bind_eq_Some_conv split: if_splits option.splits)
    then show ?thesis using ok by simp
  qed
  then show "node_ok env ch'" "case r of Inr (Some b) \<Rightarrow> b = List.last (in_blocks (ch_inner ch')) \<and> reorganised (ch_inner ch) (ch_inner ch')
      | _ \<Rightarrow> ch_inner ch' = ch_inner ch \<and> ch_recent_states ch' = ch_recent_states ch \<and> ch_fork_store ch' = ch_fork_store ch"
    by auto
qed

lemma consider_ok:
  assumes ok: "node_ok env ch" and r: "consider_competing_block env wb ov ch = Some (r, ch')"
  shows "node_ok env ch'"
    and "case r of Inr (Some b) \<Rightarrow> b = List.last (in_blocks (ch_inner ch')) \<and> reorganised (ch_inner ch) (ch_inner ch')
      | _ \<Rightarrow> in_blocks (ch_inner ch') = in_blocks (ch_inner ch)"
proof -
  obtain ch0 where ch0: "ensure_epoch_validators_seeded ch = Some ch0" using ensure_seeded_total [OF ok] by auto
  note seeded = ensure_seeded [OF ch0]
  have ok0: "node_ok env ch0" by (rule seeded(10) [OF ok])
  have head: "latest_block (ch_inner ch0) = Some (List.last (in_blocks (ch_inner ch0)))"
    using ok0 latest_block_linked(1) by (auto simp: node_ok_def inner_ok_def)
  let ?k = "head_key (ch_inner ch0)"
  let ?e = "wire_block.extend wb (fork_block_entry.fields (header_hash (ne_keccak256 env) wb))"
  let ?ch1 = "ch0\<lparr>ch_fork_store := store_fork_block ?e (fst ?k - FINALITY_DEPTH) (ch_fork_store ch0)\<rparr>"
  have ok1: "node_ok env ?ch1"
    using ok0 store_fork_block_ok [of "ne_keccak256 env" "ch_fork_store ch0" ?e "fst ?k - FINALITY_DEPTH"]
    by (simp add: node_ok_def header_hash_def wire_block.extend_def fork_block_entry.fields_def)
  from r have "(\<forall>b. r \<noteq> Inr (Some b)) \<and> ch' = ch0
      \<or> maybe_reorg_to_best_branch env ?k (fst ?k - FINALITY_DEPTH) ov ?ch1 = Some (r, ch')"
    by (auto simp: consider_competing_block_def ch0 head Let_def head_key_def header_hash_def split: if_splits)
  then have "node_ok env ch' \<and> (case r of
        Inr (Some b) \<Rightarrow> b = List.last (in_blocks (ch_inner ch')) \<and> reorganised (ch_inner ch0) (ch_inner ch')
      | _ \<Rightarrow> in_blocks (ch_inner ch') = in_blocks (ch_inner ch0))"
  proof
    assume "(\<forall>b. r \<noteq> Inr (Some b)) \<and> ch' = ch0"
    then show ?thesis using ok0 by (auto split: sum.split option.split)
  next
    assume "maybe_reorg_to_best_branch env ?k (fst ?k - FINALITY_DEPTH) ov ?ch1 = Some (r, ch')"
    then have "maybe_reorg_to_best_branch env (head_key (ch_inner ?ch1)) (fst (head_key (ch_inner ?ch1)) - FINALITY_DEPTH) ov ?ch1 = Some (r, ch')"
      by simp
    from maybe_reorg_ok [OF ok1 this] show ?thesis by (auto split: sum.splits option.splits)
  qed
  then show "node_ok env ch'" "case r of Inr (Some b) \<Rightarrow> b = List.last (in_blocks (ch_inner ch')) \<and> reorganised (ch_inner ch) (ch_inner ch')
      | _ \<Rightarrow> in_blocks (ch_inner ch') = in_blocks (ch_inner ch)"
    using seeded(1) by (auto simp: reorganised_def head_key_def Let_def split: sum.splits option.splits)
qed

end
