(* ===== verification/Chain_Theorems.thy ===== *)
theory Chain_Theorems
  imports Reorg_Invariant Kernel_Theorems Tx_Theorems
begin

text \<open>
  The properties of the node's chain over every sequence of what a node does: producing a block,
  receiving one, considering a competing one, admitting a transaction and caching raw transactions.
\<close>

section \<open>Runs of a node\<close>

inductive node_step :: "node_env \<Rightarrow> chain \<Rightarrow> chain \<Rightarrow> bool" for env where
  produce: "produce_block_at_view env timestamp view ch = Some (b, ch') \<Longrightarrow> node_step env ch ch'"
| receive: "validate_and_apply_block env wb validator_override ch = Some (r, ch') \<Longrightarrow> node_step env ch ch'"
| compete: "consider_competing_block env wb validator_override ch = Some (r, ch') \<Longrightarrow> node_step env ch ch'"
| submit: "ingest_raw_tx env now raw ch = (r, ch') \<Longrightarrow> node_step env ch ch'"
| cache: "node_step env ch (cache_raw_txs (ne_keccak256 env) raws ch)"

text \<open>A node starts with a fresh chain whose genesis state has been seeded and whose key may be set.\<close>

definition boot :: "node_env \<Rightarrow> u64 \<Rightarrow> u64 \<Rightarrow> proposer_key option \<Rightarrow> mem_state \<Rightarrow> chain" where
  "boot env chain_id genesis_time key s =
     (let ch = chain_new (ne_keccak256 env) chain_id genesis_time
      in ch\<lparr>ch_inner := (ch_inner ch)\<lparr>in_state := s\<rparr>, ch_proposer_key := key\<rparr>)"

inductive node_run :: "node_env \<Rightarrow> chain \<Rightarrow> bool" for env where
  start: "node_run env (boot env chain_id genesis_time key s)"
| step: "node_run env ch \<Longrightarrow> node_step env ch ch' \<Longrightarrow> node_run env ch'"

inductive_cases node_stepE: "node_step env ch ch'"

lemma boot_ok: "node_ok env (boot env cid t key s)"
  using chain_new_ok [of "chain_new (ne_keccak256 env) cid t" env cid t s]
  by (simp add: boot_def Let_def node_ok_def inner_ok_def indexed_def rooted_def)

section \<open>One step\<close>

text \<open>The head only ever moves to a preferred tip, and what is finalised stays.\<close>

definition progresses :: "inner \<Rightarrow> inner \<Rightarrow> bool" where
  "progresses g g' \<longleftrightarrow> (head_key g' = head_key g \<or> fork_choice_prefers (head_key g') (head_key g))
     \<and> (let fin = fst (head_key g) - FINALITY_DEPTH
        in take (Suc fin) (in_blocks g') = take (Suc fin) (in_blocks g))"

lemma progresses_same: "in_blocks g' = in_blocks g \<Longrightarrow> progresses g g'"
  by (simp add: progresses_def head_key_def)

lemma progresses_append:
  assumes "linked kec (in_blocks g)" "linked kec (in_blocks g')" "in_blocks g' = in_blocks g @ [b]"
  shows "progresses g g'"
proof -
  have "fst (head_key g) = length (in_blocks g) - 1" "fst (head_key g') = length (in_blocks g)" "in_blocks g \<noteq> []"
    using latest_block_linked(2) [OF assms(1)] latest_block_linked(2) [OF assms(2)] assms(1,3)
    by (simp_all add: head_key_def Let_def linked_def)
  then show ?thesis using prefers_height(2) [of "head_key g" "head_key g'"] assms(3)
    by (simp add: progresses_def Let_def Suc_leI)
qed

lemma ingest_chain:
  assumes "ingest_raw_tx env now raw ch = (r, ch')"
  shows "in_blocks (ch_inner ch') = in_blocks (ch_inner ch)" "in_blocks_by_hash (ch_inner ch') = in_blocks_by_hash (ch_inner ch)"
    "in_state (ch_inner ch') = in_state (ch_inner ch)" "ch_fork_store ch' = ch_fork_store ch"
  using assms by (auto simp: ingest_raw_tx_def Let_def split: sum.splits option.splits)

lemma produce_parts:
  assumes "produce_block_at_view env ts v ch = Some (b, ch')"
  shows "execute_block env (in_mempool (ch_inner ch)) ts v None (ch\<lparr>ch_inner := (ch_inner ch)\<lparr>in_mempool := []\<rparr>\<rparr>) = Some (b, ch')"
  using assms by (simp add: produce_block_at_view_def Let_def)

lemma drop_mempool_ok: "node_ok env (ch\<lparr>ch_inner := (ch_inner ch)\<lparr>in_mempool := ps\<rparr>\<rparr>) = node_ok env ch"
  by (rule node_ok_cong, rule inner_ok_cong) simp_all

lemma chain_linked: "node_ok env ch \<Longrightarrow> linked (ne_keccak256 env) (in_blocks (ch_inner ch))"
  by (simp add: node_ok_def inner_ok_def)

lemma node_step_ok:
  assumes ok: "node_ok env ch" and "node_step env ch ch'"
  shows "node_ok env ch'" "progresses (ch_inner ch) (ch_inner ch')"
proof -
  have "node_ok env ch' \<and> progresses (ch_inner ch) (ch_inner ch')"
    using assms(2)
  proof (cases rule: node_step.cases)
    case (produce ts v b)
    let ?ch = "ch\<lparr>ch_inner := (ch_inner ch)\<lparr>in_mempool := []\<rparr>\<rparr>"
    note x = produce_parts [OF produce]
    have ok0: "node_ok env ?ch" using ok drop_mempool_ok by blast
    note ok' = execute_block_ok [OF ok0 x]
    have "in_blocks (ch_inner ch') = in_blocks (ch_inner ch) @ [b]"
      using execute_block_cases(8) [OF x latest_block_linked(1) [OF chain_linked [OF ok0]]] by simp
    then show ?thesis using ok' progresses_append [OF chain_linked [OF ok] chain_linked [OF ok']] by simp
  next
    case (receive wb ov r)
    note v = validate_ok [OF ok receive]
    show ?thesis
    proof (cases r)
      case (Inl e)
      then show ?thesis using v progresses_same by simp
    next
      case (Inr b)
      then show ?thesis using v progresses_append [OF chain_linked [OF ok] chain_linked [OF v(1)]] by simp
    qed
  next
    case (compete wb ov r)
    note c = consider_ok [OF ok compete]
    then show ?thesis
      using progresses_same by (auto simp: reorganised_def progresses_def split: sum.splits option.splits)
  next
    case (submit now raw r)
    note i = ingest_chain [OF submit]
    have "node_ok env ch'" using ok node_ok_cong [of env ch' ch] inner_ok_cong [OF i(1-3)] i(4) by simp
    then show ?thesis using progresses_same i(1) by simp
  next
    case (cache raws)
    then show ?thesis using ok progresses_same by simp
  qed
  then show "node_ok env ch'" "progresses (ch_inner ch) (ch_inner ch')" by auto
qed

lemma node_run_ok: "node_run env ch \<Longrightarrow> node_ok env ch"
  by (induction rule: node_run.induct) (auto intro: boot_ok node_step_ok(1))

lemma head_key_trans:
  assumes "head_key b = head_key a \<or> fork_choice_prefers (head_key b) (head_key a)"
    "head_key c = head_key b \<or> fork_choice_prefers (head_key c) (head_key b)"
  shows "head_key c = head_key a \<or> fork_choice_prefers (head_key c) (head_key a)"
  using assms prefers_trans by metis

lemma progresses_trans:
  assumes "progresses a b" "progresses b c"
  shows "progresses a c"
proof -
  let ?f = "\<lambda>g. fst (head_key g) - FINALITY_DEPTH"
  have "fst (head_key a) \<le> fst (head_key b)"
    using assms(1) prefers_height(1) [of "head_key b" "head_key a"] by (auto simp: progresses_def)
  then have m: "min (Suc (?f a)) (Suc (?f b)) = Suc (?f a)" by simp
  have "take (Suc (?f a)) (in_blocks c) = take (Suc (?f a)) (take (Suc (?f b)) (in_blocks c))" by (simp only: take_take m)
  also have "\<dots> = take (Suc (?f a)) (in_blocks b)" using assms(2) m by (simp add: progresses_def Let_def take_take)
  finally show ?thesis using assms head_key_trans [of b a c] by (simp add: progresses_def Let_def)
qed

lemma node_steps_progress:
  assumes "node_ok env ch" "(node_step env)\<^sup>*\<^sup>* ch ch'"
  shows "node_ok env ch' \<and> progresses (ch_inner ch) (ch_inner ch')"
  using assms(2)
proof (induction rule: rtranclp_induct)
  case base
  then show ?case using assms(1) progresses_same by simp
next
  case (step y z)
  then show ?case using node_step_ok progresses_trans by blast
qed

section \<open>The mempool\<close>

definition mempool_ok :: "inner \<Rightarrow> bool" where
  "mempool_ok g \<longleftrightarrow> length (in_mempool g) \<le> MEMPOOL_MAX_TXS \<and> (\<forall>a. length (pending_of g a) \<le> MEMPOOL_MAX_PER_SENDER)"

lemma mempool_ok_sub:
  assumes "mempool_ok g" "in_mempool g' = filter P (in_mempool g)"
  shows "mempool_ok g'"
proof -
  have "pending_of g' a = filter P (pending_of g a)" for a
    using assms(2) by (simp add: pending_of_def conj_commute)
  then have "length (pending_of g' a) \<le> length (pending_of g a)" for a by simp
  moreover have "length (in_mempool g') \<le> length (in_mempool g)" using assms(2) by simp
  ultimately show ?thesis using assms(1) unfolding mempool_ok_def by (meson le_trans)
qed

lemma mempool_ok_same: "mempool_ok g \<Longrightarrow> in_mempool g' = in_mempool g \<Longrightarrow> mempool_ok g'"
  by (simp add: mempool_ok_def pending_of_def)

lemma validate_mempool:
  assumes "validate_and_apply_block env wb ov ch = Some (r, ch')"
  shows "\<exists>P. in_mempool (ch_inner ch') = filter P (in_mempool (ch_inner ch))"
  using assms
proof (cases rule: validate_cases)
  case (rejected ch0 e)
  then show ?thesis using ensure_seeded(3) [OF rejected(1)] by (auto intro: exI [of _ "\<lambda>_. True"])
next
  case (applied ch0 head b ch1 pending)
  note seeded = ensure_seeded [OF applied(1)]
  have "latest_block (ch_inner ch0) = Some head"
    using applied(3) seeded(1) by (simp add: latest_block_def split: if_splits)
  then show ?thesis using execute_block_cases(10) [OF applied(6)] applied(9) seeded(3)
    by (auto simp: prune_mempool_def Let_def)
qed

lemma apply_branch_mempool:
  "apply_branch env ov fbs ch = Some (r, ch') \<Longrightarrow> mempool_ok (ch_inner ch) \<Longrightarrow> mempool_ok (ch_inner ch')"
proof (induction fbs arbitrary: ch)
  case (Cons fb fbs)
  from Cons.prems(1) obtain q ch1 where v: "validate_and_apply_block env (wire_block.truncate fb) ov ch = Some (q, ch1)"
    by (auto split: option.splits)
  then have ok1: "mempool_ok (ch_inner ch1)" using validate_mempool mempool_ok_sub Cons.prems(2) by blast
  show ?case
  proof (cases q)
    case (Inl e)
    then show ?thesis using Cons.prems(1) v ok1 by simp
  next
    case (Inr b)
    let ?ch2 = "cache_raw_txs (ne_keccak256 env) (wb_raw_txs fb) ch1"
    have "mempool_ok (ch_inner ?ch2)" using ok1 mempool_ok_same [of "ch_inner ch1" "ch_inner ?ch2"] by simp
    then show ?thesis using Cons.IH [of ?ch2] Cons.prems(1) v Inr by simp
  qed
qed simp

lemma unindex_mempool [simp]: "in_mempool (fold unindex_block bs g) = in_mempool g"
  by (induction bs arbitrary: g) (simp_all add: unindex_block_def)

lemma execute_reorg_mempool:
  assumes "execute_reorg env br ca ov ch = Some (r, ch')" "mempool_ok (ch_inner ch)"
  shows "mempool_ok (ch_inner ch')"
proof (cases "fmlookup (ch_recent_states ch) ca")
  case None
  then show ?thesis using assms by (simp add: execute_reorg_def)
next
  case (Some cs)
  obtain ds g where t: "truncate_chain ca cs (ch_inner ch) = (ds, g)" by fastforce
  then have "in_mempool g = in_mempool (ch_inner ch)" by (auto simp: truncate_chain_def Let_def)
  then have g: "mempool_ok (ch_inner (ch\<lparr>ch_inner := g\<rparr>))" using assms(2) mempool_ok_same by simp
  from assms(1) Some t obtain q ch1 where b: "apply_branch env ov br (ch\<lparr>ch_inner := g\<rparr>) = Some (q, ch1)"
    by (auto simp: execute_reorg_def Let_def split: option.splits)
  note m = apply_branch_mempool [OF b g]
  show ?thesis
    using assms Some t b m by (cases q) (auto simp: execute_reorg_def Let_def bind_eq_Some_conv)
qed

lemma consider_mempool:
  assumes "consider_competing_block env wb ov ch = Some (r, ch')" "mempool_ok (ch_inner ch)"
  shows "mempool_ok (ch_inner ch')"
proof -
  from assms(1) obtain ch0 where ch0: "ensure_epoch_validators_seeded ch = Some ch0"
    by (auto simp: consider_competing_block_def bind_eq_Some_conv)
  have ok0: "mempool_ok (ch_inner ch0)" using assms(2) mempool_ok_same ensure_seeded(3) [OF ch0] by blast
  have maybe: "mempool_ok (ch_inner ch')" if "maybe_reorg_to_best_branch env k f ov ch1 = Some (r, ch')" "mempool_ok (ch_inner ch1)" for k f ch1
    using that execute_reorg_mempool
    by (auto simp: maybe_reorg_to_best_branch_def Let_def bind_eq_Some_conv split: if_splits option.splits)
  show ?thesis
    using assms(1) ok0 by (auto simp: consider_competing_block_def ch0 Let_def bind_eq_Some_conv split: if_splits intro: maybe)
qed

lemma ingest_mempool:
  assumes "ingest_raw_tx env now raw ch = (r, ch')" "mempool_ok (ch_inner ch)"
  shows "mempool_ok (ch_inner ch')"
proof (cases r)
  case (Inl e)
  then show ?thesis using assms by (auto simp: ingest_raw_tx_def Let_def split: sum.splits option.splits)
next
  case (Inr h)
  with assms(1) obtain p where p: "mempool_gate (ch_inner ch) now p = None"
      "in_mempool (ch_inner ch') = in_mempool (ch_inner ch) @ [p]"
    by (auto simp: ingest_raw_tx_def Let_def split: sum.splits option.splits)
  then have "length (in_mempool (ch_inner ch)) < MEMPOOL_MAX_TXS"
      "length (pending_of (ch_inner ch) (pt_from p)) < MEMPOOL_MAX_PER_SENDER"
    by (auto simp: mempool_gate_def Let_def split: if_splits)
  then show ?thesis using assms(2) p(2) by (auto simp: mempool_ok_def pending_of_def)
qed

lemma node_step_mempool:
  assumes "node_step env ch ch'" "node_ok env ch" "mempool_ok (ch_inner ch)"
  shows "mempool_ok (ch_inner ch')"
  using assms(1)
proof (cases rule: node_step.cases)
  case (produce ts v b)
  let ?ch = "ch\<lparr>ch_inner := (ch_inner ch)\<lparr>in_mempool := []\<rparr>\<rparr>"
  have "node_ok env ?ch" using assms(2) drop_mempool_ok by blast
  from execute_block_cases(10) [OF produce_parts [OF produce] latest_block_linked(1) [OF chain_linked [OF this]]]
  show ?thesis by (simp add: mempool_ok_def pending_of_def)
next
  case (receive wb ov r)
  then show ?thesis using validate_mempool mempool_ok_sub assms(3) by blast
next
  case (compete wb ov r)
  then show ?thesis using consider_mempool assms(3) by blast
next
  case (submit now raw r)
  then show ?thesis using ingest_mempool assms(3) by blast
next
  case (cache raws)
  then show ?thesis using mempool_ok_same [OF assms(3)] by simp
qed

lemma node_run_mempool: "node_run env ch \<Longrightarrow> mempool_ok (ch_inner ch)"
proof (induction rule: node_run.induct)
  case (start cid t key s)
  then show ?case by (simp add: boot_def chain_new_def Let_def mempool_ok_def pending_of_def)
next
  case (step ch ch')
  then show ?case using node_step_mempool node_run_ok by blast
qed

section \<open>Headers\<close>

lemma header_preimage_inject:
  assumes "number < 2 ^ 64" "number' < 2 ^ 64" "ts < 2 ^ 64" "ts' < 2 ^ 64" "view < 2 ^ 32" "view' < 2 ^ 32"
    and "header_preimage number ph ts view tr sr p = header_preimage number' ph' ts' view' tr' sr' p'"
  shows "number = number' \<and> ph = ph' \<and> ts = ts' \<and> view = view' \<and> tr = tr' \<and> sr = sr' \<and> p = p'"
  using assms
  by (simp add: header_preimage_def be_bytes_inject)

section \<open>Validation agrees with production\<close>

lemma build_block_follower:
  assumes "key = Some k" "b = build_block kec parent ts view n key None stored s"
  shows "build_block kec parent ts view n key' (Some (bk_proposer b, bk_proposer_sig b)) stored s = b"
    and "bk_proposer b = evm_address kec (pk_public_key k)" "bk_proposer_sig b = sign_prehash k (bk_hash b)"
  using assms by (simp_all add: build_block_def Let_def seal_header_def)

lemma execute_block_some:
  assumes "latest_block (ch_inner ch) = Some parent"
    and "exec_txs (ne_kernel env) (block_ctx_of (ne_keccak256 env) parent ts view) 0
       ((ch_inner ch)\<lparr>in_state := fst (open_epoch (bk_number parent + 1) (in_state (ch_inner ch)) None)\<rparr>) pending
     = Some (stored, g1)"
    and "exec_sweeps (ne_kernel env) (block_ctx_of (ne_keccak256 env) parent ts view) stored g1 = (stored', g2)"
  shows "\<exists>ch'. execute_block env pending ts view po ch =
      Some (build_block (ne_keccak256 env) parent ts view (length pending) (ch_proposer_key ch) po stored' (in_state g2), ch')
      \<and> in_state (ch_inner ch') = in_state g2"
proof -
  let ?e = "open_epoch (bk_number parent + 1) (in_state (ch_inner ch)) (ch_genesis_anchor ch)"
  have "fst ?e = fst (open_epoch (bk_number parent + 1) (in_state (ch_inner ch)) None)" by (rule open_epoch_state)
  then show ?thesis using assms
    by (cases ?e) (simp add: execute_block_def Let_def block_ctx_of_def append_block_def)
qed

lemma decode_all_map:
  "decode_all env cid raws = Some ps \<longleftrightarrow> map (decode_pending_tx (ne_decode_2718 env) (ne_abi env) cid) raws = map Inr ps"
  by (induction raws arbitrary: ps) (auto split: sum.splits)

definition wire_of :: "block \<Rightarrow> byte list list \<Rightarrow> wire_block" where
  "wire_of b raws = \<lparr>wb_number = bk_number b, wb_parent_hash = bk_parent_hash b, wb_timestamp = bk_timestamp b,
     wb_view = bk_view b, wb_txs_root = bk_txs_root b, wb_state_root = bk_state_root b,
     wb_proposer = bk_proposer b, wb_proposer_sig = bk_proposer_sig b, wb_raw_txs = raws\<rparr>"

lemma produced_block_validates:
  assumes prod: "produce_block_at_view env ts view A = Some (b, A')"
    and parent: "latest_block (ch_inner A) = Some parent" "latest_block (ch_inner B0) = Some parent"
    and B: "ensure_epoch_validators_seeded B = Some B0" "in_state (ch_inner B0) = in_state (ch_inner A)"
    and key: "ch_proposer_key A = Some k"
    and recovers: "\<And>h. recover_proposer env h (sign_prehash k h) = Some (evm_address (ne_keccak256 env) (pk_public_key k))"
    and sched: "scheduled_proposer (in_state (ch_inner A)) (bk_number parent + 1) view ov
        = Some (evm_address (ne_keccak256 env) (pk_public_key k))"
    and time: "bk_timestamp parent < ts" "view < VIEW_MAX"
    and raws: "decode_all env (ch_chain_id B) raws = Some (in_mempool (ch_inner A))"
  shows "\<exists>B'. validate_and_apply_block env (wire_of b raws) ov B = Some (Inr b, B')
    \<and> in_state (ch_inner B') = in_state (ch_inner A')"
proof -
  let ?A = "A\<lparr>ch_inner := (ch_inner A)\<lparr>in_mempool := []\<rparr>\<rparr>" and ?kec = "ne_keccak256 env"
  let ?ctx = "block_ctx_of ?kec parent ts view" and ?ps = "in_mempool (ch_inner A)"
  have latestA: "latest_block (ch_inner ?A) = Some parent" using parent(1) by (simp add: latest_block_def split: if_splits)
  note ex = produce_parts [OF prod]
  note e = execute_block_cases [OF ex latestA]
  obtain stored g1 stored' g2 where
    txs: "exec_txs (ne_kernel env) ?ctx 0
       ((ch_inner ?A)\<lparr>in_state := fst (open_epoch (bk_number parent + 1) (in_state (ch_inner ?A)) None)\<rparr>) ?ps = Some (stored, g1)"
    and sw: "exec_sweeps (ne_kernel env) ?ctx stored g1 = (stored', g2)"
    and b: "b = build_block ?kec parent ts view (length ?ps) (ch_proposer_key ?A) None stored' (in_state g2)"
    and A': "in_state (ch_inner A') = in_state g2"
    by (rule execute_block_parts [OF ex latestA]) (simp add: append_block_def)
  have st: "in_state ((ch_inner B0)\<lparr>in_state := fst (open_epoch (bk_number parent + 1) (in_state (ch_inner B0)) None)\<rparr>)
    = in_state ((ch_inner ?A)\<lparr>in_state := fst (open_epoch (bk_number parent + 1) (in_state (ch_inner ?A)) None)\<rparr>)"
    using B(2) by simp
  obtain h1 where txsB: "exec_txs (ne_kernel env) ?ctx 0
       ((ch_inner B0)\<lparr>in_state := fst (open_epoch (bk_number parent + 1) (in_state (ch_inner B0)) None)\<rparr>) ?ps = Some (stored, h1)"
    and h1: "in_state h1 = in_state g1"
    using exec_txs_cong [OF txs st] by blast
  obtain h2 where swB: "exec_sweeps (ne_kernel env) ?ctx stored h1 = (stored', h2)" and h2: "in_state h2 = in_state g2"
    using exec_sweeps_kernel(4) [OF sw h1] by blast
  note follower = build_block_follower [of "ch_proposer_key ?A" k b, OF _ b]
  obtain B1 where B1: "execute_block env ?ps ts view (Some (bk_proposer b, bk_proposer_sig b)) B0 = Some (b, B1)"
      "in_state (ch_inner B1) = in_state g2"
    using execute_block_some [OF parent(2) txsB swB, of "Some (bk_proposer b, bk_proposer_sig b)"] follower(1) key h2 by auto
  have hh: "header_hash ?kec (wire_of b raws) = bk_hash b"
    using e(7) by (simp add: header_hash_def wire_of_def block_header_hash_def)
  have chk: "check_header env B0 parent (wire_of b raws) ov = Inr (bk_hash b)"
    unfolding check_header_accepts hh using e(2-5) time sched B(2) follower(2,3) key recovers
    by (simp add: wire_of_def)
  have cid: "ch_chain_id B0 = ch_chain_id B" using ensure_seeded(7) [OF B(1)] .
  have "validate_and_apply_block env (wire_of b raws) ov B
      = Some (Inr b, B1\<lparr>ch_inner := prune_mempool b (ch_inner B1)\<rparr>)"
    using B(1) parent(2) chk raws cid B1(1) e(4,5) by (simp add: validate_and_apply_block_def wire_of_def)
  then show ?thesis using B1(2) A' by simp
qed

section \<open>A concrete node\<close>

definition demo_node :: node_env where
  "demo_node = \<lparr>ne_kernel = demo_env\<lparr>ke_keccak256 := (\<lambda>bs. of_nat (be_nat bs))\<rparr>, ne_decode_2718 = (\<lambda>_. Inl []),
     ne_abi = demo_abi [], ne_recover_key = (\<lambda>_ _ _. Some [])\<rparr>"

definition demo_key :: proposer_key where
  "demo_key = \<lparr>pk_public_key = [], pk_sign_recoverable = (\<lambda>_. (replicate 64 0, 0))\<rparr>"

definition demo_chain :: chain where
  "demo_chain = boot demo_node 42 100 (Some demo_key) mem_state_new"

abbreviation demo_proposer :: address where
  "demo_proposer \<equiv> evm_address (ne_keccak256 demo_node) (pk_public_key demo_key)"

lemma demo_recovers: "recover_proposer demo_node h (sign_prehash demo_key h) = Some demo_proposer"
  by (simp add: recover_proposer_def sign_prehash_def demo_key_def demo_node_def nth_append)

lemma demo_chain_fields:
  "in_mempool (ch_inner demo_chain) = []" "length (in_blocks (ch_inner demo_chain)) = 1"
  "in_state (ch_inner demo_chain) = mem_state_new" "ch_proposer_key demo_chain = Some demo_key"
  "bk_number (List.last (in_blocks (ch_inner demo_chain))) = 0" "bk_timestamp (List.last (in_blocks (ch_inner demo_chain))) = 100"
  "latest_block (ch_inner demo_chain) = Some (List.last (in_blocks (ch_inner demo_chain)))"
  "in_blocks (ch_inner demo_chain) \<noteq> []"
  by (simp_all add: demo_chain_def boot_def chain_new_def Let_def latest_block_def)

lemma demo_run: "node_run demo_node demo_chain"
  unfolding demo_chain_def by (rule node_run.start)

lemma demo_ensure: "\<exists>ch'. ensure_epoch_validators_seeded demo_chain = Some ch'
    \<and> latest_block (ch_inner ch') = latest_block (ch_inner demo_chain) \<and> in_state (ch_inner ch') = mem_state_new"
proof -
  have "refresh_epoch_validators mem_state_new 0 = mem_state_new"
    by (simp add: refresh_epoch_validators_def set_epoch_validators_def compute_validator_membership_def
        mem_state_new_def active_jurors_def fm_values_eq sorted_list_of_fset.rep_eq sort_dedup_def)
  then show ?thesis
    by (simp add: ensure_epoch_validators_seeded_def Let_def demo_chain_fields latest_block_def)
qed

lemma demo_produces: "\<exists>b ch'. produce_block_at_view demo_node 110 0 demo_chain = Some (b, ch')"
proof -
  let ?A = "demo_chain\<lparr>ch_inner := (ch_inner demo_chain)\<lparr>in_mempool := []\<rparr>\<rparr>"
  let ?parent = "List.last (in_blocks (ch_inner demo_chain))"
  have l: "latest_block (ch_inner ?A) = Some ?parent" using demo_chain_fields(2) by (auto simp: latest_block_def)
  obtain st g2 where sw: "exec_sweeps (ne_kernel demo_node) (block_ctx_of (ne_keccak256 demo_node) ?parent 110 0) []
      ((ch_inner ?A)\<lparr>in_state := fst (open_epoch (bk_number ?parent + 1) (in_state (ch_inner ?A)) None)\<rparr>) = (st, g2)"
    by fastforce
  have "exec_txs (ne_kernel demo_node) (block_ctx_of (ne_keccak256 demo_node) ?parent 110 0) 0
      ((ch_inner ?A)\<lparr>in_state := fst (open_epoch (bk_number ?parent + 1) (in_state (ch_inner ?A)) None)\<rparr>) []
      = Some ([], (ch_inner ?A)\<lparr>in_state := fst (open_epoch (bk_number ?parent + 1) (in_state (ch_inner ?A)) None)\<rparr>)"
    by simp
  from execute_block_some [OF l this sw, of None] show ?thesis
    by (auto simp: produce_block_at_view_def Let_def demo_chain_fields)
qed

section \<open>Properties\<close>

text \<open>
  C3: The chain a node holds is well formed, whatever it does. In every reachable state the canonical
  blocks are numbered by their position, each carries the hash of its own header and names its parent's
  hash; the index finds only canonical blocks; the state of the node has the root its head commits to;
  and every retained fork block is stored under the hash of its header, at most 256 of them.
\<close>

theorem chain_invariant:
  assumes "node_run env ch"
  shows "let g = ch_inner ch; bs = in_blocks g; kec = ne_keccak256 env in
    bs \<noteq> [] \<and> (\<forall>i < length bs. bk_number (bs ! i) = i \<and> bk_hash (bs ! i) = block_header_hash kec (bs ! i))
    \<and> (\<forall>i. Suc i < length bs \<longrightarrow> bk_parent_hash (bs ! Suc i) = bk_hash (bs ! i))
    \<and> (\<forall>h i. fmlookup (in_blocks_by_hash g) h = Some i \<longrightarrow> i < length bs \<and> bk_hash (bs ! i) = h)
    \<and> (1 < length bs \<longrightarrow> bk_state_root (List.last bs) = state_root (in_state g))
    \<and> (\<forall>h e. fmlookup (ch_fork_store ch) h = Some e \<longrightarrow> fb_hash e = h \<and> header_hash kec e = h)
    \<and> size (fmdom (ch_fork_store ch)) \<le> 256"
proof -
  have ok: "node_ok env ch" by (rule node_run_ok [OF assms])
  then have parts: "linked (ne_keccak256 env) (in_blocks (ch_inner ch))" "indexed (ch_inner ch)" "rooted (ch_inner ch)"
      "store_ok (ne_keccak256 env) (ch_fork_store ch)" "size (fmdom (ch_fork_store ch)) \<le> 256"
    by (simp_all add: node_ok_def inner_ok_def MAX_FORK_STORE_def)
  have root: "1 < length (in_blocks (ch_inner ch)) \<longrightarrow>
      bk_state_root (List.last (in_blocks (ch_inner ch))) = state_root (in_state (ch_inner ch))"
    using parts(3) latest_block_linked(2) [OF parts(1)] by (simp add: rooted_def)
  show ?thesis
    using parts(1) [unfolded linked_def] parts(2) [unfolded indexed_def] root parts(4) [unfolded store_ok_def] parts(5)
    unfolding Let_def by blast
qed

theorem chain_invariant_witness:
  "\<exists>ch'. node_step demo_node demo_chain ch' \<and> bk_state_root (List.last (in_blocks (ch_inner ch'))) = state_root (in_state (ch_inner ch'))"
proof -
  obtain b ch' where p: "produce_block_at_view demo_node 110 0 demo_chain = Some (b, ch')" using demo_produces by auto
  then have s: "node_step demo_node demo_chain ch'" by (rule node_step.produce)
  have l: "latest_block (ch_inner (demo_chain\<lparr>ch_inner := (ch_inner demo_chain)\<lparr>in_mempool := []\<rparr>\<rparr>))
      = Some (List.last (in_blocks (ch_inner demo_chain)))"
    using demo_chain_fields(2) by (auto simp: latest_block_def)
  have "length (in_blocks (ch_inner ch')) = 2"
    using execute_block_cases(8) [OF produce_parts [OF p] l] demo_chain_fields(2) by simp
  then show ?thesis using s chain_invariant [OF node_run.step [OF demo_run s]] by (auto simp: Let_def)
qed

text \<open>
  C2: Finality. Whatever a node does from any reachable state on, however competing blocks arrive, every
  block up to the finalised height stays where it is for ever, and the head only ever moves to a tip that
  fork choice prefers.
\<close>

theorem finality:
  assumes "node_run env ch" "(node_step env)\<^sup>*\<^sup>* ch ch'" "finalized_height ch = Some fin" "h \<le> fin"
  shows "block_at ch' h = block_at ch h \<and> block_at ch h \<noteq> None
    \<and> (head_key (ch_inner ch') = head_key (ch_inner ch)
       \<or> fork_choice_prefers (head_key (ch_inner ch')) (head_key (ch_inner ch)))"
proof -
  let ?bs = "in_blocks (ch_inner ch)" and ?bs' = "in_blocks (ch_inner ch')"
  have ok: "node_ok env ch" by (rule node_run_ok [OF assms(1)])
  note lk = latest_block_linked [OF chain_linked [OF ok]]
  have fin: "fin = length ?bs - 1 - FINALITY_DEPTH" "fst (head_key (ch_inner ch)) = length ?bs - 1"
    using assms(3) lk by (auto simp: finalized_height_def tip_def head_key_def Let_def)
  have ne: "?bs \<noteq> []" using chain_linked [OF ok] by (simp add: linked_def)
  from node_steps_progress [OF ok assms(2)] have pr: "progresses (ch_inner ch) (ch_inner ch')" by simp
  then have same: "take (Suc fin) ?bs' = take (Suc fin) ?bs" using fin by (simp add: progresses_def Let_def)
  have "length (take (Suc fin) ?bs) = Suc fin" using fin(1) ne by (cases ?bs) auto
  then have len: "Suc fin \<le> length ?bs'" "Suc fin \<le> length ?bs" using arg_cong [OF same, of length] by auto
  have "?bs' ! h = ?bs ! h" using same assms(4) by (metis le_imp_less_Suc nth_take)
  then show ?thesis using pr len assms(4) by (simp add: block_at_def progresses_def)
qed

theorem finality_witness:
  "\<exists>ch'. node_step demo_node demo_chain ch' \<and> block_at ch' 0 = block_at demo_chain 0 \<and> block_at demo_chain 0 \<noteq> None"
proof -
  obtain b ch' where "produce_block_at_view demo_node 110 0 demo_chain = Some (b, ch')" using demo_produces by auto
  then have s: "node_step demo_node demo_chain ch'" by (rule node_step.produce)
  have "finalized_height demo_chain = Some 0"
    by (simp add: finalized_height_def tip_def demo_chain_fields)
  from finality [OF demo_run r_into_rtranclp [where r = "node_step demo_node", OF s] this] show ?thesis using s by auto
qed

text \<open>
  C20: Fork choice is a strict total order on tips, and the branch a node picks from its store does not
  depend on the order in which the store is read: any listing of the retained blocks gives the same answer.
\<close>

theorem fork_choice_canonical:
  "\<not> fork_choice_prefers a a
   \<and> (fork_choice_prefers a b \<and> fork_choice_prefers b c \<longrightarrow> fork_choice_prefers a c)
   \<and> (a = b \<or> fork_choice_prefers a b \<or> fork_choice_prefers b a)
   \<and> (node_run env ch \<and> set es = {e. \<exists>h. fmlookup (ch_fork_store ch) h = Some e} \<longrightarrow>
       best_branch (ch_fork_store ch) (ch_inner ch) kt fin es None
       = best_branch (ch_fork_store ch) (ch_inner ch) kt fin (fm_values (ch_fork_store ch)) None)"
proof -
  have "best_branch (ch_fork_store ch) (ch_inner ch) kt fin es None
       = best_branch (ch_fork_store ch) (ch_inner ch) kt fin (fm_values (ch_fork_store ch)) None"
    if "node_run env ch" "set es = {e. \<exists>h. fmlookup (ch_fork_store ch) h = Some e}"
    using best_branch_order [OF _ _ that(2), of "ne_keccak256 env" "ch_inner ch" kt fin] node_run_ok [OF that(1)]
    by (simp add: node_ok_def inner_ok_def)
  then show ?thesis using prefers_irrefl prefers_trans prefers_total by blast
qed

theorem fork_choice_canonical_witness:
  "best_branch (ch_fork_store demo_chain) (ch_inner demo_chain) (0, 0, 0) 0 [] None
     = best_branch (ch_fork_store demo_chain) (ch_inner demo_chain) (0, 0, 0) 0 (fm_values (ch_fork_store demo_chain)) None
   \<and> fork_choice_prefers (7, 0, 9) (7, 1, 3)"
proof -
  have "fmlookup (ch_fork_store demo_chain) h = None" for h
    by (simp add: demo_chain_def boot_def chain_new_def Let_def)
  then show ?thesis
    using fork_choice_canonical [of "(0, 0, 0)" "(0, 0, 0)" "(0, 0, 0)" demo_node demo_chain "[]" "(0, 0, 0)" 0] demo_run
    by (simp add: fork_choice_prefers_def)
qed

end
