(* ===== verification/Wire.thy ===== *)
theory Wire
  imports Chain_Node
begin

text \<open>
  The network's messages (\<^verbatim>\<open>crates/network/src/wire.rs\<close>, \<^verbatim>\<open>codec.rs\<close>): the reader over received bytes,
  transactions, blocks, the handshake, block ranges, the genesis anchor, the request and response
  envelopes, the gateway's frames and the length-prefixed frame of a stream. A block of the wire is the
  record \<open>wire_block\<close> of the chain. Integers are big-endian; variable fields carry a 32-bit length.
\<close>

section \<open>Bounds and errors\<close>

definition SYNC_MAX_BATCH :: u64 where [const_defs]: "SYNC_MAX_BATCH = 128"
definition PROTOCOL_VERSION :: nat where [const_defs]: "PROTOCOL_VERSION = 2"
definition MAX_TX_BYTES :: usize where [const_defs]: "MAX_TX_BYTES = 128 * 1024"
definition MAX_BLOCK_BYTES :: usize where [const_defs]: "MAX_BLOCK_BYTES = 8 * 1024 * 1024"
definition MAX_SYNC_FRAME :: u64 where [const_defs]: "MAX_SYNC_FRAME = SYNC_MAX_BATCH * MAX_BLOCK_BYTES + 2 ^ 20"

datatype WireError =
    Truncated
  | TooLong
  | TrailingBytes
  | Invalid string

section \<open>The reader\<close>

type_synonym 'a wire_reader = "(WireError, 'a) parser"

text \<open>A buffer of a program is shorter than \<open>2 ^ 64\<close>, so \<^verbatim>\<open>checked_add\<close> fails only past its end.\<close>

definition reader_take :: "usize \<Rightarrow> byte list wire_reader" where
  "reader_take n r =
     (if cur_pos r + n > length (cur_buf r)
      then Inl (if cur_pos r + n > U64_MAX then TooLong else Truncated)
      else Inr (take n (drop (cur_pos r) (cur_buf r)), r\<lparr>cur_pos := cur_pos r + n\<rparr>))"

definition reader_u8 :: "u8 wire_reader" where
  "reader_u8 = and_then (reader_take 1) (\<lambda>b. yields (unat (b ! 0)))"

definition reader_u16 :: "nat wire_reader" where
  "reader_u16 = and_then (reader_take 2) (\<lambda>b. yields (be_nat b))"

definition reader_u32 :: "u32 wire_reader" where
  "reader_u32 = and_then (reader_take 4) (\<lambda>b. yields (be_nat b))"

definition reader_u64 :: "u64 wire_reader" where
  "reader_u64 = and_then (reader_take 8) (\<lambda>b. yields (be_nat b))"

definition reader_b256 :: "hash wire_reader" where
  "reader_b256 = and_then (reader_take 32) (\<lambda>b. yields (hash_of_bytes b))"

definition reader_address :: "address wire_reader" where
  "reader_address = and_then (reader_take 20) (\<lambda>b. yields (addr_of_bytes b))"

definition fails :: "'e \<Rightarrow> ('e, 'a) parser" where
  "fails e r = Inl e"

definition reader_bytes :: "usize \<Rightarrow> byte list wire_reader" where
  "reader_bytes max_len = and_then reader_u32 (\<lambda>n. if n > max_len then fails TooLong else reader_take n)"

definition reader_finish :: "unit wire_reader" where
  "reader_finish r = (if cur_pos r = length (cur_buf r) then Inr ((), r) else Inl TrailingBytes)"

definition put_bytes :: "byte list \<Rightarrow> byte list" where
  "put_bytes b = be_bytes 4 (length b) @ b"

text \<open>A loop that reads \<open>n\<close> items, and a reader of a whole buffer.\<close>

primrec read_times :: "nat \<Rightarrow> ('e, 'a) parser \<Rightarrow> ('e, 'a list) parser" where
  "read_times 0 rd = yields []"
| "read_times (Suc n) rd = and_then rd (\<lambda>x. and_then (read_times n rd) (\<lambda>xs. yields (x # xs)))"

definition read_whole :: "'a wire_reader \<Rightarrow> byte list \<Rightarrow> WireError + 'a" where
  "read_whole rd buf =
     (case and_then rd (\<lambda>v. and_then reader_finish (\<lambda>_. yields v)) (cursor_new buf) of
        Inl e \<Rightarrow> Inl e
      | Inr (v, _) \<Rightarrow> Inr v)"

section \<open>Transactions\<close>

definition tx_announce_message_id :: "keccak \<Rightarrow> byte list \<Rightarrow> hash" where
  "tx_announce_message_id keccak256 raw = keccak256 raw"

definition tx_announce_decode :: "byte list \<Rightarrow> WireError + byte list" where
  "tx_announce_decode buf =
     (if buf = [] then Inl Truncated else if length buf > MAX_TX_BYTES then Inl TooLong else Inr buf)"

section \<open>Blocks\<close>

definition wire_header_preimage :: "wire_block \<Rightarrow> byte list" where
  "wire_header_preimage b =
     be_bytes 8 (wb_number b) @ hash_bytes (wb_parent_hash b) @ be_bytes 8 (wb_timestamp b) @ be_bytes 4 (wb_view b)
     @ hash_bytes (wb_txs_root b) @ hash_bytes (wb_state_root b) @ addr_bytes (wb_proposer b)"

definition wire_hash :: "keccak \<Rightarrow> wire_block \<Rightarrow> hash" where
  "wire_hash keccak256 b = keccak256 (wire_header_preimage b)"

definition recompute_txs_root :: "keccak \<Rightarrow> wire_block \<Rightarrow> hash" where
  "recompute_txs_root keccak256 b =
     keccak256 (be_bytes 8 (length (wb_raw_txs b)) @ concat (map (hash_bytes \<circ> keccak256) (wb_raw_txs b)))"

definition block_encode :: "wire_block \<Rightarrow> byte list" where
  "block_encode b =
     be_bytes 8 (wb_number b) @ hash_bytes (wb_parent_hash b) @ be_bytes 8 (wb_timestamp b) @ be_bytes 4 (wb_view b)
     @ hash_bytes (wb_txs_root b) @ hash_bytes (wb_state_root b) @ addr_bytes (wb_proposer b)
     @ put_bytes (wb_proposer_sig b) @ be_bytes 4 (length (wb_raw_txs b)) @ concat (map put_bytes (wb_raw_txs b))"

text \<open>The light client has its own copy of this reader, with its own bound on a block.\<close>

definition block_read :: "usize \<Rightarrow> wire_block wire_reader" where
  "block_read max_block =
     and_then reader_u64 (\<lambda>number. and_then reader_b256 (\<lambda>parent_hash. and_then reader_u64 (\<lambda>timestamp.
     and_then reader_u32 (\<lambda>view. and_then reader_b256 (\<lambda>txs_root. and_then reader_b256 (\<lambda>root.
     and_then reader_address (\<lambda>proposer. and_then (reader_bytes 65) (\<lambda>proposer_sig.
     and_then reader_u32 (\<lambda>n.
       if n > max_block div 4 then fails TooLong
       else and_then (read_times n (reader_bytes MAX_TX_BYTES)) (\<lambda>txs.
         yields \<lparr>wb_number = number, wb_parent_hash = parent_hash, wb_timestamp = timestamp, wb_view = view,
           wb_txs_root = txs_root, wb_state_root = root, wb_proposer = proposer, wb_proposer_sig = proposer_sig,
           wb_raw_txs = txs\<rparr>))))))))))"

definition block_decode :: "byte list \<Rightarrow> WireError + wire_block" where
  "block_decode buf =
     (if length buf > MAX_BLOCK_BYTES then Inl TooLong else read_whole (block_read MAX_BLOCK_BYTES) buf)"

definition recover_secp256k1 :: "node_env \<Rightarrow> hash \<Rightarrow> byte list \<Rightarrow> address option" where
  "recover_secp256k1 env digest sig =
     (if length sig \<noteq> 65 then None
      else if unat (sig ! 64) < 27 then None
      else
        (case ne_recover_key env digest (take 64 sig) (unat (sig ! 64) - 27) of
           None \<Rightarrow> None
         | Some pubkey \<Rightarrow> Some (evm_address (ne_keccak256 env) pubkey)))"

definition wire_recover_proposer :: "node_env \<Rightarrow> wire_block \<Rightarrow> address option" where
  "wire_recover_proposer env b = recover_secp256k1 env (wire_hash (ne_keccak256 env) b) (wb_proposer_sig b)"

definition shallow_verify :: "node_env \<Rightarrow> wire_block \<Rightarrow> bool" where
  "shallow_verify env b =
     (if recompute_txs_root (ne_keccak256 env) b \<noteq> wb_txs_root b then False
      else if wb_proposer_sig b = [] then False
      else (case wire_recover_proposer env b of Some a \<Rightarrow> a = wb_proposer b | None \<Rightarrow> False))"

section \<open>The handshake\<close>

record hello =
  hl_genesis_hash :: hash
  hl_chain_id :: u64
  hl_tip :: "u64 \<times> hash"
  hl_validator :: "address option"
  hl_peer_proof :: "byte list"
  hl_protocol_ver :: nat

definition proof_digest :: "keccak \<Rightarrow> byte list \<Rightarrow> hash \<Rightarrow> hash" where
  "proof_digest keccak256 peer_id_bytes genesis_hash = keccak256 (peer_id_bytes @ hash_bytes genesis_hash)"

definition hello_encode :: "hello \<Rightarrow> byte list" where
  "hello_encode h =
     hash_bytes (hl_genesis_hash h) @ be_bytes 8 (hl_chain_id h) @ be_bytes 8 (fst (hl_tip h)) @ hash_bytes (snd (hl_tip h))
     @ (case hl_validator h of Some a \<Rightarrow> 1 # addr_bytes a | None \<Rightarrow> [0])
     @ put_bytes (hl_peer_proof h) @ be_bytes 2 (hl_protocol_ver h)"

definition read_validator :: "address option wire_reader" where
  "read_validator = and_then reader_u8 (\<lambda>t.
     if t = 0 then yields None
     else if t = 1 then and_then reader_address (\<lambda>a. yields (Some a))
     else fails (Invalid ''validator-tag''))"

definition hello_decode :: "byte list \<Rightarrow> WireError + hello" where
  "hello_decode = read_whole (
     and_then reader_b256 (\<lambda>genesis_hash. and_then reader_u64 (\<lambda>chain_id. and_then reader_u64 (\<lambda>tip_h.
     and_then reader_b256 (\<lambda>tip_hash. and_then read_validator (\<lambda>validator. and_then (reader_bytes 65) (\<lambda>peer_proof.
     and_then reader_u16 (\<lambda>protocol_ver.
       yields \<lparr>hl_genesis_hash = genesis_hash, hl_chain_id = chain_id, hl_tip = (tip_h, tip_hash),
         hl_validator = validator, hl_peer_proof = peer_proof, hl_protocol_ver = protocol_ver\<rparr>))))))))"

definition verify_binding :: "node_env \<Rightarrow> byte list \<Rightarrow> hello \<Rightarrow> address option" where
  "verify_binding env peer_id_bytes h =
     (case hl_validator h of
        None \<Rightarrow> None
      | Some claimed \<Rightarrow>
          if hl_peer_proof h = [] then None
          else
            (case recover_secp256k1 env (proof_digest (ne_keccak256 env) peer_id_bytes (hl_genesis_hash h))
                    (hl_peer_proof h) of
               Some a \<Rightarrow> if a = claimed then Some a else None
             | None \<Rightarrow> None))"

section \<open>Synchronisation\<close>

record get_blocks =
  gb_from :: u64
  gb_to :: u64

definition get_blocks_encode :: "get_blocks \<Rightarrow> byte list" where
  "get_blocks_encode g = be_bytes 8 (gb_from g) @ be_bytes 8 (gb_to g)"

definition get_blocks_decode :: "byte list \<Rightarrow> WireError + get_blocks" where
  "get_blocks_decode = read_whole (and_then reader_u64 (\<lambda>frm. and_then reader_u64 (\<lambda>to.
     yields \<lparr>gb_from = frm, gb_to = to\<rparr>)))"

definition get_genesis_decode :: "byte list \<Rightarrow> WireError + unit" where
  "get_genesis_decode buf = (if buf = [] then Inr () else Inl TrailingBytes)"

record genesis =
  gn_genesis_hash :: hash
  gn_chain_id :: u64
  gn_state_root :: hash
  gn_genesis_time :: u64
  gn_proposer :: address
  gn_snapshot :: "byte list"

definition genesis_encode :: "genesis \<Rightarrow> byte list" where
  "genesis_encode g =
     hash_bytes (gn_genesis_hash g) @ be_bytes 8 (gn_chain_id g) @ hash_bytes (gn_state_root g)
     @ be_bytes 8 (gn_genesis_time g) @ addr_bytes (gn_proposer g) @ put_bytes (gn_snapshot g)"

definition genesis_decode :: "byte list \<Rightarrow> WireError + genesis" where
  "genesis_decode = read_whole (
     and_then reader_b256 (\<lambda>genesis_hash. and_then reader_u64 (\<lambda>chain_id. and_then reader_b256 (\<lambda>root.
     and_then reader_u64 (\<lambda>genesis_time. and_then reader_address (\<lambda>proposer.
     and_then (reader_bytes MAX_BLOCK_BYTES) (\<lambda>snapshot.
       yields \<lparr>gn_genesis_hash = genesis_hash, gn_chain_id = chain_id, gn_state_root = root,
         gn_genesis_time = genesis_time, gn_proposer = proposer, gn_snapshot = snapshot\<rparr>)))))))"

definition blocks_encode :: "wire_block list \<Rightarrow> byte list" where
  "blocks_encode bs = be_bytes 4 (length bs) @ concat (map (put_bytes \<circ> block_encode) bs)"

definition read_block_blob :: "wire_block wire_reader" where
  "read_block_blob = and_then (reader_bytes MAX_BLOCK_BYTES) (\<lambda>raw.
     case block_decode raw of Inl e \<Rightarrow> fails e | Inr b \<Rightarrow> yields b)"

definition blocks_decode :: "byte list \<Rightarrow> WireError + wire_block list" where
  "blocks_decode = read_whole (and_then reader_u32 (\<lambda>n.
     if n > SYNC_MAX_BATCH then fails TooLong else read_times n read_block_blob))"

section \<open>Envelopes\<close>

definition SYNC_TAG_HELLO :: byte where [const_defs]: "SYNC_TAG_HELLO = 0"
definition SYNC_TAG_BLOCKS :: byte where [const_defs]: "SYNC_TAG_BLOCKS = 1"
definition SYNC_TAG_GENESIS :: byte where [const_defs]: "SYNC_TAG_GENESIS = 2"

datatype SyncRequest = HelloRequest hello | GetBlocks get_blocks | GetGenesis

datatype SyncResponse = HelloResponse hello | Blocks "wire_block list" | Genesis genesis

fun sync_request_encode :: "SyncRequest \<Rightarrow> byte list" where
  "sync_request_encode (HelloRequest h) = SYNC_TAG_HELLO # hello_encode h"
| "sync_request_encode (GetBlocks g) = SYNC_TAG_BLOCKS # get_blocks_encode g"
| "sync_request_encode GetGenesis = [SYNC_TAG_GENESIS]"

fun sync_request_decode :: "byte list \<Rightarrow> WireError + SyncRequest" where
  "sync_request_decode [] = Inl Truncated"
| "sync_request_decode (t # bs) =
     (if t = SYNC_TAG_HELLO then map_sum id HelloRequest (hello_decode bs)
      else if t = SYNC_TAG_BLOCKS then map_sum id GetBlocks (get_blocks_decode bs)
      else if t = SYNC_TAG_GENESIS then map_sum id (\<lambda>_. GetGenesis) (get_genesis_decode bs)
      else Inl (Invalid ''sync-request-tag''))"

fun sync_response_encode :: "SyncResponse \<Rightarrow> byte list" where
  "sync_response_encode (HelloResponse h) = SYNC_TAG_HELLO # hello_encode h"
| "sync_response_encode (Blocks bs) = SYNC_TAG_BLOCKS # blocks_encode bs"
| "sync_response_encode (Genesis g) = SYNC_TAG_GENESIS # genesis_encode g"

fun sync_response_decode :: "byte list \<Rightarrow> WireError + SyncResponse" where
  "sync_response_decode [] = Inl Truncated"
| "sync_response_decode (t # bs) =
     (if t = SYNC_TAG_HELLO then map_sum id HelloResponse (hello_decode bs)
      else if t = SYNC_TAG_BLOCKS then map_sum id Blocks (blocks_decode bs)
      else if t = SYNC_TAG_GENESIS then map_sum id Genesis (genesis_decode bs)
      else Inl (Invalid ''sync-response-tag''))"

text \<open>The frame of the WebSocket gateway: a correlation id, zero for a live block, before the body.\<close>

definition SYNC_LIVE_PUSH_ID :: u64 where [const_defs]: "SYNC_LIVE_PUSH_ID = 0"

record 'b sync_frame =
  sf_req_id :: u64
  sf_body :: 'b

definition write_framed :: "u64 \<Rightarrow> byte list \<Rightarrow> byte list" where
  "write_framed req_id body = be_bytes 8 req_id @ body"

definition read_req_id :: "byte list \<Rightarrow> WireError + u64 \<times> byte list" where
  "read_req_id buf = (if length buf < 8 then Inl Truncated else Inr (be_nat (take 8 buf), drop 8 buf))"

definition request_frame_encode :: "SyncRequest sync_frame \<Rightarrow> byte list" where
  "request_frame_encode f = write_framed (sf_req_id f) (sync_request_encode (sf_body f))"

definition request_frame_decode :: "byte list \<Rightarrow> WireError + SyncRequest sync_frame" where
  "request_frame_decode buf =
     (case read_req_id buf of
        Inl e \<Rightarrow> Inl e
      | Inr (req_id, body) \<Rightarrow>
          map_sum id (\<lambda>m. \<lparr>sf_req_id = req_id, sf_body = m\<rparr>) (sync_request_decode body))"

definition response_frame_encode :: "SyncResponse sync_frame \<Rightarrow> byte list" where
  "response_frame_encode f = write_framed (sf_req_id f) (sync_response_encode (sf_body f))"

definition response_frame_decode :: "byte list \<Rightarrow> WireError + SyncResponse sync_frame" where
  "response_frame_decode buf =
     (case read_req_id buf of
        Inl e \<Rightarrow> Inl e
      | Inr (req_id, body) \<Rightarrow>
          map_sum id (\<lambda>m. \<lparr>sf_req_id = req_id, sf_body = m\<rparr>) (sync_response_decode body))"

text \<open>The frame of a stream; what follows it stays in the stream.\<close>

datatype FrameError = UnexpectedEof | InvalidData WireError | FrameExceedsMax

definition read_frame :: "byte list \<Rightarrow> FrameError + byte list \<times> byte list" where
  "read_frame io =
     (if length io < 4 then Inl UnexpectedEof
      else
        let len = be_nat (take 4 io); io = drop 4 io in
        if len > MAX_SYNC_FRAME then Inl FrameExceedsMax
        else if length io < len then Inl UnexpectedEof
        else Inr (take len io, drop len io))"

definition write_frame :: "byte list \<Rightarrow> byte list" where
  "write_frame bs = be_bytes 4 (length bs) @ bs"

definition read_request :: "byte list \<Rightarrow> FrameError + SyncRequest \<times> byte list" where
  "read_request io =
     (case read_frame io of
        Inl e \<Rightarrow> Inl e
      | Inr (buf, io) \<Rightarrow> map_sum InvalidData (\<lambda>m. (m, io)) (sync_request_decode buf))"

definition read_response :: "byte list \<Rightarrow> FrameError + SyncResponse \<times> byte list" where
  "read_response io =
     (case read_frame io of
        Inl e \<Rightarrow> Inl e
      | Inr (buf, io) \<Rightarrow> map_sum InvalidData (\<lambda>m. (m, io)) (sync_response_decode buf))"

end
