(* ===== verification/Wire_Theorems.thy ===== *)
theory Wire_Theorems
  imports Wire
begin

text \<open>
  The network's messages are encoded canonically. Every reader of \<open>Wire\<close> is a \<open>wire_codec\<close>: sequences,
  counted lists and records are composed of the readers of their parts. A decoder then accepts exactly the
  encodings of the messages within the protocol's bounds, so no message has two wire forms.
\<close>

section \<open>Composing readers\<close>

lemma and_then_assoc: "and_then (and_then r f) g = and_then r (\<lambda>x. and_then (f x) g)"
  by (auto simp: fun_eq_iff and_then_def split: sum.splits)

lemma and_then_yields [simp]: "and_then (yields v) f = f v"
  by (simp add: fun_eq_iff and_then_def yields_def)

lemma fails_iff [simp]: "fails e c = Inr x \<longleftrightarrow> False"
  by (simp add: fails_def)

lemma advance_0 [simp]: "advance 0 c = c"
  by (simp add: advance_def)

definition in_turn :: "('e, 'a) parser \<Rightarrow> ('e, 'b) parser \<Rightarrow> ('e, 'a \<times> 'b) parser" where
  "in_turn r1 r2 = and_then r1 (\<lambda>a. and_then r2 (\<lambda>b. yields (a, b)))"

lemma then_in_turn: "and_then (in_turn r1 r2) f = and_then r1 (\<lambda>a. and_then r2 (\<lambda>b. f (a, b)))"
  by (simp add: in_turn_def and_then_assoc)

lemma in_turn_codec:
  assumes "wire_codec r1 w1 v1" "wire_codec r2 w2 v2"
  shows "wire_codec (in_turn r1 r2) (\<lambda>(a, b). w1 a @ w2 b) (\<lambda>(a, b). v1 a \<and> v2 b)"
proof (unfold_locales, goal_cases)
  case (1 c p c')
  note then1 = wire_codec.then_iff [OF assms(1)] and then2 = wire_codec.then_iff [OF assms(2)]
  obtain a b where p: "p = (a, b)" by (cases p)
  show ?case unfolding p in_turn_def then1 then2 by auto
qed

text \<open>A record is a tuple of its fields.\<close>

lemma record_codec:
  assumes "wire_codec r w v" "\<And>x. unmk (mk x) = x" "\<And>y. mk (unmk y) = y"
  shows "wire_codec (and_then r (\<lambda>x. yields (mk x))) (\<lambda>y. w (unmk y)) (\<lambda>y. v (unmk y))"
proof (unfold_locales, goal_cases)
  case (1 c y c')
  show ?case unfolding wire_codec.then_iff [OF assms(1)] by (auto simp: assms(2)) (metis assms(3))+
qed

context wire_codec
begin

lemma read_times_iff:
  "read_times n rd c = Inr (xs, c') \<longleftrightarrow> length xs = n \<and> list_all valid xs
     \<and> c' = advance (length (concat (map writer xs))) c \<and> (\<exists>bs. rest c = concat (map writer xs) @ bs)"
proof (induction n arbitrary: c xs)
  case (Suc n)
  have "read_times (Suc n) rd c = Inr (xs, c') \<longleftrightarrow>
    (\<exists>y ys. xs = y # ys \<and> valid y \<and> (\<exists>bs. rest c = writer y @ bs)
       \<and> read_times n rd (advance (length (writer y)) c) = Inr (ys, c'))"
    by (simp add: then_iff and_then_iff [of "read_times n rd"]) blast
  then show ?case unfolding Suc.IH by (cases xs) auto
qed auto

end

lemma codec_cong:
  assumes "wire_codec r w v" "\<And>c. r' c = r c" "\<And>x. w' x = w x" "\<And>x. v' x \<longleftrightarrow> v x"
  shows "wire_codec r' w' v'"
  using assms by (simp add: wire_codec_def)

lemma and_then_fails [simp]: "and_then (fails e) f = fails e"
  by (simp add: fun_eq_iff and_then_def fails_def)

lemma and_then_if: "and_then (if P then r else r') f = (if P then and_then r f else and_then r' f)"
  by simp

section \<open>The readers of the wire\<close>

lemma takes_reader: "0 < n \<Longrightarrow> takes n (reader_take n)"
  by (auto simp: takes_def reader_take_def rest_def advance_def)

interpretation wire_u8: wire_codec reader_u8 "\<lambda>v. [of_nat v]" "\<lambda>v. v < 256"
  unfolding reader_u8_def by (rule takes_codec [OF takes_reader]) (auto simp: unat_of_nat length_Suc_conv unat_byte_lt)

interpretation wire_u16: wire_codec reader_u16 "be_bytes 2" "\<lambda>v. v < 2 ^ 16"
  unfolding reader_u16_def by (rule takes_be_codec [OF takes_reader]) simp_all

interpretation wire_u32: wire_codec reader_u32 "be_bytes 4" "\<lambda>v. v < 2 ^ 32"
  unfolding reader_u32_def by (rule takes_be_codec [OF takes_reader]) simp_all

interpretation wire_u64: wire_codec reader_u64 "be_bytes 8" "\<lambda>v. v < 2 ^ 64"
  unfolding reader_u64_def by (rule takes_be_codec [OF takes_reader]) simp_all

interpretation wire_b256: wire_codec reader_b256 hash_bytes "\<lambda>_. True"
  unfolding reader_b256_def by (rule takes_codec [OF takes_reader]) (simp_all add: hash_bytes_hash_of)

interpretation wire_address: wire_codec reader_address addr_bytes "\<lambda>_. True"
  unfolding reader_address_def by (rule takes_codec [OF takes_reader]) (simp_all add: addr_bytes_addr_of)

lemma length_put_bytes [simp]: "length (put_bytes b) = 4 + length b"
  by (simp add: put_bytes_def)

lemma bytes_codec:
  assumes "max_len < 2 ^ 32"
  shows "wire_codec (reader_bytes max_len) put_bytes (\<lambda>b. length b \<le> max_len)"
proof (unfold_locales, goal_cases)
  case (1 c b c')
  have inside: "reader_take n (advance 4 c) = Inr (b, c') \<longleftrightarrow>
      n \<le> length bs \<and> b = take n bs \<and> c' = advance (4 + n) c" if "rest c = be_bytes 4 m @ bs" for n m bs
  proof -
    have "length (rest c) = 4 + length bs" using that by simp
    then have "cur_pos c + 4 + length bs = length (cur_buf c)" "drop (cur_pos c + 4) (cur_buf c) = bs"
      using that by (auto simp: rest_def) (metis add.commute append_eq_conv_conj drop_drop length_be_bytes)
    then show ?thesis by (auto simp: reader_take_def advance_def add.assoc)
  qed
  show ?case
  proof
    assume "reader_bytes max_len c = Inr (b, c')"
    then obtain n bs where n: "n < 2 ^ 32" "rest c = be_bytes 4 n @ bs" "n \<le> max_len"
        "reader_take n (advance 4 c) = Inr (b, c')"
      by (auto simp: reader_bytes_def wire_u32.then_iff split: if_splits)
    with inside [OF n(2)] show "length b \<le> max_len \<and> c' = advance (length (put_bytes b)) c \<and> (\<exists>bs. rest c = put_bytes b @ bs)"
      by (auto simp: put_bytes_def intro: exI [of _ "drop n bs"])
  next
    assume *: "length b \<le> max_len \<and> c' = advance (length (put_bytes b)) c \<and> (\<exists>bs. rest c = put_bytes b @ bs)"
    then obtain bs where bs: "rest c = be_bytes 4 (length b) @ b @ bs" by (auto simp: put_bytes_def)
    with * inside [OF bs, of "length b"] show "reader_bytes max_len c = Inr (b, c')"
      unfolding reader_bytes_def wire_u32.then_iff using assms
      by (intro exI [of _ "length b"] exI [of _ "b @ bs"]) auto
  qed
qed

lemma counted_codec:
  assumes "wire_codec rd w v" "k < 2 ^ 32"
  shows "wire_codec (and_then reader_u32 (\<lambda>n. if n > k then fails TooLong else read_times n rd))
    (\<lambda>xs. be_bytes 4 (length xs) @ concat (map w xs)) (\<lambda>xs. length xs \<le> k \<and> list_all v xs)"
proof (unfold_locales, goal_cases)
  case (1 c xs c')
  note many = wire_codec.read_times_iff [OF assms(1)]
  show ?case
  proof
    assume "and_then reader_u32 (\<lambda>n. if n > k then fails TooLong else read_times n rd) c = Inr (xs, c')"
    then obtain n bs where "n < 2 ^ 32" "rest c = be_bytes 4 n @ bs" "n \<le> k" "read_times n rd (advance 4 c) = Inr (xs, c')"
      by (auto simp: wire_u32.then_iff split: if_splits)
    then show "(length xs \<le> k \<and> list_all v xs) \<and> c' = advance (length (be_bytes 4 (length xs) @ concat (map w xs))) c
        \<and> (\<exists>bs. rest c = (be_bytes 4 (length xs) @ concat (map w xs)) @ bs)"
      unfolding many by auto
  next
    assume *: "(length xs \<le> k \<and> list_all v xs) \<and> c' = advance (length (be_bytes 4 (length xs) @ concat (map w xs))) c
        \<and> (\<exists>bs. rest c = (be_bytes 4 (length xs) @ concat (map w xs)) @ bs)"
    then obtain bs where "rest c = be_bytes 4 (length xs) @ concat (map w xs) @ bs" by auto
    with * show "and_then reader_u32 (\<lambda>n. if n > k then fails TooLong else read_times n rd) c = Inr (xs, c')"
      unfolding wire_u32.then_iff using assms(2)
      by (intro exI [of _ "length xs"] exI [of _ "concat (map w xs) @ bs"]) (auto simp: many)
  qed
qed

lemma read_whole_iff:
  assumes "wire_codec rd w v"
  shows "read_whole rd buf = Inr x \<longleftrightarrow> v x \<and> buf = w x"
proof -
  have "read_whole rd buf = Inr x \<longleftrightarrow> (\<exists>d. and_then rd (\<lambda>v. and_then reader_finish (\<lambda>_. yields v)) (cursor_new buf) = Inr (x, d))"
    by (auto simp: read_whole_def split: sum.splits)
  also have "\<dots> \<longleftrightarrow> v x \<and> buf = w x"
    unfolding wire_codec.then_iff [OF assms]
    by (auto simp: and_then_iff reader_finish_def advance_def cursor_new_def rest_def split: if_splits)
  finally show ?thesis .
qed

section \<open>The messages within their bounds\<close>

definition block_fits :: "usize \<Rightarrow> wire_block \<Rightarrow> bool" where
  "block_fits max_block b \<longleftrightarrow> wb_number b < 2 ^ 64 \<and> wb_timestamp b < 2 ^ 64 \<and> wb_view b < 2 ^ 32
     \<and> length (wb_proposer_sig b) \<le> 65 \<and> length (wb_raw_txs b) \<le> max_block div 4
     \<and> (\<forall>raw \<in> set (wb_raw_txs b). length raw \<le> MAX_TX_BYTES)"

fun block_of_tuple :: "u64 \<times> hash \<times> u64 \<times> u32 \<times> hash \<times> hash \<times> address \<times> byte list \<times> byte list list \<Rightarrow> wire_block" where
  "block_of_tuple (n, p, t, v, x, s, a, g, txs) =
     \<lparr>wb_number = n, wb_parent_hash = p, wb_timestamp = t, wb_view = v, wb_txs_root = x, wb_state_root = s,
      wb_proposer = a, wb_proposer_sig = g, wb_raw_txs = txs\<rparr>"

fun tuple_of_block :: "wire_block \<Rightarrow> u64 \<times> hash \<times> u64 \<times> u32 \<times> hash \<times> hash \<times> address \<times> byte list \<times> byte list list" where
  "tuple_of_block b = (wb_number b, wb_parent_hash b, wb_timestamp b, wb_view b, wb_txs_root b, wb_state_root b,
     wb_proposer b, wb_proposer_sig b, wb_raw_txs b)"

lemma block_codec:
  assumes "max_block div 4 < 2 ^ 32"
  shows "wire_codec (block_read max_block) block_encode (block_fits max_block)"
proof -
  have "wire_codec (reader_bytes MAX_TX_BYTES) put_bytes (\<lambda>b. length b \<le> MAX_TX_BYTES)"
      "wire_codec (reader_bytes 65) put_bytes (\<lambda>b. length b \<le> 65)"
    by (rule bytes_codec, simp add: const_defs)+
  note parts = this(2) counted_codec [OF this(1) assms]
  note codec = record_codec [OF in_turn_codec [OF wire_u64.wire_codec_axioms in_turn_codec [OF wire_b256.wire_codec_axioms
    in_turn_codec [OF wire_u64.wire_codec_axioms in_turn_codec [OF wire_u32.wire_codec_axioms
    in_turn_codec [OF wire_b256.wire_codec_axioms in_turn_codec [OF wire_b256.wire_codec_axioms
    in_turn_codec [OF wire_address.wire_codec_axioms in_turn_codec [OF parts]]]]]]]],
    of tuple_of_block block_of_tuple]
  show ?thesis
  proof (rule codec_cong [OF codec])
    fix c show "block_read max_block c = and_then (in_turn reader_u64 (in_turn reader_b256 (in_turn reader_u64 (in_turn reader_u32
      (in_turn reader_b256 (in_turn reader_b256 (in_turn reader_address (in_turn (reader_bytes 65)
      (and_then reader_u32 (\<lambda>n. if n > max_block div 4 then fails TooLong else read_times n (reader_bytes MAX_TX_BYTES)))))))))))
      (\<lambda>x. yields (block_of_tuple x)) c"
      by (simp add: block_read_def then_in_turn and_then_assoc and_then_if cong: if_cong)
  qed (auto simp: block_encode_def block_fits_def list_all_iff)
qed

lemma block_decode_iff:
  "block_decode buf = Inr b \<longleftrightarrow> block_fits MAX_BLOCK_BYTES b \<and> buf = block_encode b \<and> length buf \<le> MAX_BLOCK_BYTES"
  using read_whole_iff [OF block_codec [of MAX_BLOCK_BYTES], of buf b] by (auto simp: block_decode_def const_defs)

definition hello_fits :: "hello \<Rightarrow> bool" where
  "hello_fits h \<longleftrightarrow> hl_chain_id h < 2 ^ 64 \<and> fst (hl_tip h) < 2 ^ 64 \<and> length (hl_peer_proof h) \<le> 65 \<and> hl_protocol_ver h < 2 ^ 16"

fun hello_of_tuple :: "hash \<times> u64 \<times> u64 \<times> hash \<times> address option \<times> byte list \<times> nat \<Rightarrow> hello" where
  "hello_of_tuple (g, c, th, t, v, p, n) =
     \<lparr>hl_genesis_hash = g, hl_chain_id = c, hl_tip = (th, t), hl_validator = v, hl_peer_proof = p, hl_protocol_ver = n\<rparr>"

fun tuple_of_hello :: "hello \<Rightarrow> hash \<times> u64 \<times> u64 \<times> hash \<times> address option \<times> byte list \<times> nat" where
  "tuple_of_hello h = (hl_genesis_hash h, hl_chain_id h, fst (hl_tip h), snd (hl_tip h), hl_validator h, hl_peer_proof h,
     hl_protocol_ver h)"

interpretation wire_validator: wire_codec read_validator
  "\<lambda>v. case v of Some a \<Rightarrow> 1 # addr_bytes a | None \<Rightarrow> [0]" "\<lambda>_. True"
proof (unfold_locales, goal_cases)
  case (1 c v c')
  show ?case
  proof
    assume "read_validator c = Inr (v, c')"
    then show "True \<and> c' = advance (length (case v of Some a \<Rightarrow> 1 # addr_bytes a | None \<Rightarrow> [0])) c
        \<and> (\<exists>bs. rest c = (case v of Some a \<Rightarrow> 1 # addr_bytes a | None \<Rightarrow> [0]) @ bs)"
      by (auto simp: read_validator_def wire_u8.then_iff wire_address.then_iff split: if_splits)
  next
    assume "True \<and> c' = advance (length (case v of Some a \<Rightarrow> 1 # addr_bytes a | None \<Rightarrow> [0])) c
        \<and> (\<exists>bs. rest c = (case v of Some a \<Rightarrow> 1 # addr_bytes a | None \<Rightarrow> [0]) @ bs)"
    then obtain bs where c': "c' = advance (length (case v of Some a \<Rightarrow> 1 # addr_bytes a | None \<Rightarrow> [0])) c"
      and bs: "rest c = (case v of Some a \<Rightarrow> 1 # addr_bytes a | None \<Rightarrow> [0]) @ bs" by blast
    show "read_validator c = Inr (v, c')"
    proof (cases v)
      case None
      then show ?thesis using wire_u8.read_write [where v = 0 and c = c and bs = bs] c' bs by (simp add: read_validator_def and_then_def)
    next
      case (Some a)
      then show ?thesis
        using wire_u8.read_write [where v = 1 and c = c and bs = "addr_bytes a @ bs"]
          wire_address.read_write [where v = a and c = "advance 1 c" and bs = bs] c' bs
        by (simp add: read_validator_def and_then_def)
    qed
  qed
qed

lemma hello_decode_iff: "hello_decode buf = Inr h \<longleftrightarrow> hello_fits h \<and> buf = hello_encode h"
proof -
  have "wire_codec (reader_bytes 65) put_bytes (\<lambda>b. length b \<le> 65)" by (rule bytes_codec) simp
  note codec = record_codec [OF in_turn_codec [OF wire_b256.wire_codec_axioms in_turn_codec [OF wire_u64.wire_codec_axioms
    in_turn_codec [OF wire_u64.wire_codec_axioms in_turn_codec [OF wire_b256.wire_codec_axioms
    in_turn_codec [OF wire_validator.wire_codec_axioms in_turn_codec [OF this wire_u16.wire_codec_axioms]]]]]],
    of tuple_of_hello hello_of_tuple]
  have "tuple_of_hello (hello_of_tuple x) = x" "hello_of_tuple (tuple_of_hello y) = y" for x y by (cases x) auto
  note decoded = read_whole_iff [OF codec [OF this], of buf h]
  show ?thesis using decoded
    by (simp add: hello_decode_def then_in_turn and_then_assoc hello_fits_def hello_encode_def conj_ac)
qed

lemma get_blocks_decode_iff:
  "get_blocks_decode buf = Inr g \<longleftrightarrow> (gb_from g < 2 ^ 64 \<and> gb_to g < 2 ^ 64) \<and> buf = get_blocks_encode g"
proof -
  note codec = record_codec [OF in_turn_codec [OF wire_u64.wire_codec_axioms wire_u64.wire_codec_axioms],
    of "\<lambda>g. (gb_from g, gb_to g)" "\<lambda>(a, b). \<lparr>gb_from = a, gb_to = b\<rparr>"]
  have "read_whole (and_then (in_turn reader_u64 reader_u64) (\<lambda>x. yields (case x of (a, b) \<Rightarrow> \<lparr>gb_from = a, gb_to = b\<rparr>))) buf = Inr g
    \<longleftrightarrow> (case (gb_from g, gb_to g) of (a, b) \<Rightarrow> a < 2 ^ 64 \<and> b < 2 ^ 64)
      \<and> buf = (case (gb_from g, gb_to g) of (a, b) \<Rightarrow> be_bytes 8 a @ be_bytes 8 b)"
    by (rule read_whole_iff [OF codec]) auto
  note decoded = this
  show ?thesis using decoded
    by (simp add: get_blocks_decode_def then_in_turn get_blocks_encode_def conj_ac)
qed

definition genesis_fits :: "genesis \<Rightarrow> bool" where
  "genesis_fits g \<longleftrightarrow> gn_chain_id g < 2 ^ 64 \<and> gn_genesis_time g < 2 ^ 64 \<and> length (gn_snapshot g) \<le> MAX_BLOCK_BYTES"

fun genesis_of_tuple :: "hash \<times> u64 \<times> hash \<times> u64 \<times> address \<times> byte list \<Rightarrow> genesis" where
  "genesis_of_tuple (h, c, r, t, p, s) =
     \<lparr>gn_genesis_hash = h, gn_chain_id = c, gn_state_root = r, gn_genesis_time = t, gn_proposer = p, gn_snapshot = s\<rparr>"

fun tuple_of_genesis :: "genesis \<Rightarrow> hash \<times> u64 \<times> hash \<times> u64 \<times> address \<times> byte list" where
  "tuple_of_genesis g = (gn_genesis_hash g, gn_chain_id g, gn_state_root g, gn_genesis_time g, gn_proposer g, gn_snapshot g)"

lemma genesis_decode_iff: "genesis_decode buf = Inr g \<longleftrightarrow> genesis_fits g \<and> buf = genesis_encode g"
proof -
  have "wire_codec (reader_bytes MAX_BLOCK_BYTES) put_bytes (\<lambda>b. length b \<le> MAX_BLOCK_BYTES)"
    by (rule bytes_codec) (simp add: const_defs)
  note codec = record_codec [OF in_turn_codec [OF wire_b256.wire_codec_axioms in_turn_codec [OF wire_u64.wire_codec_axioms
    in_turn_codec [OF wire_b256.wire_codec_axioms in_turn_codec [OF wire_u64.wire_codec_axioms
    in_turn_codec [OF wire_address.wire_codec_axioms this]]]]], of tuple_of_genesis genesis_of_tuple]
  have "tuple_of_genesis (genesis_of_tuple x) = x" "genesis_of_tuple (tuple_of_genesis y) = y" for x y by (cases x) auto
  note decoded = read_whole_iff [OF codec [OF this], of buf g]
  show ?thesis using decoded
    by (simp add: genesis_decode_def then_in_turn and_then_assoc genesis_fits_def genesis_encode_def conj_ac)
qed

definition blocks_fit :: "wire_block list \<Rightarrow> bool" where
  "blocks_fit bs \<longleftrightarrow> length bs \<le> SYNC_MAX_BATCH
     \<and> (\<forall>b \<in> set bs. block_fits MAX_BLOCK_BYTES b \<and> length (block_encode b) \<le> MAX_BLOCK_BYTES)"

lemma block_blob_codec:
  "wire_codec read_block_blob (put_bytes \<circ> block_encode)
     (\<lambda>b. block_fits MAX_BLOCK_BYTES b \<and> length (block_encode b) \<le> MAX_BLOCK_BYTES)"
proof (unfold_locales, goal_cases)
  case (1 c b c')
  have codec: "wire_codec (reader_bytes MAX_BLOCK_BYTES) put_bytes (\<lambda>b. length b \<le> MAX_BLOCK_BYTES)"
    by (rule bytes_codec) (simp add: const_defs)
  have decoded: "(case block_decode raw of Inl e \<Rightarrow> fails e | Inr b \<Rightarrow> yields b) d = Inr (b, c')
      \<longleftrightarrow> block_decode raw = Inr b \<and> c' = d" for raw and d :: cursor
    by (auto split: sum.split)
  show ?case
    unfolding read_block_blob_def wire_codec.then_iff [OF codec] decoded block_decode_iff by auto
qed

lemma blocks_decode_iff: "blocks_decode buf = Inr bs \<longleftrightarrow> blocks_fit bs \<and> buf = blocks_encode bs"
  using read_whole_iff [OF counted_codec [OF block_blob_codec, of SYNC_MAX_BATCH], of buf bs]
  by (simp add: blocks_decode_def blocks_fit_def blocks_encode_def list_all_iff SYNC_MAX_BATCH_def)

section \<open>Envelopes and frames\<close>

fun request_fits :: "SyncRequest \<Rightarrow> bool" where
  "request_fits (HelloRequest h) \<longleftrightarrow> hello_fits h"
| "request_fits (GetBlocks g) \<longleftrightarrow> gb_from g < 2 ^ 64 \<and> gb_to g < 2 ^ 64"
| "request_fits GetGenesis \<longleftrightarrow> True"

fun response_fits :: "SyncResponse \<Rightarrow> bool" where
  "response_fits (HelloResponse h) \<longleftrightarrow> hello_fits h"
| "response_fits (Blocks bs) \<longleftrightarrow> blocks_fit bs"
| "response_fits (Genesis g) \<longleftrightarrow> genesis_fits g"

lemma map_sum_Inr: "map_sum f g x = Inr y \<longleftrightarrow> (\<exists>z. x = Inr z \<and> y = g z)"
  by (cases x) auto

lemma sync_request_decode_iff: "sync_request_decode buf = Inr m \<longleftrightarrow> request_fits m \<and> buf = sync_request_encode m"
proof (cases buf)
  case Nil
  then show ?thesis by (cases m) auto
next
  case (Cons t bs)
  then show ?thesis
    by (cases m) (auto simp: map_sum_Inr hello_decode_iff get_blocks_decode_iff get_genesis_decode_def const_defs)
qed

lemma sync_response_decode_iff: "sync_response_decode buf = Inr m \<longleftrightarrow> response_fits m \<and> buf = sync_response_encode m"
proof (cases buf)
  case Nil
  then show ?thesis by (cases m) auto
next
  case (Cons t bs)
  then show ?thesis
    by (cases m) (auto simp: map_sum_Inr hello_decode_iff blocks_decode_iff genesis_decode_iff const_defs)
qed

lemma read_req_id_iff: "read_req_id buf = Inr (i, body) \<longleftrightarrow> i < 2 ^ 64 \<and> buf = write_framed i body"
proof
  assume "read_req_id buf = Inr (i, body)"
  then have *: "8 \<le> length buf" "i = be_nat (take 8 buf)" "body = drop 8 buf" by (auto simp: read_req_id_def split: if_splits)
  then have "be_bytes 8 i = take 8 buf" using be_bytes_be_nat [of "take 8 buf"] by simp
  with * show "i < 2 ^ 64 \<and> buf = write_framed i body"
    using be_nat_bound [of "take 8 buf"] by (auto simp: write_framed_def)
next
  assume "i < 2 ^ 64 \<and> buf = write_framed i body"
  then show "read_req_id buf = Inr (i, body)" by (auto simp: read_req_id_def write_framed_def be_nat_be_bytes)
qed

lemma framed_iff:
  assumes "\<And>body m. dec body = Inr m \<longleftrightarrow> fits m \<and> body = enc m"
  shows "(case read_req_id buf of Inl e \<Rightarrow> Inl e
      | Inr (i, body) \<Rightarrow> map_sum id (\<lambda>m. \<lparr>sf_req_id = i, sf_body = m\<rparr>) (dec body)) = Inr f
    \<longleftrightarrow> sf_req_id f < 2 ^ 64 \<and> fits (sf_body f) \<and> buf = write_framed (sf_req_id f) (enc (sf_body f))"
proof -
  have "(case read_req_id buf of Inl e \<Rightarrow> Inl e
      | Inr (i, body) \<Rightarrow> map_sum id (\<lambda>m. \<lparr>sf_req_id = i, sf_body = m\<rparr>) (dec body)) = Inr f
    \<longleftrightarrow> (\<exists>i body m. read_req_id buf = Inr (i, body) \<and> dec body = Inr m \<and> f = \<lparr>sf_req_id = i, sf_body = m\<rparr>)"
    by (auto simp: map_sum_Inr split: sum.splits)
  then show ?thesis by (cases f) (auto simp: read_req_id_iff assms)
qed

lemmas request_frame_decode_iff =
  framed_iff [of sync_request_decode request_fits sync_request_encode, OF sync_request_decode_iff,
    folded request_frame_decode_def request_frame_encode_def]

lemmas response_frame_decode_iff =
  framed_iff [of sync_response_decode response_fits sync_response_encode, OF sync_response_decode_iff,
    folded response_frame_decode_def response_frame_encode_def]

lemma read_frame_iff: "read_frame io = Inr (buf, left) \<longleftrightarrow> length buf \<le> MAX_SYNC_FRAME \<and> io = write_frame buf @ left"
proof
  assume "read_frame io = Inr (buf, left)"
  then have *: "4 \<le> length io" "be_nat (take 4 io) \<le> MAX_SYNC_FRAME" "be_nat (take 4 io) \<le> length (drop 4 io)"
      "buf = take (be_nat (take 4 io)) (drop 4 io)" "left = drop (be_nat (take 4 io)) (drop 4 io)"
    by (auto simp: read_frame_def Let_def split: if_splits)
  then have "be_bytes 4 (length buf) = take 4 io" using be_bytes_be_nat [of "take 4 io"] by simp
  moreover have "drop 4 io = buf @ left" unfolding *(4,5) append_take_drop_id ..
  then have "io = take 4 io @ buf @ left" by (metis append_take_drop_id)
  ultimately show "length buf \<le> MAX_SYNC_FRAME \<and> io = write_frame buf @ left"
    using * by (simp add: write_frame_def)
next
  assume "length buf \<le> MAX_SYNC_FRAME \<and> io = write_frame buf @ left"
  moreover have "MAX_SYNC_FRAME < 2 ^ 32" by (simp add: const_defs)
  ultimately show "read_frame io = Inr (buf, left)"
    by (auto simp: read_frame_def write_frame_def Let_def be_nat_be_bytes)
qed

lemma read_request_iff: "read_request io = Inr (m, left) \<longleftrightarrow>
    request_fits m \<and> length (sync_request_encode m) \<le> MAX_SYNC_FRAME \<and> io = write_frame (sync_request_encode m) @ left"
proof -
  have "read_request io = Inr (m, left) \<longleftrightarrow> (\<exists>buf. read_frame io = Inr (buf, left) \<and> sync_request_decode buf = Inr m)"
    by (auto simp: read_request_def map_sum_Inr split: sum.splits)
  then show ?thesis by (auto simp: read_frame_iff sync_request_decode_iff)
qed

lemma read_response_iff: "read_response io = Inr (m, left) \<longleftrightarrow>
    response_fits m \<and> length (sync_response_encode m) \<le> MAX_SYNC_FRAME \<and> io = write_frame (sync_response_encode m) @ left"
proof -
  have "read_response io = Inr (m, left) \<longleftrightarrow> (\<exists>buf. read_frame io = Inr (buf, left) \<and> sync_response_decode buf = Inr m)"
    by (auto simp: read_response_def map_sum_Inr split: sum.splits)
  then show ?thesis by (auto simp: read_frame_iff sync_response_decode_iff)
qed

section \<open>Properties\<close>

text \<open>
  C9: The wire is canonical. A received block, stream message or gateway frame is accepted exactly when its
  bytes are the encoding of a message within the protocol's bounds (field widths, 65-byte signatures, 128 KiB
  transactions, 8 MiB blocks, 128 blocks a batch), and decodes to just that message; a stream frame leaves
  what follows it. So decoding inverts encoding, no message has two wire forms and none is padded or cut.
\<close>

theorem wire_canonical:
  "(block_decode buf = Inr b \<longleftrightarrow> block_fits MAX_BLOCK_BYTES b \<and> length (block_encode b) \<le> MAX_BLOCK_BYTES \<and> buf = block_encode b)
   \<and> (read_request io = Inr (rq, left) \<longleftrightarrow>
        request_fits rq \<and> length (sync_request_encode rq) \<le> MAX_SYNC_FRAME \<and> io = write_frame (sync_request_encode rq) @ left)
   \<and> (read_response io = Inr (rs, left) \<longleftrightarrow>
        response_fits rs \<and> length (sync_response_encode rs) \<le> MAX_SYNC_FRAME \<and> io = write_frame (sync_response_encode rs) @ left)
   \<and> (request_frame_decode buf = Inr f \<longleftrightarrow>
        sf_req_id f < 2 ^ 64 \<and> request_fits (sf_body f) \<and> buf = request_frame_encode f)
   \<and> (response_frame_decode buf = Inr g \<longleftrightarrow>
        sf_req_id g < 2 ^ 64 \<and> response_fits (sf_body g) \<and> buf = response_frame_encode g)"
  using block_decode_iff [of buf b] read_request_iff [of io rq left] read_response_iff [of io rs left]
    request_frame_decode_iff [of buf f] response_frame_decode_iff [of buf g] by blast

end
