(* ===== verification/Epoch_Frame.thy ===== *)
theory Epoch_Frame
  imports Kernel_Nonce
begin

text \<open>
  No transaction and no sweep writes the snapshot of the validator set: only \<^verbatim>\<open>refresh_epoch_validators\<close>
  does, and the kernel's block function does not call it. So the snapshot changes on an epoch boundary of
  the node and nowhere else.
\<close>

named_theorems epoch_frame \<open>the snapshot of the validator set is left alone\<close>

abbreviation snapshot :: "mem_state \<Rightarrow> address list" where
  "snapshot \<equiv> ms_epoch_validators"

lemma writes_epoch [epoch_frame, simp]:
  "snapshot (put s a) = snapshot s" "snapshot (put_stream s st) = snapshot s" "snapshot (put_human s h) = snapshot s"
  "snapshot (put_case s c) = snapshot s" "snapshot (put_contract s pc) = snapshot s" "snapshot (put_exec_case s ec) = snapshot s"
  "snapshot (put_vouch s v) = snapshot s" "snapshot (clear_vouch_edges s x) = snapshot s"
  "snapshot (record_challenge_cleared s x y) = snapshot s" "snapshot (put_nullifier s n) = snapshot s"
  "snapshot (put_attribute_commitments s x ks) = snapshot s" "snapshot (put_csca s e) = snapshot s"
  "snapshot (put_self_identity_root s i) = snapshot s" "snapshot (put_self_ofac_root s o') = snapshot s"
  by (simp_all add: state_defs put_stream_def put_vouch_def clear_vouch_edges_def Let_def split: option.split)

lemma fold_epoch: "(\<And>x s. snapshot (f x s) = snapshot s) \<Longrightarrow> snapshot (fold f xs s) = snapshot s"
  by (induction xs arbitrary: s) simp_all

section \<open>The ledger\<close>

lemma settle_epoch [simp]:
  "snapshot (snd (settle_stream s k now)) = snapshot s" "snapshot (settle_incoming s a now) = snapshot s"
proof -
  have one: "snapshot (snd (settle_stream s k now)) = snapshot s" for s k
    by (simp add: settle_stream_def Let_def split: option.split)
  show "snapshot (snd (settle_stream s k now)) = snapshot s" by (rule one)
  show "snapshot (settle_incoming s a now) = snapshot s"
    unfolding settle_incoming_def by (rule fold_epoch) (rule one)
qed

lemma ledger_epoch [simp]:
  "snapshot (snd (charge_fee s frm gas now)) = snapshot s"
  "snapshot (snd (apply_transfer s frm to val n now)) = snapshot s"
  "snapshot (snd (open_stream s frm to rate dep now)) = snapshot s"
  "snapshot (snd (stop_stream s sid caller now)) = snapshot s"
  by (simp_all add: charge_fee_def apply_transfer_def open_stream_def stop_stream_def Let_def next_stream_id_def
      split: option.split)

lemma ledger_epoch_pairs:
  "apply_transfer s frm to val n now = (r, s') \<Longrightarrow> snapshot s' = snapshot s"
  "open_stream s frm to rate dep now = (r', s') \<Longrightarrow> snapshot s' = snapshot s"
  "stop_stream s sid caller now = (r'', s') \<Longrightarrow> snapshot s' = snapshot s"
  by (metis ledger_epoch(2) snd_conv) (metis ledger_epoch(3) snd_conv, metis ledger_epoch(4) snd_conv)

section \<open>The proof-of-humanity lifecycle\<close>

lemma lifecycle_epoch [simp]:
  "snapshot (sync_account_verified s a v t) = snapshot s" "snapshot (slash n a s) = snapshot s"
  "snapshot (snd (open_case s a b k e ent blk)) = snapshot s" "snapshot (restore_challenged s a) = snapshot s"
  "snapshot (snd (vouch s a b blk)) = snapshot s"
  by (auto simp: sync_account_verified_def slash_def open_case_def restore_challenged_def vouch_def Let_def
      next_case_id_def split: option.split)

lemma revoke_epoch [simp]: "snapshot (revoke s a) = snapshot s"
  by (simp add: revoke_def Let_def fold_epoch split: option.split)

lemma open_case_epoch: "open_case s a b k e ent blk = (r, s') \<Longrightarrow> snapshot s' = snapshot s"
  using lifecycle_epoch(3) [of s a b k e ent blk] by simp

lemma cases_epoch [simp]:
  "snapshot (snd (request_verification s oracle a ev ent blk)) = snapshot s"
  "snapshot (snd (challenge_inner s c a e ent blk req)) = snapshot s"
  "snapshot (snd (finalize_registration s a blk secs)) = snapshot s"
  by (auto simp: request_verification_def challenge_inner_def finalize_registration_def Let_def
      split: option.split HumanStatus.split prod.split sum.split dest!: open_case_epoch)

lemma verdict_epoch [simp]: "snapshot (snd (submit_verdict s k j v blk)) = snapshot s"
  by (simp add: submit_verdict_def Let_def split: option.split CaseStatus.split Verdict.split)

lemma zk_epoch [simp]:
  "snapshot (snd (submit_zk_passport_proof s v a sub now blk)) = snapshot s"
  by (simp add: submit_zk_passport_proof_def zk_commit_def Let_def split: option.split prod.split)

lemma governance_epoch [simp]:
  "snapshot (snd (register_csca s a cc k pk blk)) = snapshot s" "snapshot (snd (revoke_csca s a k)) = snapshot s"
  "snapshot (snd (pin_self_identity_root s a r blk)) = snapshot s" "snapshot (snd (pin_self_ofac_root s a kd r blk)) = snapshot s"
  "snapshot (snd (retire_self_root s a r)) = snapshot s"
  by (simp_all add: register_csca_def revoke_csca_def pin_self_identity_root_def pin_self_ofac_root_def
      retire_self_root_def retire_root_def split: option.split)

section \<open>The contract engine\<close>

lemma deploy_epoch [simp]:
  "snapshot (snd (deploy_contract s text ref parties)) = snapshot s" "snapshot (snd (fund_contract s a cid amount n now)) = snapshot s"
  by (auto simp: deploy_contract_def fund_contract_def next_contract_id_def split: option.split prod.split sum.split
      dest: ledger_epoch_pairs)

lemma deploy_epoch_pair:
  "deploy_contract s t r ps = (q, s') \<Longrightarrow> snapshot s' = snapshot s"
  by (metis deploy_epoch(1) snd_conv)

lemma apply_op_epoch: "apply_op e now op (c, n, s) = Some (c', n', s') \<Longrightarrow> snapshot s' = snapshot s"
  by (cases op) (auto split: prod.splits sum.splits dest: ledger_epoch_pairs)

lemma apply_effect_ops_epoch:
  "apply_effect_ops e now ops (c, n, s) = Some (c', n', s') \<Longrightarrow> snapshot s' = snapshot s"
proof (induction ops arbitrary: c n s)
  case (Cons op ops)
  then obtain c1 n1 s1 where "apply_op e now op (c, n, s) = Some (c1, n1, s1)"
    "apply_effect_ops e now ops (c1, n1, s1) = Some (c', n', s')"
    by (auto simp: bind_eq_Some_conv)
  then show ?case using apply_op_epoch Cons.IH by metis
qed simp

lemma apply_effect_epoch: "apply_effect s cid eff now = Some (r, s') \<Longrightarrow> snapshot s' = snapshot s"
  by (auto simp: apply_effect_def Let_def split: option.splits sum.splits if_splits dest!: apply_effect_ops_epoch)

lemma resolve_epoch: "resolve_case s ec blk now = Some (ec', s') \<Longrightarrow> snapshot s' = snapshot s"
  by (auto simp: resolve_case_def split: option.splits EffectTally.splits sum.splits prod.splits if_splits
      dest: apply_effect_epoch)

lemma exec_epoch:
  "submit_effect s k a eff blk now = Some (r, s') \<Longrightarrow> snapshot s' = snapshot s"
  "invoke_contract s interp cid tr tg who ent blk now = Some (r', s'') \<Longrightarrow> snapshot s'' = snapshot s"
  by (auto simp: submit_effect_def invoke_contract_def Let_def next_exec_case_id_def
      split: option.splits prod.splits if_splits dest!: resolve_epoch)

section \<open>The kernel\<close>

lemma lift_epoch: "lift_result f g r = (q, s') \<Longrightarrow> snapshot (snd r) = snapshot s \<Longrightarrow> snapshot s' = snapshot s"
  using lift_result_snd by metis

lemma after_nonce_epoch:
  assumes "after_nonce ctx s tx f = Some (q, s')"
    and "\<And>s q s'. f s = Some (q, s') \<Longrightarrow> snapshot s' = snapshot s"
  shows "snapshot s' = snapshot s"
proof (cases "consume_nonce s (tx_from tx) (tx_nonce tx) (bc_timestamp ctx)")
  case (Pair r s1)
  then have "snapshot s1 = snapshot s" by (auto simp: consume_nonce_def Let_def split: if_splits)
  then show ?thesis using assms Pair by (cases r) (auto simp: after_nonce_def)
qed

lemma apply_one_epoch:
  assumes "apply_one env ctx s tx k = Some (q, s')"
  shows "snapshot s' = snapshot s"
proof (cases k)
  case (KDeployContract txt' parties)
  show ?thesis
    using assms unfolding KDeployContract apply_one.simps
  proof (rule after_nonce_epoch)
    fix s q s'
    assume "(case deploy_contract s txt' (text_commitment (ke_keccak256 env) txt') parties of
          (Inl e, s) \<Rightarrow> Some (Inl (ContractErr e), s)
        | (Inr cid, s) \<Rightarrow>
            Some (Inr (CaseId cid),
              case get_contract s cid of
                None \<Rightarrow> s
              | Some c \<Rightarrow> put_contract s (c\<lparr>pc_deploy_block := bc_number ctx, pc_deploy_tx := tx_hash tx\<rparr>))) = Some (q, s')"
    then show "snapshot s' = snapshot s"
      by (auto split: prod.splits sum.splits option.splits dest!: deploy_epoch_pair)
  qed
qed (insert assms, auto simp: challenge_def derive_liveness_def exec_epoch
    elim!: after_nonce_epoch lift_epoch dest!: exec_epoch)

lemma apply_tx_epoch:
  assumes "apply_tx env ctx s tx = Some (outcome, s')"
  shows "snapshot s' = snapshot s"
proof -
  obtain r s1 where f: "charge_fee s (tx_from tx) (kernel_gas (tx_kind tx)) (bc_timestamp ctx) = (r, s1)"
    by fastforce
  then have "snapshot s1 = snapshot s" by (metis ledger_epoch(1) snd_conv)
  then show ?thesis
    using assms f by (cases r) (auto simp: apply_tx_def Let_def split: option.splits sum.splits dest!: apply_one_epoch)
qed

lemma apply_txs_epoch: "apply_txs env ctx s txs = Some (outcomes, s') \<Longrightarrow> snapshot s' = snapshot s"
  by (induction txs arbitrary: s outcomes) (auto split: option.splits dest!: apply_tx_epoch)

lemma run_sweeps_epoch [simp]: "snapshot (run_sweeps env ctx s) = snapshot s"
  by (simp add: run_sweeps_def sweep_sybil_scan_def sweep_finalize_def fold_epoch scan_one_def system_challenge_def Let_def)

lemma apply_ops_epoch: "apply_ops env ctx s txs = Some (outcomes, s') \<Longrightarrow> snapshot s' = snapshot s"
  by (auto simp: apply_ops_def dest!: apply_txs_epoch)

end
