(* ===== verification/Light_Client.thy ===== *)
theory Light_Client
  imports Wire_Theorems Validation_Theorems Epoch_Frame
begin

text \<open>
  The light client of the browser (\<^verbatim>\<open>LightCore\<close> in \<^verbatim>\<open>crates/runtime-wasm/src/kernel.rs\<close>): the verified
  state and tip, the pinned anchor, and the re-execution of a received block with the shared kernel. The
  deterministic oracle, interpreter and verifier it holds are those of the node's environment. Errors
  carry the decoding error itself where the code carries its rendering. An outer \<open>None\<close> is a panic of the
  kernel. The lemmas relate it to the full node: it follows every block that does not rotate the
  validator snapshot, and never rotates that snapshot itself.
\<close>

section \<open>The verified state\<close>

text \<open>The client's own bound on a block, half of the node's.\<close>

definition LIGHT_MAX_BLOCK_BYTES :: usize where [const_defs]: "LIGHT_MAX_BLOCK_BYTES = 4 * 1024 * 1024"

datatype VerifyError =
    BadWire WireError
  | ShallowVerify
  | LightNonContiguous u64 u64       \<comment> \<open>have, got\<close>
  | LightWrongParent
  | LightBadTimestamp
  | LightWrongProposer
  | UnauthorizedProposer address
  | LightUndecodableTx DecodeError
  | LightStateRootMismatch hash hash \<comment> \<open>expected, got\<close>
  | GenesisRootMismatch hash hash    \<comment> \<open>expected, got\<close>
  | BadGenesisSnapshot string

record block_outcome =
  bo_number :: u64
  bo_hash :: hash
  bo_state_root :: hash
  bo_timestamp :: u64

record light_core =
  lc_chain_id :: u64
  lc_state :: mem_state
  lc_tip_number :: u64
  lc_tip_hash :: hash
  lc_tip_state_root :: hash
  lc_tip_timestamp :: u64
  lc_validator_set :: "address list"

definition light_genesis :: "u64 \<Rightarrow> hash \<Rightarrow> hash \<Rightarrow> u64 \<Rightarrow> light_core" where
  "light_genesis chain_id genesis_hash genesis_state_root genesis_time =
     \<lparr>lc_chain_id = chain_id, lc_state = mem_state_new, lc_tip_number = 0, lc_tip_hash = genesis_hash,
      lc_tip_state_root = genesis_state_root, lc_tip_timestamp = genesis_time, lc_validator_set = []\<rparr>"

text \<open>The anchor: the decoder of the snapshot is the JSON library's.\<close>

definition light_genesis_import ::
    "(byte list \<Rightarrow> string + mem_state) \<Rightarrow> u64 \<Rightarrow> hash \<Rightarrow> hash \<Rightarrow> u64 \<Rightarrow> byte list \<Rightarrow> address list
      \<Rightarrow> VerifyError + light_core" where
  "light_genesis_import decode_state chain_id genesis_hash pinned_state_root genesis_time snapshot_bytes vs =
     (case decode_state snapshot_bytes of
        Inl e \<Rightarrow> Inl (BadGenesisSnapshot e)
      | Inr s \<Rightarrow>
          let derived = state_root s in
          if derived \<noteq> pinned_state_root then Inl (GenesisRootMismatch pinned_state_root derived)
          else Inr \<lparr>lc_chain_id = chain_id, lc_state = s, lc_tip_number = 0, lc_tip_hash = genesis_hash,
                    lc_tip_state_root = pinned_state_root, lc_tip_timestamp = genesis_time,
                    lc_validator_set = vs\<rparr>)"

definition light_tip :: "light_core \<Rightarrow> block_outcome" where
  "light_tip lc = \<lparr>bo_number = lc_tip_number lc, bo_hash = lc_tip_hash lc,
     bo_state_root = lc_tip_state_root lc, bo_timestamp = lc_tip_timestamp lc\<rparr>"

definition set_validator_set :: "light_core \<Rightarrow> address list \<Rightarrow> light_core" where
  "set_validator_set lc vs = lc\<lparr>lc_validator_set := vs\<rparr>"

definition light_balance_of :: "light_core \<Rightarrow> address \<Rightarrow> u64 \<Rightarrow> u128" where
  "light_balance_of lc a now = state_balance (lc_state lc) a now"

definition light_nonce_of :: "light_core \<Rightarrow> address \<Rightarrow> u64" where
  "light_nonce_of lc a = state_nonce (lc_state lc) a"

definition light_human_status :: "light_core \<Rightarrow> address \<Rightarrow> u8" where
  "light_human_status lc a =
     (case map_option hu_status (get_human (lc_state lc) a) of
        None \<Rightarrow> 0
      | Some Unverified \<Rightarrow> 0
      | Some Pending \<Rightarrow> 1
      | Some Verified \<Rightarrow> 2
      | Some Challenged \<Rightarrow> 3
      | Some Revoked \<Rightarrow> 4)"

section \<open>Applying a block\<close>

definition light_entropy_hash :: "keccak \<Rightarrow> u64 \<Rightarrow> hash \<Rightarrow> u64 \<Rightarrow> u32 \<Rightarrow> hash" where
  "light_entropy_hash keccak256 number parent_hash timestamp view =
     keccak256 (be_bytes 8 number @ hash_bytes parent_hash @ be_bytes 8 timestamp @ be_bytes 4 view
       @ replicate 32 0 @ replicate 32 0 @ replicate 20 0)"

definition light_block_decode :: "byte list \<Rightarrow> WireError + wire_block" where
  "light_block_decode buf =
     (if length buf > LIGHT_MAX_BLOCK_BYTES then Inl TooLong else read_whole (block_read LIGHT_MAX_BLOCK_BYTES) buf)"

fun decode_ops_of :: "node_env \<Rightarrow> u64 \<Rightarrow> byte list list \<Rightarrow> DecodeError + kernel_tx list" where
  "decode_ops_of env chain_id [] = Inr []"
| "decode_ops_of env chain_id (raw # raws) =
     attempt (decode_tx (ne_decode_2718 env) (ne_abi env) chain_id raw) (\<lambda>tx.
       attempt (decode_ops_of env chain_id raws) (\<lambda>txs. Inr (tx # txs)))"

text \<open>The checks against the tip, in their order: \<open>None\<close> when all pass.\<close>

definition light_check :: "node_env \<Rightarrow> light_core \<Rightarrow> wire_block \<Rightarrow> address option \<Rightarrow> VerifyError option" where
  "light_check env lc b expected_proposer =
     (if \<not> shallow_verify env b then Some ShallowVerify
      else if wb_number b \<noteq> lc_tip_number lc + 1 then Some (LightNonContiguous (lc_tip_number lc) (wb_number b))
      else if wb_parent_hash b \<noteq> lc_tip_hash lc then Some LightWrongParent
      else if wb_timestamp b \<le> lc_tip_timestamp lc then Some LightBadTimestamp
      else if (case expected_proposer of Some x \<Rightarrow> wb_proposer b \<noteq> x | None \<Rightarrow> False) then Some LightWrongProposer
      else if lc_validator_set lc \<noteq> [] \<and> wb_proposer b \<notin> set (lc_validator_set lc)
      then Some (UnauthorizedProposer (wb_proposer b))
      else None)"

definition light_ctx :: "node_env \<Rightarrow> wire_block \<Rightarrow> block_ctx" where
  "light_ctx env b = \<lparr>bc_timestamp = wb_timestamp b, bc_number = wb_number b,
     bc_block_hash = light_entropy_hash (ne_keccak256 env) (wb_number b) (wb_parent_hash b) (wb_timestamp b) (wb_view b)\<rparr>"

definition light_commit :: "node_env \<Rightarrow> light_core \<Rightarrow> wire_block \<Rightarrow> mem_state \<Rightarrow> light_core" where
  "light_commit env lc b trial = lc\<lparr>lc_state := trial, lc_tip_number := wb_number b,
     lc_tip_hash := wire_hash (ne_keccak256 env) b, lc_tip_state_root := state_root trial,
     lc_tip_timestamp := wb_timestamp b\<rparr>"

definition apply_decoded ::
    "node_env \<Rightarrow> light_core \<Rightarrow> wire_block \<Rightarrow> address option \<Rightarrow> ((VerifyError + block_outcome) \<times> light_core) option" where
  "apply_decoded env lc b expected_proposer =
     (case light_check env lc b expected_proposer of
        Some e \<Rightarrow> Some (Inl e, lc)
      | None \<Rightarrow>
          (case decode_ops_of env (lc_chain_id lc) (wb_raw_txs b) of
             Inl e \<Rightarrow> Some (Inl (LightUndecodableTx e), lc)
           | Inr decoded \<Rightarrow>
               Option.bind (apply_ops (ne_kernel env) (light_ctx env b) (lc_state lc) decoded) (\<lambda>(_, trial).
                 if recompute_txs_root (ne_keccak256 env) b \<noteq> wb_txs_root b
                 then Some (Inl (LightStateRootMismatch (wb_state_root b) (state_root trial)), lc)
                 else if state_root trial \<noteq> wb_state_root b
                 then Some (Inl (LightStateRootMismatch (wb_state_root b) (state_root trial)), lc)
                 else let lc = light_commit env lc b trial in Some (Inr (light_tip lc), lc))))"

definition apply_block ::
    "node_env \<Rightarrow> light_core \<Rightarrow> byte list \<Rightarrow> address option \<Rightarrow> ((VerifyError + block_outcome) \<times> light_core) option" where
  "apply_block env lc wire expected_proposer =
     (case light_block_decode wire of
        Inl e \<Rightarrow> Some (Inl (BadWire e), lc)
      | Inr b \<Rightarrow> apply_decoded env lc b expected_proposer)"

section \<open>The client runs the node's transition\<close>

lemma le_bytes_0: "le_bytes k 0 = replicate k 0"
  by (induction k) simp_all

lemma zero_bytes: "hash_bytes 0 = replicate 32 0" "addr_bytes 0 = replicate 20 0"
  by (simp_all only: hash_bytes_def addr_bytes_def be_bytes_def unsigned_0 le_bytes_0 rev_replicate)

lemma light_entropy_eq: "light_entropy_hash kec n p t v = compute_hash kec n p t v 0 0 0"
  by (simp add: light_entropy_hash_def compute_hash_def header_preimage_def zero_bytes)

lemma wire_hash_eq: "wire_hash kec b = header_hash kec b"
  by (simp add: wire_hash_def wire_header_preimage_def header_hash_def compute_hash_def header_preimage_def)

lemma wire_recover_eq: "wire_recover_proposer env b = recover_proposer env (header_hash (ne_keccak256 env) b) (wb_proposer_sig b)"
  by (auto simp: wire_recover_proposer_def recover_secp256k1_def recover_proposer_def Let_def wire_hash_eq split: option.split)

lemma shallow_verify_iff:
  "shallow_verify env b \<longleftrightarrow> recompute_txs_root (ne_keccak256 env) b = wb_txs_root b
     \<and> recover_proposer env (header_hash (ne_keccak256 env) b) (wb_proposer_sig b) = Some (wb_proposer b)"
  by (auto simp: shallow_verify_def wire_recover_eq recover_proposer_def split: option.splits)

lemma decode_ops_of_pending:
  "decode_all env cid raws = Some ps \<Longrightarrow> decode_ops_of env cid raws = Inr (map kernel_tx_from_pending ps)"
  by (induction raws arbitrary: ps) (auto simp: attempt_def decode_pending_kernel split: sum.splits)

lemma light_block_decode_iff:
  "light_block_decode buf = Inr b \<longleftrightarrow> block_decode buf = Inr b \<and> length buf \<le> LIGHT_MAX_BLOCK_BYTES"
proof -
  have "4 * length xs \<le> length (concat (map put_bytes xs))" for xs
    by (induction xs) (simp_all add: put_bytes_def)
  then have "4 * length (wb_raw_txs b) \<le> length (block_encode b)"
    by (rule order_trans) (simp add: block_encode_def)
  then have "length (block_encode b) \<le> LIGHT_MAX_BLOCK_BYTES
      \<Longrightarrow> block_fits LIGHT_MAX_BLOCK_BYTES b = block_fits MAX_BLOCK_BYTES b"
    by (auto simp: block_fits_def const_defs)
  then show ?thesis
    using read_whole_iff [OF block_codec [of LIGHT_MAX_BLOCK_BYTES], of buf b]
    by (auto simp: light_block_decode_def block_decode_iff const_defs)
qed

section \<open>What is accepted\<close>

lemma light_check_passes:
  "light_check env lc b xp = None \<longleftrightarrow> shallow_verify env b \<and> wb_number b = lc_tip_number lc + 1
     \<and> wb_parent_hash b = lc_tip_hash lc \<and> lc_tip_timestamp lc < wb_timestamp b
     \<and> (xp = None \<or> xp = Some (wb_proposer b)) \<and> (lc_validator_set lc = [] \<or> wb_proposer b \<in> set (lc_validator_set lc))"
  by (auto simp: light_check_def split: option.splits)

lemma apply_decoded_cases:
  assumes "apply_decoded env lc b xp = Some (r, lc')"
  obtains (rejected) e where "r = Inl e" "lc' = lc"
    | (applied) decoded outs trial where "light_check env lc b xp = None"
        "decode_ops_of env (lc_chain_id lc) (wb_raw_txs b) = Inr decoded"
        "apply_ops (ne_kernel env) (light_ctx env b) (lc_state lc) decoded = Some (outs, trial)"
        "state_root trial = wb_state_root b" "lc' = light_commit env lc b trial" "r = Inr (light_tip lc')"
  using assms
  by (auto simp: apply_decoded_def Let_def bind_eq_Some_conv split: option.splits sum.splits if_splits)

lemma apply_decoded_epoch: "apply_decoded env lc b xp = Some (r, lc') \<Longrightarrow> snapshot (lc_state lc') = snapshot (lc_state lc)"
  by (erule apply_decoded_cases) (auto simp: light_commit_def dest: apply_ops_epoch)

section \<open>Following a full node\<close>

text \<open>The client follows a node when it holds the node's head, state and chain.\<close>

definition follows :: "light_core \<Rightarrow> chain \<Rightarrow> bool" where
  "follows lc ch \<longleftrightarrow> lc_chain_id lc = ch_chain_id ch \<and> lc_state lc = in_state (ch_inner ch)
     \<and> (\<exists>head. latest_block (ch_inner ch) = Some head \<and> lc_tip_number lc = bk_number head
          \<and> lc_tip_hash lc = bk_hash head \<and> lc_tip_timestamp lc = bk_timestamp head)"

text \<open>The state a node executes the next block in, with the validator snapshot refreshed where it is due.\<close>

definition opened :: "chain \<Rightarrow> mem_state" where
  "opened ch = fst (open_epoch (Suc (bk_number (List.last (in_blocks (ch_inner ch))))) (in_state (ch_inner ch)) None)"

lemma seeded_state:
  assumes "ensure_epoch_validators_seeded ch = Some ch0" "opened ch = in_state (ch_inner ch)"
  shows "in_state (ch_inner ch0) = in_state (ch_inner ch)"
  using assms
  by (auto simp: ensure_epoch_validators_seeded_def opened_def open_epoch_def latest_block_def Let_def EPOCH_BLOCKS_def
      split: if_splits option.splits)

lemma validated_parts:
  assumes "validate_and_apply_block env wb ov ch = Some (Inr b, ch')" "follows lc ch"
  obtains ch0 head pending where "ensure_epoch_validators_seeded ch = Some ch0" "latest_block (ch_inner ch) = Some head"
      "lc_tip_number lc = bk_number head" "lc_tip_hash lc = bk_hash head" "lc_tip_timestamp lc = bk_timestamp head"
      "wb_number wb = bk_number head + 1" "wb_parent_hash wb = bk_hash head" "bk_timestamp head < wb_timestamp wb"
      "recover_proposer env (header_hash (ne_keccak256 env) wb) (wb_proposer_sig wb) = Some (wb_proposer wb)"
      "decode_all env (ch_chain_id ch) (wb_raw_txs wb) = Some pending"
      "replay_block (ne_kernel env) head (wb_timestamp wb) (wb_view wb) (map kernel_tx_from_pending pending)
        (in_state (ch_inner ch0)) = Some (in_state (ch_inner ch'))"
      "state_root (in_state (ch_inner ch')) = wb_state_root wb" "latest_block (ch_inner ch') = Some b"
      "bk_number b = wb_number wb" "bk_hash b = header_hash (ne_keccak256 env) wb" "bk_timestamp b = wb_timestamp wb"
      "ch_chain_id ch' = ch_chain_id ch"
  using assms(1)
proof (cases rule: validate_cases)
  case (applied ch0 head b' ch1 pending)
  have h0: "latest_block (ch_inner ch0) = Some head"
    using applied(3) ensure_seeded(1) [OF applied(1)] by (simp add: latest_block_def split: if_splits)
  note e = execute_block_cases [OF applied(6) h0]
  show ?thesis
    by (rule that [OF applied(1,3)])
       (use assms(2) applied e ensure_seeded(7) [OF applied(1)] in
         \<open>auto simp: follows_def check_header_accepts latest_block_def\<close>)
qed auto

lemma light_ctx_eq:
  assumes "wb_number wb = bk_number head + 1" "wb_parent_hash wb = bk_hash head"
  shows "light_ctx env wb = block_ctx_of (ne_keccak256 env) head (wb_timestamp wb) (wb_view wb)"
  using assms by (simp add: light_ctx_def block_ctx_of_def light_entropy_eq)

lemma light_accepts:
  assumes v: "validate_and_apply_block env wb ov ch = Some (Inr b, ch')" and f: "follows lc ch"
    and "recompute_txs_root (ne_keccak256 env) wb = wb_txs_root wb"
      "lc_validator_set lc = [] \<or> wb_proposer wb \<in> set (lc_validator_set lc)" "xp = None \<or> xp = Some (wb_proposer wb)"
    and quiet: "opened ch = in_state (ch_inner ch)"
  shows "\<exists>lc'. apply_decoded env lc wb xp = Some (Inr (light_tip lc'), lc') \<and> follows lc' ch'"
  using v f
proof (cases rule: validated_parts)
  case (1 ch0 head pending)
  let ?s = "in_state (ch_inner ch')" and ?ops = "map kernel_tx_from_pending pending"
  have lc: "lc_state lc = in_state (ch_inner ch)" "lc_chain_id lc = ch_chain_id ch" using f by (auto simp: follows_def)
  have "in_state (ch_inner ch0) = in_state (ch_inner ch)" by (rule seeded_state [OF 1(1) quiet])
  moreover have "fst (open_epoch (bk_number head + 1) (in_state (ch_inner ch)) None) = in_state (ch_inner ch)"
    using quiet 1(2) by (simp add: opened_def latest_block_def split: if_splits)
  ultimately obtain outs where "apply_ops (ne_kernel env) (light_ctx env wb) (lc_state lc) ?ops = Some (outs, ?s)"
    using 1(11) lc light_ctx_eq [OF 1(6,7)] by (auto simp: replay_block_def)
  moreover have "light_check env lc wb xp = None"
    using assms(3-5) 1(3-9) by (auto simp: light_check_passes shallow_verify_iff)
  moreover have "decode_ops_of env (lc_chain_id lc) (wb_raw_txs wb) = Inr ?ops"
    using decode_ops_of_pending [OF 1(10)] lc by simp
  ultimately have "apply_decoded env lc wb xp
      = Some (Inr (light_tip (light_commit env lc wb ?s)), light_commit env lc wb ?s)"
    using 1(12) assms(3) by (simp add: apply_decoded_def Let_def)
  moreover have "follows (light_commit env lc wb ?s) ch'"
    using 1(13-17) lc by (simp add: follows_def light_commit_def wire_hash_eq)
  ultimately show ?thesis by blast
qed

section \<open>A concrete client\<close>

text \<open>A client anchored at the concrete node's genesis, and the node's first block.\<close>

abbreviation demo_light :: light_core where
  "demo_light \<equiv> light_genesis 42 (bk_hash (List.last (in_blocks (ch_inner demo_chain)))) 0 100"

lemma demo_light_follows: "follows demo_light demo_chain"
  by (simp add: follows_def light_genesis_def demo_chain_fields) (simp add: demo_chain_def boot_def chain_new_def Let_def)

lemma demo_opened: "opened demo_chain = in_state (ch_inner demo_chain)"
proof -
  have "refresh_epoch_validators mem_state_new 0 = mem_state_new"
    by (simp add: refresh_epoch_validators_def set_epoch_validators_def compute_validator_membership_def
        mem_state_new_def active_jurors_def fm_values_eq sorted_list_of_fset.rep_eq sort_dedup_def)
  then show ?thesis by (simp add: opened_def demo_chain_fields open_epoch_def EPOCH_BLOCKS_def)
qed

text \<open>A block without transactions or sweep logs carries the root of no transactions.\<close>

lemma produced_empty_root:
  assumes "produce_block_at_view env ts view ch = Some (b, ch')" "in_mempool (ch_inner ch) = []"
    "latest_block (ch_inner ch) = Some parent"
  shows "recompute_txs_root (ne_keccak256 env) (wire_of b []) = wb_txs_root (wire_of b [])"
proof -
  have "latest_block (ch_inner (ch\<lparr>ch_inner := (ch_inner ch)\<lparr>in_mempool := []\<rparr>\<rparr>)) = Some parent"
    using assms(3) by (simp add: latest_block_def split: if_splits)
  then obtain stored' s where "b = build_block (ne_keccak256 env) parent ts view 0 (ch_proposer_key ch) None stored' s"
    by (rule execute_block_parts [OF produce_parts [OF assms(1)]]) (simp add: assms(2))
  then show ?thesis
    using build_block_fields(7) [of "ne_keccak256 env" parent ts view 0 "ch_proposer_key ch" None stored' s]
    by (simp add: wire_of_def recompute_txs_root_def compute_txs_root_def)
qed

lemma demo_first_block:
  obtains b ch' where "validate_and_apply_block demo_node (wire_of b []) (Some demo_proposer) demo_chain = Some (Inr b, ch')"
    "recompute_txs_root (ne_keccak256 demo_node) (wire_of b []) = wb_txs_root (wire_of b [])"
proof -
  obtain b A' B' where p: "produce_block_at_view demo_node 110 0 demo_chain = Some (b, A')"
    and v: "validate_and_apply_block demo_node (wire_of b []) (Some demo_proposer) demo_chain = Some (Inr b, B')"
    using demo_validates by auto
  from that [OF v produced_empty_root [OF p demo_chain_fields(1,7)]] show ?thesis .
qed

lemma demo_light_accepts:
  obtains b lc' where "apply_block demo_node demo_light (block_encode (wire_of b [])) None = Some (Inr (light_tip lc'), lc')"
    "block_decode (block_encode (wire_of b [])) = Inr (wire_of b [])"
proof -
  obtain b A' ch' where p: "produce_block_at_view demo_node 110 0 demo_chain = Some (b, A')"
    and v: "validate_and_apply_block demo_node (wire_of b []) (Some demo_proposer) demo_chain = Some (Inr b, ch')"
    using demo_validates by auto
  let ?wb = "wire_of b []"
  have "latest_block (ch_inner (demo_chain\<lparr>ch_inner := (ch_inner demo_chain)\<lparr>in_mempool := []\<rparr>\<rparr>))
      = Some (List.last (in_blocks (ch_inner demo_chain)))"
    using demo_chain_fields(7) by (simp add: latest_block_def split: if_splits)
  then obtain stored' s where b: "b = build_block (ne_keccak256 demo_node) (List.last (in_blocks (ch_inner demo_chain)))
      110 0 0 (ch_proposer_key demo_chain) None stored' s"
    by (rule execute_block_parts [OF produce_parts [OF p]]) (simp add: demo_chain_fields)
  have "block_fits MAX_BLOCK_BYTES ?wb \<and> length (block_encode ?wb) \<le> LIGHT_MAX_BLOCK_BYTES"
    by (simp add: b wire_of_def build_block_def Let_def seal_header_def demo_chain_fields block_fits_def block_encode_def
        sign_prehash_def demo_key_def put_bytes_def const_defs)
  then have d: "block_decode (block_encode ?wb) = Inr ?wb" "light_block_decode (block_encode ?wb) = Inr ?wb"
    by (simp_all add: light_block_decode_iff block_decode_iff const_defs)
  have "lc_validator_set demo_light = [] \<or> wb_proposer ?wb \<in> set (lc_validator_set demo_light)"
    by (simp add: light_genesis_def)
  from light_accepts [OF v demo_light_follows produced_empty_root [OF p demo_chain_fields(1,7)] this _ demo_opened, of None] d(2)
  obtain lc' where "apply_block demo_node demo_light (block_encode ?wb) None = Some (Inr (light_tip lc'), lc')"
    by (auto simp: apply_block_def)
  with d(1) that show ?thesis by blast
qed

section \<open>Properties\<close>

text \<open>
  C7: The light client trusts nothing it has not recomputed. It accepts bytes only when they are the wire form
  of a block that extends its tip, is later, is signed by its author, whose author is in the pinned set if
  one is pinned, carries the transactions its root names, and re-executes with the shared kernel, from the
  client's own state, to the state root in its header; the client then holds that state and tip. Anything
  else leaves state and tip untouched.
\<close>

theorem light_client_exact:
  assumes "apply_block env lc wire xp = Some (r, lc')"
  shows "case r of
      Inl e \<Rightarrow> lc' = lc
    | Inr out \<Rightarrow> \<exists>b decoded outs trial. block_decode wire = Inr b \<and> length wire \<le> 4 * 1024 * 1024
        \<and> wb_number b = lc_tip_number lc + 1 \<and> wb_parent_hash b = lc_tip_hash lc \<and> lc_tip_timestamp lc < wb_timestamp b
        \<and> recover_proposer env (header_hash (ne_keccak256 env) b) (wb_proposer_sig b) = Some (wb_proposer b)
        \<and> (xp = None \<or> xp = Some (wb_proposer b))
        \<and> (lc_validator_set lc = [] \<or> wb_proposer b \<in> set (lc_validator_set lc))
        \<and> recompute_txs_root (ne_keccak256 env) b = wb_txs_root b
        \<and> decode_ops_of env (lc_chain_id lc) (wb_raw_txs b) = Inr decoded
        \<and> apply_ops (ne_kernel env) (light_ctx env b) (lc_state lc) decoded = Some (outs, trial)
        \<and> state_root trial = wb_state_root b
        \<and> lc' = lc\<lparr>lc_state := trial, lc_tip_number := wb_number b,
            lc_tip_hash := header_hash (ne_keccak256 env) b, lc_tip_state_root := wb_state_root b,
            lc_tip_timestamp := wb_timestamp b\<rparr>
        \<and> out = light_tip lc'"
proof (cases "light_block_decode wire")
  case (Inl e)
  then show ?thesis using assms by (auto simp: apply_block_def)
next
  case (Inr b)
  then have "apply_decoded env lc b xp = Some (r, lc')" using assms by (simp add: apply_block_def)
  then show ?thesis
  proof (cases rule: apply_decoded_cases)
    case (applied decoded outs trial)
    have "block_decode wire = Inr b \<and> length wire \<le> 4 * 1024 * 1024"
      using Inr by (auto simp: light_block_decode_iff LIGHT_MAX_BLOCK_BYTES_def)
    with applied show ?thesis
      by (auto simp: light_check_passes shallow_verify_iff light_commit_def wire_hash_eq)
  qed simp
qed

theorem light_client_exact_witness:
  "\<exists>b lc'. apply_block demo_node demo_light (block_encode (wire_of b [])) None = Some (Inr (light_tip lc'), lc')
     \<and> lc_tip_number lc' = 1 \<and> lc_tip_hash lc' = header_hash (ne_keccak256 demo_node) (wire_of b [])"
proof -
  obtain b lc' where a: "apply_block demo_node demo_light (block_encode (wire_of b [])) None = Some (Inr (light_tip lc'), lc')"
    and d: "block_decode (block_encode (wire_of b [])) = Inr (wire_of b [])"
    by (rule demo_light_accepts)
  from light_client_exact [OF a] d have "lc_tip_number lc' = 1 \<and> lc_tip_hash lc' = header_hash (ne_keccak256 demo_node) (wire_of b [])"
    by (auto simp: light_genesis_def)
  then show ?thesis using a by blast
qed



end
